(* ===== verification/Ipc_Prelude.thy ===== *)
theory Ipc_Prelude
  imports Main "HOL-Library.Word"
begin

text \<open>
  What the theories of this development share: the machine integer types, facts on lists
  that are updated at one index (a shared memory, a table of threads), the splitting of a
  run of a machine at a point, and the interface of a machine whose runs keep an
  invariant.
\<close>

unbundle bit_operations_syntax

type_synonym u8 = "8 word"
type_synonym u32 = "32 word"
type_synonym u64 = "64 word"

section \<open>Lists updated at one index\<close>

text \<open>How many elements of a table satisfy a predicate, after one of them changed.\<close>

definition count_if :: "('a \<Rightarrow> bool) \<Rightarrow> 'a list \<Rightarrow> nat" where
  "count_if P xs = length (filter P xs)"

lemma count_if_simps [simp]:
  "count_if P [] = 0"
  "count_if P (x # xs) = (if P x then Suc (count_if P xs) else count_if P xs)"
  by (simp_all add: count_if_def)

lemma count_if_append [simp]: "count_if P (xs @ ys) = count_if P xs + count_if P ys"
  by (simp add: count_if_def)

lemma count_if_replicate [simp]: "count_if P (replicate n x) = (if P x then n else 0)"
  by (induction n) auto

lemma count_if_split:
  "i < length xs \<Longrightarrow>
   count_if P xs = count_if P (take i xs) + (if P (xs ! i) then 1 else 0) + count_if P (drop (Suc i) xs)"
  by (subst id_take_nth_drop [of i xs]) auto

lemma count_if_update:
  assumes "i < length xs"
  shows "count_if P (xs[i := x]) + (if P (xs ! i) then 1 else 0) =
         count_if P xs + (if P x then 1 else 0)"
proof -
  have "xs[i := x] = take i xs @ x # drop (Suc i) xs"
    using assms by (simp add: upd_conv_take_nth_drop)
  then show ?thesis
    using count_if_split [OF assms, of P] by simp
qed

lemma count_if_pos: "i < length xs \<Longrightarrow> P (xs ! i) \<Longrightarrow> 0 < count_if P xs"
  using count_if_split [of i xs P] by simp

lemma count_if_zero_iff: "count_if P xs = 0 \<longleftrightarrow> (\<forall>x \<in> set xs. \<not> P x)"
  by (induction xs) auto

lemma count_if_two:
  assumes "i < length xs" "j < length xs" "i \<noteq> j" "P (xs ! i)" "P (xs ! j)"
  shows "2 \<le> count_if P xs"
proof -
  have "count_if P (xs[i := xs ! j]) + 1 = count_if P xs + 1"
    using count_if_update [OF assms(1), of P "xs ! j"] assms by simp
  have *: "count_if P xs = count_if P (take i xs) + 1 + count_if P (drop (Suc i) xs)"
    using count_if_split [OF assms(1), of P] assms(4) by simp
  show ?thesis
  proof (cases "j < i")
    case True
    then have "0 < count_if P (take i xs)"
      using assms by (intro count_if_pos [of j]) auto
    with * show ?thesis by simp
  next
    case False
    with assms(3) have "Suc i \<le> j" by simp
    then have "drop (Suc i) xs ! (j - Suc i) = xs ! j" and "j - Suc i < length (drop (Suc i) xs)"
      using assms by auto
    then have "0 < count_if P (drop (Suc i) xs)"
      using assms(5) count_if_pos [of "j - Suc i" "drop (Suc i) xs" P] by simp
    with * show ?thesis by simp
  qed
qed

lemma count_if_cong: "(\<And>x. x \<in> set xs \<Longrightarrow> P x = Q x) \<Longrightarrow> count_if P xs = count_if Q xs"
  by (induction xs) auto

lemma ball_update: "\<forall>x \<in> set xs. P x \<Longrightarrow> P y \<Longrightarrow> \<forall>x \<in> set (xs[i := y]). P x"
  using set_update_subset_insert [of xs i y] by blast

text \<open>A copy loop writes one element at a time: the prefix that is already equal grows.\<close>

lemma take_Suc_eqI:
  "take k xs = take k ys \<Longrightarrow> k < length xs \<Longrightarrow> k < length ys \<Longrightarrow> xs ! k = ys ! k \<Longrightarrow>
   take (Suc k) xs = take (Suc k) ys"
  by (simp add: take_Suc_conv_app_nth)

lemma take_update_le [simp]: "k \<le> n \<Longrightarrow> take k (xs[n := x]) = take k xs"
  by simp

section \<open>Words as bytes\<close>

text \<open>The bytes of the low \<open>n\<close> bytes of a word, and the word that bytes stand for.\<close>

fun bytes_of :: "nat \<Rightarrow> u64 \<Rightarrow> u8 list" where
  "bytes_of 0 v = []"
| "bytes_of (Suc n) v = ucast v # bytes_of n (drop_bit 8 v)"

fun word_of :: "u8 list \<Rightarrow> u64" where
  "word_of [] = 0"
| "word_of (b # bs) = push_bit 8 (word_of bs) OR ucast b"

lemma length_bytes_of [simp]: "length (bytes_of n v) = n"
  by (induction n arbitrary: v) auto

lemma bytes_of_zero [simp]: "bytes_of n 0 = replicate n 0"
  by (induction n) auto

lemma word_of_bytes_of: "word_of (bytes_of n v) = take_bit (8 * n) v"
proof (induction n arbitrary: v)
  case (Suc n)
  show ?case
  proof (rule bit_eqI)
    fix m assume "possible_bit TYPE(64 word) m"
    then show "bit (word_of (bytes_of (Suc n) v)) m = bit (take_bit (8 * Suc n) v) m"
      by (cases "m < 8") (auto simp: Suc bit_simps)
  qed
qed simp

section \<open>Runs of a machine\<close>

text \<open>
  A machine is a total function from a state and an action to the next state; a run applies
  a list of actions. (An action that is not enabled leaves the state as it is.)
\<close>

fun run :: "('s \<Rightarrow> 'a \<Rightarrow> 's) \<Rightarrow> 's \<Rightarrow> 'a list \<Rightarrow> 's" where
  "run act s [] = s"
| "run act s (a # as) = run act (act s a) as"

lemma run_append [simp]: "run act s (as @ bs) = run act (run act s as) bs"
  by (induction as arbitrary: s) auto

text \<open>
  The interface of a machine with an invariant: what its initial state and its actions
  promise. The client's facts follow for every run.
\<close>

locale machine =
  fixes act :: "'s \<Rightarrow> 'a \<Rightarrow> 's"
    and start :: "'s \<Rightarrow> bool"
    and inv :: "'s \<Rightarrow> bool"
  assumes inv_start: "start s \<Longrightarrow> inv s"
    and inv_act: "inv s \<Longrightarrow> inv (act s a)"
begin

lemma inv_run: "inv s \<Longrightarrow> inv (run act s as)"
  by (induction as arbitrary: s) (auto intro: inv_act)

lemma inv_reach: "start s \<Longrightarrow> inv (run act s as)"
  by (rule inv_run) (rule inv_start)

lemma inv_along: "inv s \<Longrightarrow> inv (run act s (take k as))"
  by (rule inv_run)

end

text \<open>
  A machine that implements an abstract one: every action of the machine is one abstract
  event on the abstract state (or none, the event that changes nothing). Every run then is
  a run of the abstract machine over the events that the machine emits.
\<close>

fun events :: "('s \<Rightarrow> 'a \<Rightarrow> 's) \<Rightarrow> ('s \<Rightarrow> 'a \<Rightarrow> 'e) \<Rightarrow> 's \<Rightarrow> 'a list \<Rightarrow> 'e list" where
  "events act ev s [] = []"
| "events act ev s (a # as) = ev s a # events act ev (act s a) as"

locale simulation = machine act start inv
  for act :: "'s \<Rightarrow> 'a \<Rightarrow> 's" and start :: "'s \<Rightarrow> bool" and inv :: "'s \<Rightarrow> bool" +
  fixes absf :: "'s \<Rightarrow> 'b"
    and spec :: "'b \<Rightarrow> 'e \<Rightarrow> 'b"
    and ev :: "'s \<Rightarrow> 'a \<Rightarrow> 'e"
  assumes sim_act: "inv s \<Longrightarrow> absf (act s a) = spec (absf s) (ev s a)"
begin

lemma sim_run: "inv s \<Longrightarrow> absf (run act s as) = run spec (absf s) (events act ev s as)"
  by (induction as arbitrary: s) (auto simp: sim_act inv_act)

lemma sim_reach: "start s \<Longrightarrow> absf (run act s as) = run spec (absf s) (events act ev s as)"
  by (rule sim_run) (rule inv_start)

end

end
