(* ===== verification/Flag_Word.thy ===== *)
theory Flag_Word
  imports Ipc_Prelude
begin

text \<open>
  The 64-bit word \<open>flags\<close> of a host variable (src/host_variable.c): fifteen 4-bit lock
  counts, one per buffer slot, and in the top four bits the number of the slot that holds
  the latest value (the target). The definitions are the expressions of the code, bit by
  bit. The lemmas read the word as an array of counts and a target, and show what each
  expression does to that array. The array view is the interface \<open>lock_word\<close> at the
  end, which the machine of the host variable uses.
\<close>

section \<open>The expressions of the code\<close>

text \<open>The number of buffer slots a host variable really has (config.h).\<close>

definition SHM_BUFFER_CNT :: nat where
  "SHM_BUFFER_CNT = 4"

text \<open>\<open>(flags >> (i * 4)) & 0xF\<close>, the lock count of slot \<open>i\<close>.\<close>

definition nib :: "u64 \<Rightarrow> nat \<Rightarrow> u64" where
  "nib flags i = drop_bit (i * 4) flags AND 0xF"

text \<open>\<open>(flags & ~(0xFull << (i * 4))) | (v << (i * 4))\<close>: store a lock count.\<close>

definition put_nib :: "u64 \<Rightarrow> nat \<Rightarrow> u64 \<Rightarrow> u64" where
  "put_nib flags i v = (flags AND NOT (push_bit (i * 4) 0xF)) OR push_bit (i * 4) v"

text \<open>\<open>flags >> 60\<close>, the slot to read from.\<close>

definition target_of :: "u64 \<Rightarrow> nat" where
  "target_of flags = unat (drop_bit 60 flags)"

text \<open>The word a reader installs, and the count it computes for it.\<close>

definition acquire_tmp :: "u64 \<Rightarrow> u64" where
  "acquire_tmp flags = nib flags (target_of flags) + 1"

definition acquire_word :: "u64 \<Rightarrow> u64" where
  "acquire_word flags = put_nib flags (target_of flags) (acquire_tmp flags)"

text \<open>The word a reader of slot \<open>target\<close> installs when it is done.\<close>

definition release_word :: "u64 \<Rightarrow> nat \<Rightarrow> u64" where
  "release_word flags target = put_nib flags target (nib flags target - 1)"

text \<open>
  The slots a writer may take: the lowest bit of each nibble that is zero and is not the
  target's. \<open>__builtin_ctzll\<close> counts the trailing zero bits (of a word that is not 0).
\<close>

definition free_mask :: "u64 \<Rightarrow> u64" where
  "free_mask flags =
     NOT (flags OR drop_bit 1 flags OR drop_bit 2 flags OR drop_bit 3 flags
          OR push_bit (target_of flags * 4) 0xF)
     AND 0x0111111111111111"

definition ctzll :: "u64 \<Rightarrow> nat" where
  "ctzll w = length (takeWhile (\<lambda>n. \<not> bit w n) [0..<64])"

text \<open>
  The word a writer installs to take the slot at bit \<open>target4\<close> (four times the number of
  the slot), to publish it as the new target, and to give it back unpublished.
\<close>

definition write_lock_word :: "u64 \<Rightarrow> nat \<Rightarrow> u64" where
  "write_lock_word flags target4 = flags OR push_bit target4 0xF"

definition publish_word :: "u64 \<Rightarrow> nat \<Rightarrow> u64" where
  "publish_word flags target4 =
     push_bit 60 (of_nat (target4 div 4))
     OR (flags AND 0x0FFFFFFFFFFFFFFF AND NOT (push_bit target4 0xF))"

definition drop_word :: "u64 \<Rightarrow> nat \<Rightarrow> u64" where
  "drop_word flags target4 = flags AND NOT (push_bit target4 0xF)"

text \<open>The flags of a new variable: slots \<open>0..3\<close> free, the other nibbles locked.\<close>

definition initial_flags :: u64 where
  "initial_flags = push_bit (SHM_BUFFER_CNT * 4) (push_bit ((15 - SHM_BUFFER_CNT) * 4) 1 - 1)"

section \<open>The word as an array of counts\<close>

definition cnt :: "u64 \<Rightarrow> nat \<Rightarrow> nat" where
  "cnt flags i = unat (nib flags i)"

lemma bit_int_15 [simp]: "bit (15 :: int) n \<longleftrightarrow> n < 4"
proof -
  have "(15 :: int) = mask 4" by (simp add: mask_eq_exp_minus_1)
  then show ?thesis by (simp only: bit_mask_iff) simp
qed

lemma bit_F: "bit (0xF :: u64) n \<longleftrightarrow> n < 4"
  by auto

lemma bit_push_F:
  "bit (push_bit m (0xF :: u64)) n \<longleftrightarrow> m \<le> n \<and> n < m + 4 \<and> n < 64"
  by (auto simp: bit_push_bit_iff bit_F)

lemma bit_nib: "bit (nib f i) n \<longleftrightarrow> n < 4 \<and> bit f (i * 4 + n)"
  by (auto simp: nib_def bit_simps bit_F)

lemma nib_eqI:
  assumes "\<And>n. n < 4 \<Longrightarrow> bit f (i * 4 + n) = bit g (j * 4 + n)"
  shows "nib f i = nib g j"
  by (rule bit_eqI) (auto simp: bit_nib assms)

lemma cnt_less: "cnt f i < 16"
proof -
  have "nib f i \<le> 15"
    unfolding nib_def by (rule word_and_le1)
  then show ?thesis
    by (simp add: cnt_def word_le_nat_alt)
qed

lemma nib_small_bits:
  assumes "(v :: u64) \<le> 15" shows "bit v n \<Longrightarrow> n < 4"
proof -
  assume b: "bit v n"
  have "v = take_bit 4 v"
    using assms by (simp add: take_bit_eq_mod word_le_nat_alt unat_mod word_unat_eq_iff)
  with b show "n < 4" by (metis bit_take_bit_iff)
qed

lemma nib_put_nib:
  assumes "i < 16" "j < 16" "v \<le> 15"
  shows "nib (put_nib f i v) j = (if j = i then v else nib f j)"
proof (cases "j = i")
  case True
  have "i * 4 + n < 64" if "bit v n" for n
    using assms(1) nib_small_bits [OF assms(3) that] by linarith
  with True show ?thesis
    using nib_small_bits [OF assms(3)]
    by (intro bit_eqI) (auto simp: bit_nib put_nib_def bit_simps bit_push_F)
next
  case False
  then have apart: "i * 4 + 4 \<le> j * 4 \<or> j * 4 + 4 \<le> i * 4" by linarith
  have "\<not> (i * 4 \<le> j * 4 + n \<and> bit v (j * 4 + n - i * 4))" if "n < 4" for n
    using apart that nib_small_bits [OF assms(3), of "j * 4 + n - i * 4"] by linarith
  with apart False assms(2) show ?thesis
    by (intro bit_eqI) (auto simp: bit_nib put_nib_def bit_simps bit_push_F)
qed

lemma target_of_nib: "target_of f = cnt f 15"
proof -
  have "drop_bit 60 f = nib f 15"
    by (rule bit_eqI) (auto simp: bit_nib bit_simps dest: bit_imp_le_length)
  then show ?thesis by (simp add: target_of_def cnt_def)
qed

lemma target_of_less: "target_of f < 16"
  by (simp add: target_of_nib cnt_less)

lemma nib_of_cnt: "nib f i = of_nat (cnt f i)"
  by (simp add: cnt_def)

lemma cnt_put_nib:
  assumes "i < 16" "j < 16" "unat v < 16"
  shows "cnt (put_nib f i v) j = (if j = i then unat v else cnt f j)"
  using assms by (simp add: cnt_def nib_put_nib word_le_nat_alt)

lemma acquire_tmp_full: "acquire_tmp f = 0xF \<longleftrightarrow> cnt f (target_of f) = 14"
proof -
  have "acquire_tmp f = 0xF \<longleftrightarrow> nib f (target_of f) = 14"
    by (simp add: acquire_tmp_def eq_diff_eq [symmetric])
  also have "\<dots> \<longleftrightarrow> cnt f (target_of f) = 14"
    by (simp add: cnt_def word_unat_eq_iff)
  finally show ?thesis .
qed

lemma unat_acquire_tmp: "unat (acquire_tmp f) = cnt f (target_of f) + 1"
  using cnt_less [of f "target_of f"]
  by (simp add: acquire_tmp_def cnt_def unat_word_ariths)

lemma cnt_acquire:
  assumes "j < 16" "cnt f (target_of f) < 15"
  shows "cnt (acquire_word f) j = (if j = target_of f then cnt f j + 1 else cnt f j)"
  using assms target_of_less [of f]
  by (simp add: acquire_word_def cnt_put_nib unat_acquire_tmp)

lemma cnt_release:
  assumes "j < 16" "t < 16" "0 < cnt f t"
  shows "cnt (release_word f t) j = (if j = t then cnt f j - 1 else cnt f j)"
proof -
  have "nib f t \<noteq> 0" using assms(3) by (auto simp: cnt_def)
  then have "unat (nib f t - 1) = cnt f t - 1"
    by (simp add: cnt_def unat_minus_one)
  then show ?thesis
    using assms cnt_less [of f t] by (simp add: release_word_def cnt_put_nib)
qed

lemma cnt_of_bits: "cnt f i = unat (nib f i)"
  by (simp add: cnt_def)

lemma cnt_eqI: "nib f i = nib g j \<Longrightarrow> cnt f i = cnt g j"
  by (simp add: cnt_def)

lemma cnt_zero_iff: "cnt f i = 0 \<longleftrightarrow> (\<forall>n < 4. \<not> bit f (i * 4 + n))"
proof -
  have "cnt f i = 0 \<longleftrightarrow> nib f i = 0"
    by (simp add: cnt_def unat_eq_zero)
  also have "\<dots> \<longleftrightarrow> (\<forall>n < 4. \<not> bit f (i * 4 + n))"
    by (auto simp: bit_eq_iff bit_nib)
  finally show ?thesis .
qed

lemma nib_full: 
  assumes "\<And>n. n < 4 \<Longrightarrow> bit f (i * 4 + n)"
  shows "cnt f i = 15"
proof -
  have "nib f i = 0xF"
    by (rule bit_eqI) (auto simp: bit_nib assms)
  then show ?thesis by (simp add: cnt_def)
qed

lemma cnt_write_lock:
  assumes "t < 16" "j < 16"
  shows "cnt (write_lock_word f (4 * t)) j = (if j = t then 15 else cnt f j)"
proof (cases "j = t")
  case True
  have "cnt (write_lock_word f (4 * t)) t = 15"
    using assms by (intro nib_full) (simp add: write_lock_word_def bit_simps bit_push_F)
  with True show ?thesis by simp
next
  case False
  then have "j * 4 + 4 \<le> t * 4 \<or> t * 4 + 4 \<le> j * 4" by linarith
  then have "nib (write_lock_word f (4 * t)) j = nib f j"
    using assms by (intro nib_eqI) (auto simp: write_lock_word_def bit_simps bit_push_F)
  with False show ?thesis by (simp add: cnt_def)
qed

lemma cnt_drop:
  assumes "t < 16" "j < 16"
  shows "cnt (drop_word f (4 * t)) j = (if j = t then 0 else cnt f j)"
proof (cases "j = t")
  case True
  then show ?thesis
    using assms by (simp add: cnt_zero_iff drop_word_def bit_simps bit_push_F)
next
  case False
  then have "j * 4 + 4 \<le> t * 4 \<or> t * 4 + 4 \<le> j * 4" by linarith
  then have "nib (drop_word f (4 * t)) j = nib f j"
    using assms by (intro nib_eqI) (auto simp: drop_word_def bit_simps bit_push_F)
  with False show ?thesis by (simp add: cnt_def)
qed

text \<open>The two masks of the writer: which bits they keep.\<close>

lemma low60_mask: "(0x0FFFFFFFFFFFFFFF :: u64) = mask 60"
  by (simp add: mask_eq_exp_minus_1)

lemma nibble_lsb_mask: "n < 64 \<Longrightarrow> bit (0x0111111111111111 :: u64) n \<longleftrightarrow> n < 60 \<and> n mod 4 = 0"
proof -
  have *: "\<forall>n \<in> set [0..<64]. bit (0x0111111111111111 :: u64) n \<longleftrightarrow> n < 60 \<and> n mod 4 = 0"
    by code_simp
  assume "n < 64"
  then show ?thesis using * by simp
qed

lemma publish_word_alt:
  "publish_word f (4 * t) = push_bit 60 (of_nat t) OR (drop_word f (4 * t) AND mask 60)"
  by (rule bit_eqI)
    (auto simp: publish_word_def drop_word_def low60_mask [symmetric] bit_simps)

lemma cnt_publish:
  assumes "t < 15" "j < 16"
  shows "cnt (publish_word f (4 * t)) j = (if j = 15 then t else if j = t then 0 else cnt f j)"
proof (cases "j = 15")
  case True
  have "nib (publish_word f (4 * t)) 15 = of_nat t"
  proof (rule bit_eqI)
    fix n :: nat
    have "(of_nat t :: u64) \<le> 15"
      using assms by (simp add: word_le_nat_alt unat_of_nat)
    from nib_small_bits [OF this, of n]
    show "bit (nib (publish_word f (4 * t)) 15) n = bit (of_nat t :: u64) n"
      by (auto simp: bit_nib publish_word_alt bit_simps)
  qed
  with True assms show ?thesis by (simp add: cnt_def unat_of_nat)
next
  case False
  have "nib (publish_word f (4 * t)) j = nib (drop_word f (4 * t)) j"
    using False assms by (intro nib_eqI) (auto simp: publish_word_alt bit_simps)
  then have "cnt (publish_word f (4 * t)) j = cnt (drop_word f (4 * t)) j"
    by (rule cnt_eqI)
  with False assms show ?thesis by (simp add: cnt_drop)
qed

section \<open>The target\<close>

lemma target_of_acquire:
  "cnt f (target_of f) < 15 \<Longrightarrow> target_of f < 15 \<Longrightarrow> target_of (acquire_word f) = target_of f"
  by (simp add: target_of_nib cnt_acquire)

lemma target_of_release:
  "t < 15 \<Longrightarrow> 0 < cnt f t \<Longrightarrow> target_of (release_word f t) = target_of f"
  by (simp add: target_of_nib cnt_release)

lemma target_of_write_lock: "t < 15 \<Longrightarrow> target_of (write_lock_word f (4 * t)) = target_of f"
  by (simp add: target_of_nib cnt_write_lock)

lemma target_of_drop: "t < 15 \<Longrightarrow> target_of (drop_word f (4 * t)) = target_of f"
  by (simp add: target_of_nib cnt_drop)

lemma target_of_publish: "t < 15 \<Longrightarrow> target_of (publish_word f (4 * t)) = t"
  by (simp add: target_of_nib cnt_publish)

section \<open>The free slots\<close>

lemma bit_free_mask:
  "bit (free_mask f) n \<longleftrightarrow> n < 60 \<and> n mod 4 = 0 \<and> cnt f (n div 4) = 0 \<and> n div 4 \<noteq> target_of f"
proof (cases "n < 60 \<and> n mod 4 = 0")
  case True
  define t where "t = n div 4"
  have t: "n = t * 4" "t < 15"
    using True by (auto simp: t_def)
  have "cnt f t = 0 \<longleftrightarrow> \<not> bit f n \<and> \<not> bit f (n + 1) \<and> \<not> bit f (n + 2) \<and> \<not> bit f (n + 3)"
    by (auto simp: cnt_zero_iff t less_Suc_eq numeral_eq_Suc)
  moreover have "bit (push_bit (target_of f * 4) (0xF :: u64)) n \<longleftrightarrow> t = target_of f"
    using t target_of_less [of f] by (auto simp: bit_push_F)
  ultimately show ?thesis
    using t nibble_lsb_mask [of n]
    by (auto simp: free_mask_def bit_and_iff bit_or_iff bit_not_iff bit_drop_bit_eq add.commute)
next
  case False
  have "\<not> bit (0x0111111111111111 :: u64) n"
  proof (cases "n < 64")
    case True
    with False show ?thesis by (simp only: nibble_lsb_mask) simp
  next
    case ge: False
    then show ?thesis using bit_imp_le_length [of "0x0111111111111111 :: u64" n] by auto
  qed
  with False show ?thesis
    unfolding free_mask_def bit_and_iff by metis
qed

lemma ctzll_least:
  assumes "w \<noteq> 0"
  shows "bit w (ctzll w)" and "n < ctzll w \<Longrightarrow> \<not> bit w n" and "ctzll w < 64"
proof -
  let ?P = "\<lambda>n. \<not> bit w n"
  let ?xs = "[0..<64]"
  obtain m where m: "bit w m"
    using assms by (auto simp: bit_eq_iff)
  then have "m < 64"
    using bit_imp_le_length [OF m] by simp
  with m have "takeWhile ?P ?xs \<noteq> ?xs"
    by (auto simp: takeWhile_eq_all_conv)
  then have "length (takeWhile ?P ?xs) \<noteq> length ?xs"
    by (metis takeWhile_eq_take take_all order_refl)
  then have len: "ctzll w < length ?xs"
    using length_takeWhile_le [of ?P ?xs] by (simp add: ctzll_def)
  show "bit w (ctzll w)"
    using nth_length_takeWhile [of ?P ?xs] len by (simp add: ctzll_def)
  show "n < ctzll w \<Longrightarrow> \<not> bit w n"
  proof -
    assume "n < ctzll w"
    then have "takeWhile ?P ?xs ! n \<in> set (takeWhile ?P ?xs)"
      by (simp add: ctzll_def)
    moreover have "takeWhile ?P ?xs ! n = n"
      using \<open>n < ctzll w\<close> len by (simp add: ctzll_def takeWhile_nth)
    ultimately show "\<not> bit w n"
      by (metis set_takeWhileD)
  qed
  show "ctzll w < 64" using len by simp
qed

text \<open>The slot a writer takes: the lowest free one that is not the target.\<close>

lemma free_mask_zero_iff:
  "free_mask f = 0 \<longleftrightarrow> (\<forall>t < 15. t \<noteq> target_of f \<longrightarrow> cnt f t \<noteq> 0)"
proof
  assume z: "free_mask f = 0"
  show "\<forall>t < 15. t \<noteq> target_of f \<longrightarrow> cnt f t \<noteq> 0"
  proof (intro allI impI)
    fix t assume "t < 15" "t \<noteq> target_of f"
    with bit_free_mask [of f "t * 4"] z show "cnt f t \<noteq> 0" by simp
  qed
next
  assume all: "\<forall>t < 15. t \<noteq> target_of f \<longrightarrow> cnt f t \<noteq> 0"
  show "free_mask f = 0"
  proof (rule bit_eqI)
    fix n
    show "bit (free_mask f) n = bit (0 :: u64) n"
      using all [rule_format, of "n div 4"] by (auto simp: bit_free_mask)
  qed
qed

lemma ctzll_free_mask:
  assumes "free_mask f \<noteq> 0"
  obtains t where "ctzll (free_mask f) = 4 * t" "t < 15" "cnt f t = 0" "t \<noteq> target_of f"
    "\<And>u. u < t \<Longrightarrow> u \<noteq> target_of f \<Longrightarrow> cnt f u \<noteq> 0"
proof
  let ?n = "ctzll (free_mask f)"
  have n: "?n < 60" "?n mod 4 = 0" "cnt f (?n div 4) = 0" "?n div 4 \<noteq> target_of f"
    using ctzll_least(1) [OF assms] by (auto simp: bit_free_mask)
  then show "?n = 4 * (?n div 4)" "?n div 4 < 15" "cnt f (?n div 4) = 0" "?n div 4 \<noteq> target_of f"
    by auto
  fix u assume u: "u < ?n div 4" "u \<noteq> target_of f"
  then have "4 * u < ?n" using n(2) by linarith
  from ctzll_least(2) [OF assms this] u n show "cnt f u \<noteq> 0"
    by (auto simp: bit_free_mask)
qed

lemma initial_flags_value: "initial_flags = 0x0FFFFFFFFFFF0000"
  by (simp add: initial_flags_def SHM_BUFFER_CNT_def)

lemma cnt_initial: "i < 16 \<Longrightarrow> cnt initial_flags i = (if i < SHM_BUFFER_CNT \<or> i = 15 then 0 else 15)"
proof -
  have *: "\<forall>i \<in> set [0..<16]. cnt 0x0FFFFFFFFFFF0000 i = (if i < 4 \<or> i = 15 then 0 else 15)"
    by code_simp
  assume "i < 16"
  then show ?thesis
    using * unfolding initial_flags_value SHM_BUFFER_CNT_def by simp
qed

lemma target_initial: "target_of initial_flags = 0"
  by (simp add: target_of_nib cnt_initial)

section \<open>The interface of the lock word\<close>

text \<open>
  When a lock count agrees with the threads that hold the slot: \<open>r\<close> readers share it and
  the count is their number (at most 14, since 15 means locked for writing), or one writer
  owns it.
\<close>

definition slot_ok :: "nat \<Rightarrow> nat \<Rightarrow> nat \<Rightarrow> bool" where
  "slot_ok c r w \<longleftrightarrow> w = 0 \<and> c = r \<and> r \<le> 14 \<or> w = 1 \<and> r = 0 \<and> c = 15"

text \<open>
  All slots agree with the holders: the counts of slots \<open>0..3\<close>, the slots that do not
  exist stay locked, and the target is a slot that no writer owns.
\<close>

definition word_ok :: "(nat \<Rightarrow> nat) \<Rightarrow> nat \<Rightarrow> (nat \<Rightarrow> nat) \<Rightarrow> (nat \<Rightarrow> nat) \<Rightarrow> bool" where
  "word_ok count target r w \<longleftrightarrow>
     (\<forall>i < SHM_BUFFER_CNT. slot_ok (count i) (r i) (w i)) \<and>
     (\<forall>i < 15. SHM_BUFFER_CNT \<le> i \<longrightarrow> count i = 15) \<and>
     target < SHM_BUFFER_CNT \<and> w target = 0"

lemma word_okD:
  assumes "word_ok c t r w"
  shows "t < 4" "w t = 0" "c t = r t" "r t \<le> 14" "i < 4 \<Longrightarrow> slot_ok (c i) (r i) (w i)"
    "4 \<le> i \<Longrightarrow> i < 15 \<Longrightarrow> c i = 15"
  using assms by (auto simp: word_ok_def SHM_BUFFER_CNT_def slot_ok_def)

text \<open>
  What the code needs of the word: each of its five updates changes the counts and the
  target as an array would.
\<close>

locale lock_word =
  fixes look :: "'w \<Rightarrow> nat \<Rightarrow> nat"
    and target :: "'w \<Rightarrow> nat"
    and acquire :: "'w \<Rightarrow> 'w"
    and release :: "'w \<Rightarrow> nat \<Rightarrow> 'w"
    and take_slot :: "'w \<Rightarrow> nat \<Rightarrow> 'w"
    and publish :: "'w \<Rightarrow> nat \<Rightarrow> 'w"
    and give_back :: "'w \<Rightarrow> nat \<Rightarrow> 'w"
  assumes look_acquire: "look f (target f) < 15 \<Longrightarrow> target f < 15 \<Longrightarrow> j < 15 \<Longrightarrow>
      look (acquire f) j = (if j = target f then look f j + 1 else look f j)"
    and target_acquire: "look f (target f) < 15 \<Longrightarrow> target f < 15 \<Longrightarrow> target (acquire f) = target f"
    and look_release: "0 < look f t \<Longrightarrow> t < 15 \<Longrightarrow> j < 15 \<Longrightarrow>
      look (release f t) j = (if j = t then look f j - 1 else look f j)"
    and target_release: "0 < look f t \<Longrightarrow> t < 15 \<Longrightarrow> target (release f t) = target f"
    and look_take: "t < 15 \<Longrightarrow> j < 15 \<Longrightarrow> look (take_slot f t) j = (if j = t then 15 else look f j)"
    and target_take: "t < 15 \<Longrightarrow> target (take_slot f t) = target f"
    and look_publish: "t < 15 \<Longrightarrow> j < 15 \<Longrightarrow> look (publish f t) j = (if j = t then 0 else look f j)"
    and target_publish: "t < 15 \<Longrightarrow> target (publish f t) = t"
    and look_give_back: "t < 15 \<Longrightarrow> j < 15 \<Longrightarrow> look (give_back f t) j = (if j = t then 0 else look f j)"
    and target_give_back: "t < 15 \<Longrightarrow> target (give_back f t) = target f"
begin

text \<open>A reader that finds fewer than 14 readers in the target joins them.\<close>

lemma acquire_ok:
  assumes "word_ok (look f) (target f) r w" "look f (target f) \<noteq> 14"
  shows "word_ok (look (acquire f)) (target (acquire f)) (r(target f := r (target f) + 1)) w"
  using assms word_okD [OF assms(1)]
  by (auto simp: word_ok_def slot_ok_def look_acquire target_acquire SHM_BUFFER_CNT_def)

lemma reader_slot:
  "word_ok (look f) (target f) r w \<Longrightarrow> t < 4 \<Longrightarrow> 0 < r t \<Longrightarrow> w t = 0 \<and> look f t = r t"
  by (auto simp: word_ok_def slot_ok_def SHM_BUFFER_CNT_def)

text \<open>A reader of a slot leaves it.\<close>

lemma release_ok:
  assumes "word_ok (look f) (target f) r w" "t < 4" "0 < r t"
  shows "word_ok (look (release f t)) (target (release f t)) (r(t := r t - 1)) w"
  using assms reader_slot [OF assms]
  by (auto simp: word_ok_def slot_ok_def look_release target_release SHM_BUFFER_CNT_def)

text \<open>A writer takes a slot whose count is zero.\<close>

lemma take_ok:
  assumes "word_ok (look f) (target f) r w" "t < 15" "look f t = 0" "t \<noteq> target f"
  shows "t < 4 \<and> r t = 0 \<and> w t = 0 \<and>
         word_ok (look (take_slot f t)) (target (take_slot f t)) r (w(t := 1))"
proof -
  have "t < 4" using assms by (auto simp: word_ok_def SHM_BUFFER_CNT_def not_le)
  then show ?thesis
    using assms by (auto simp: word_ok_def slot_ok_def look_take target_take SHM_BUFFER_CNT_def)
qed

lemma writer_slot:
  "word_ok (look f) (target f) r w \<Longrightarrow> t < 4 \<Longrightarrow> 0 < w t \<Longrightarrow>
   w t = 1 \<and> r t = 0 \<and> look f t = 15 \<and> t \<noteq> target f"
  by (auto simp: word_ok_def slot_ok_def SHM_BUFFER_CNT_def)

text \<open>A writer publishes its slot, or gives it back.\<close>

lemma publish_ok:
  assumes "word_ok (look f) (target f) r w" "t < 4" "0 < w t"
  shows "word_ok (look (publish f t)) (target (publish f t)) r (w(t := 0))"
  using assms writer_slot [OF assms]
  by (auto simp: word_ok_def slot_ok_def look_publish target_publish SHM_BUFFER_CNT_def)

lemma give_back_ok:
  assumes "word_ok (look f) (target f) r w" "t < 4" "0 < w t"
  shows "word_ok (look (give_back f t)) (target (give_back f t)) r (w(t := 0))"
  using assms writer_slot [OF assms]
  by (auto simp: word_ok_def slot_ok_def look_give_back target_give_back SHM_BUFFER_CNT_def)

end

text \<open>The bit expressions of the code keep these promises.\<close>

interpretation fw: lock_word cnt target_of acquire_word release_word
    "\<lambda>f t. write_lock_word f (4 * t)" "\<lambda>f t. publish_word f (4 * t)" "\<lambda>f t. drop_word f (4 * t)"
  by unfold_locales
    (auto simp: cnt_acquire cnt_release cnt_write_lock cnt_publish cnt_drop target_of_acquire
      target_of_release target_of_write_lock target_of_publish target_of_drop)

end
