(* ===== verification/Host_Variable.thy ===== *)
theory Host_Variable
  imports Flag_Word
begin

text \<open>
  Reading and writing a host variable (src/host_variable.c): any number of threads, in any
  number of processes, run \<open>read_host_variable\<close> and \<open>write_host_variable\<close> on one shared
  memory object. A thread is at a program point (\<open>hv_pc\<close>, with the live locals of the C
  function), and one step is one atomic action of the code: an atomic load, a
  compare-and-exchange, one byte of a \<open>memcpy\<close>, one store to a global. An access outside
  the arrays is the program point \<open>Fault\<close>. The machine interleaves the steps of the
  threads in any order (sequential consistency, which the atomics of the code ask for).

  The invariant says that every lock count is the number of threads that hold the slot,
  and what a thread that holds a slot knows of its contents.
\<close>

section \<open>The clock\<close>

record timespec =
  tv_sec :: u64
  tv_nsec :: u64

text \<open>\<open>((uint64_t)tv_sec << 32) | ((uint64_t)tv_nsec & 0xFFFFFFFF)\<close>\<close>

definition get_compressed_timestamp :: "timespec \<Rightarrow> u64" where
  "get_compressed_timestamp boot_ts =
     push_bit 32 (tv_sec boot_ts) OR (tv_nsec boot_ts AND 0x00000000FFFFFFFF)"

section \<open>States\<close>

text \<open>
  The program points of one call. \<open>RdEnter\<close> to \<open>RelTry\<close> are \<open>read_host_variable\<close> with
  the two lock routines it calls, \<open>WrClock\<close> to \<open>WrLeave\<close> are \<open>write_host_variable\<close>;
  \<open>Ret r\<close> is a call that returned \<open>r\<close>.
\<close>

datatype hv_pc =
    Idle
  | RdEnter
  | AcqLoad
  | AcqTry u64
  | RdCopy nat nat
  | RdLeave nat
  | RelLoad nat
  | RelTry nat u64
  | WrClock
  | WrEnter u64
  | WrLoad u64
  | WrTry u64 u64
  | WrStamp u64 nat
  | WrCopy u64 nat nat
  | PubLoad u64 nat
  | PubCheck u64 nat u64
  | PubDrop nat
  | PubTry u64 nat u64
  | WrLeave
  | Ret int
  | Fault

text \<open>
  A thread: its process, its program point and the arguments of its call: \<open>op_size\<close>, the
  source \<open>data\<close> of a write and the destination \<open>buf\<close> of a read.
\<close>

record hv_thread =
  th_proc :: nat
  th_pc :: hv_pc
  th_op :: nat
  th_data :: "u8 list"
  th_buf :: "u8 list"

text \<open>
  The shared memory (\<open>struct _s_host_variable\<close>, without the initialisation field), the
  \<open>size\<close> every caller passes, the boot clock, the flag \<open>_host_variable_should_wait\<close> of
  every process with the build option \<open>NDEBUG\<close>, and the threads.
\<close>

record hv_sys =
  flags :: u64
  timestamps :: "u64 list"
  data :: "u8 list"
  var_size :: nat
  boot_clock :: timespec
  ndebug :: bool
  should_wait :: "nat \<Rightarrow> u8"
  threads :: "hv_thread list"

section \<open>Steps\<close>

text \<open>In a debug build, the call marks its process (\<open>_host_variable_should_wait = v\<close>).\<close>

definition hv_mark :: "hv_sys \<Rightarrow> hv_thread \<Rightarrow> u8 \<Rightarrow> hv_sys" where
  "hv_mark s th v =
     (if ndebug s then s else s\<lparr>should_wait := (should_wait s)(th_proc th := v)\<rparr>)"

text \<open>\<open>read_host_variable\<close>, with \<open>__acquire_read_lock\<close> and \<open>__release_read_lock\<close>.\<close>

fun read_step :: "hv_pc \<Rightarrow> hv_sys \<Rightarrow> hv_thread \<Rightarrow> hv_sys \<times> hv_thread" where
  "read_step RdEnter s th = (hv_mark s th 1, th\<lparr>th_pc := AcqLoad\<rparr>)"
| "read_step AcqLoad s th = (s, th\<lparr>th_pc := AcqTry (flags s)\<rparr>)"
| "read_step (AcqTry f) s th =
     (if acquire_tmp f = 0xF then (s, th\<lparr>th_pc := Ret (-1)\<rparr>)
      else if flags s = f
      then (s\<lparr>flags := acquire_word f\<rparr>, th\<lparr>th_pc := RdCopy (target_of f) 0\<rparr>)
      else (s, th\<lparr>th_pc := AcqTry (flags s)\<rparr>))"
| "read_step (RdCopy t k) s th =
     (if k < th_op th
      then if t * var_size s + k < length (data s) \<and> k < length (th_buf th)
        then (s, th\<lparr>th_buf := (th_buf th)[k := data s ! (t * var_size s + k)],
                    th_pc := RdCopy t (k + 1)\<rparr>)
        else (s, th\<lparr>th_pc := Fault\<rparr>)
      else (s, th\<lparr>th_pc := RdLeave t\<rparr>))"
| "read_step (RdLeave t) s th = (hv_mark s th 0, th\<lparr>th_pc := RelLoad t\<rparr>)"
| "read_step (RelLoad t) s th = (s, th\<lparr>th_pc := RelTry t (flags s)\<rparr>)"
| "read_step (RelTry t f) s th =
     (if flags s = f
      then (s\<lparr>flags := release_word f t\<rparr>, th\<lparr>th_pc := Ret 0\<rparr>)
      else (s, th\<lparr>th_pc := RelTry t (flags s)\<rparr>))"
| "read_step _ s th = (s, th)"

text \<open>\<open>write_host_variable\<close>: take a free slot, stamp it, fill it, publish it.\<close>

fun write_step :: "hv_pc \<Rightarrow> hv_sys \<Rightarrow> hv_thread \<Rightarrow> hv_sys \<times> hv_thread" where
  "write_step WrClock s th =
     (s, th\<lparr>th_pc := WrEnter (get_compressed_timestamp (boot_clock s))\<rparr>)"
| "write_step (WrEnter ts) s th = (hv_mark s th 2, th\<lparr>th_pc := WrLoad ts\<rparr>)"
| "write_step (WrLoad ts) s th = (s, th\<lparr>th_pc := WrTry ts (flags s)\<rparr>)"
| "write_step (WrTry ts f) s th =
     (if free_mask f = 0 then (s, th\<lparr>th_pc := Ret (-1)\<rparr>)
      else let target4 = ctzll (free_mask f) in
        if flags s = f
        then (s\<lparr>flags := write_lock_word f target4\<rparr>, th\<lparr>th_pc := WrStamp ts target4\<rparr>)
        else (s, th\<lparr>th_pc := WrTry ts (flags s)\<rparr>))"
| "write_step (WrStamp ts target4) s th =
     (if target4 div 4 < length (timestamps s)
      then (s\<lparr>timestamps := (timestamps s)[target4 div 4 := ts]\<rparr>,
            th\<lparr>th_pc := WrCopy ts target4 0\<rparr>)
      else (s, th\<lparr>th_pc := Fault\<rparr>))"
| "write_step (WrCopy ts target4 k) s th =
     (if k < th_op th
      then if target4 div 4 * var_size s + k < length (data s) \<and> k < length (th_data th)
        then (s\<lparr>data := (data s)[target4 div 4 * var_size s + k := th_data th ! k]\<rparr>,
              th\<lparr>th_pc := WrCopy ts target4 (k + 1)\<rparr>)
        else (s, th\<lparr>th_pc := Fault\<rparr>)
      else (s, th\<lparr>th_pc := PubLoad ts target4\<rparr>))"
| "write_step (PubLoad ts target4) s th = (s, th\<lparr>th_pc := PubCheck ts target4 (flags s)\<rparr>)"
| "write_step (PubCheck ts target4 f) s th =
     (if target_of f < length (timestamps s)
      then if timestamps s ! target_of f \<ge> ts
        then (s, th\<lparr>th_pc := PubDrop target4\<rparr>)
        else (s, th\<lparr>th_pc := PubTry ts target4 f\<rparr>)
      else (s, th\<lparr>th_pc := Fault\<rparr>))"
| "write_step (PubDrop target4) s th =
     (s\<lparr>flags := drop_word (flags s) target4\<rparr>, th\<lparr>th_pc := Ret 1\<rparr>)"
| "write_step (PubTry ts target4 f) s th =
     (if flags s = f
      then (s\<lparr>flags := publish_word f target4\<rparr>, th\<lparr>th_pc := WrLeave\<rparr>)
      else (s, th\<lparr>th_pc := PubCheck ts target4 (flags s)\<rparr>))"
| "write_step WrLeave s th = (hv_mark s th 0, th\<lparr>th_pc := Ret 0\<rparr>)"
| "write_step _ s th = (s, th)"

fun writing :: "hv_pc \<Rightarrow> bool" where
  "writing WrClock = True"
| "writing (WrEnter _) = True"
| "writing (WrLoad _) = True"
| "writing (WrTry _ _) = True"
| "writing (WrStamp _ _) = True"
| "writing (WrCopy _ _ _) = True"
| "writing (PubLoad _ _) = True"
| "writing (PubCheck _ _ _) = True"
| "writing (PubDrop _) = True"
| "writing (PubTry _ _ _) = True"
| "writing WrLeave = True"
| "writing _ = False"

definition hv_step :: "hv_sys \<Rightarrow> nat \<Rightarrow> hv_sys" where
  "hv_step s i =
     (if i < length (threads s)
      then let th = threads s ! i;
               (s', th') = (if writing (th_pc th) then write_step (th_pc th) s th
                            else read_step (th_pc th) s th)
           in s'\<lparr>threads := (threads s)[i := th']\<rparr>
      else s)"

section \<open>Runs\<close>

text \<open>
  The actions of the machine: a thread that is not in a call begins one, the clock moves
  on, a thread makes a step. A caller keeps its side of the contract: \<open>op_size\<close> is at most
  \<open>size\<close> and the buffer it passes has \<open>op_size\<close> bytes.
\<close>

datatype hv_action =
    BeginRead nat nat "u8 list"
  | BeginWrite nat nat "u8 list"
  | Tick timespec
  | Step nat

fun at_rest :: "hv_pc \<Rightarrow> bool" where
  "at_rest Idle = True"
| "at_rest (Ret _) = True"
| "at_rest _ = False"

definition time_le :: "timespec \<Rightarrow> timespec \<Rightarrow> bool" where
  "time_le a b \<longleftrightarrow> tv_sec a < tv_sec b \<or> tv_sec a = tv_sec b \<and> tv_nsec a \<le> tv_nsec b"

definition may_begin :: "hv_sys \<Rightarrow> nat \<Rightarrow> nat \<Rightarrow> u8 list \<Rightarrow> bool" where
  "may_begin s i op_size bytes \<longleftrightarrow>
     i < length (threads s) \<and> at_rest (th_pc (threads s ! i)) \<and>
     op_size \<le> var_size s \<and> op_size \<le> length bytes"

fun hv_act :: "hv_sys \<Rightarrow> hv_action \<Rightarrow> hv_sys" where
  "hv_act s (BeginRead i op_size buf) =
     (if may_begin s i op_size buf
      then s\<lparr>threads := (threads s)[i := (threads s ! i)
              \<lparr>th_pc := RdEnter, th_op := op_size, th_buf := buf\<rparr>]\<rparr>
      else s)"
| "hv_act s (BeginWrite i op_size bytes) =
     (if may_begin s i op_size bytes
      then s\<lparr>threads := (threads s)[i := (threads s ! i)
              \<lparr>th_pc := WrClock, th_op := op_size, th_data := bytes\<rparr>]\<rparr>
      else s)"
| "hv_act s (Tick now) = (if time_le (boot_clock s) now then s\<lparr>boot_clock := now\<rparr> else s)"
| "hv_act s (Step i) = hv_step s i"

text \<open>
  A variable of \<open>sz\<close> bytes per slot as \<open>link_host_variable\<close> leaves it, and threads in
  the given processes, none of them in a call.
\<close>

definition hv_init :: "bool \<Rightarrow> nat \<Rightarrow> nat list \<Rightarrow> hv_sys" where
  "hv_init no_debug sz procs =
     \<lparr>flags = initial_flags, timestamps = replicate SHM_BUFFER_CNT 0,
      data = replicate (SHM_BUFFER_CNT * sz) 0, var_size = sz,
      boot_clock = \<lparr>tv_sec = 0, tv_nsec = 0\<rparr>, ndebug = no_debug, should_wait = (\<lambda>_. 0),
      threads = map (\<lambda>p. \<lparr>th_proc = p, th_pc = Idle, th_op = 0, th_data = [], th_buf = []\<rparr>) procs\<rparr>"

abbreviation hv_run :: "hv_sys \<Rightarrow> hv_action list \<Rightarrow> hv_sys" where
  "hv_run \<equiv> run hv_act"

end
