(* ===== verification/Host_Variable_Inv.thy ===== *)
theory Host_Variable_Inv
  imports Host_Variable
begin

text \<open>
  The invariant of the host variable machine: the lock word counts the threads that hold
  each slot, and every thread knows what its slot holds. From it follow the exclusion of
  readers and writers, the absence of faults and the consistency of what a reader copies.
\<close>

section \<open>Who holds what\<close>

text \<open>The slot a thread reads (between acquire and release), and the slot it writes.\<close>

fun read_slot :: "hv_pc \<Rightarrow> nat option" where
  "read_slot (RdCopy t k) = Some t"
| "read_slot (RdLeave t) = Some t"
| "read_slot (RelLoad t) = Some t"
| "read_slot (RelTry t f) = Some t"
| "read_slot _ = None"

fun write_slot :: "hv_pc \<Rightarrow> nat option" where
  "write_slot (WrStamp ts t4) = Some (t4 div 4)"
| "write_slot (WrCopy ts t4 k) = Some (t4 div 4)"
| "write_slot (PubLoad ts t4) = Some (t4 div 4)"
| "write_slot (PubCheck ts t4 f) = Some (t4 div 4)"
| "write_slot (PubDrop t4) = Some (t4 div 4)"
| "write_slot (PubTry ts t4 f) = Some (t4 div 4)"
| "write_slot _ = None"

text \<open>How many threads hold slot \<open>t\<close>, where \<open>h\<close> says which slot a program point holds.\<close>

definition holders :: "(hv_pc \<Rightarrow> nat option) \<Rightarrow> hv_thread list \<Rightarrow> nat \<Rightarrow> nat" where
  "holders h ths t = count_if (\<lambda>th. h (th_pc th) = Some t) ths"

abbreviation readers :: "hv_sys \<Rightarrow> nat \<Rightarrow> nat" where
  "readers s \<equiv> holders read_slot (threads s)"

abbreviation writers :: "hv_sys \<Rightarrow> nat \<Rightarrow> nat" where
  "writers s \<equiv> holders write_slot (threads s)"

text \<open>The bytes of a slot.\<close>

definition slot :: "hv_sys \<Rightarrow> nat \<Rightarrow> u8 list" where
  "slot s t = take (var_size s) (drop (t * var_size s) (data s))"

text \<open>What a thread knows at its program point.\<close>

fun pc_ok :: "hv_sys \<Rightarrow> hv_thread \<Rightarrow> hv_pc \<Rightarrow> bool" where
  "pc_ok s th (RdCopy t k) \<longleftrightarrow>
     t < 4 \<and> k \<le> th_op th \<and> take k (th_buf th) = take k (slot s t)"
| "pc_ok s th (RdLeave t) \<longleftrightarrow> t < 4 \<and> take (th_op th) (th_buf th) = take (th_op th) (slot s t)"
| "pc_ok s th (RelLoad t) \<longleftrightarrow> t < 4 \<and> take (th_op th) (th_buf th) = take (th_op th) (slot s t)"
| "pc_ok s th (RelTry t f) \<longleftrightarrow> t < 4 \<and> take (th_op th) (th_buf th) = take (th_op th) (slot s t)"
| "pc_ok s th (WrStamp ts t4) \<longleftrightarrow> 4 dvd t4 \<and> t4 div 4 < 4"
| "pc_ok s th (WrCopy ts t4 k) \<longleftrightarrow>
     4 dvd t4 \<and> t4 div 4 < 4 \<and> timestamps s ! (t4 div 4) = ts \<and>
     k \<le> th_op th \<and> take k (slot s (t4 div 4)) = take k (th_data th)"
| "pc_ok s th (PubLoad ts t4) \<longleftrightarrow>
     4 dvd t4 \<and> t4 div 4 < 4 \<and> timestamps s ! (t4 div 4) = ts \<and>
     take (th_op th) (slot s (t4 div 4)) = take (th_op th) (th_data th)"
| "pc_ok s th (PubCheck ts t4 f) \<longleftrightarrow>
     4 dvd t4 \<and> t4 div 4 < 4 \<and> timestamps s ! (t4 div 4) = ts \<and> target_of f < 4 \<and>
     take (th_op th) (slot s (t4 div 4)) = take (th_op th) (th_data th)"
| "pc_ok s th (PubDrop t4) \<longleftrightarrow> 4 dvd t4 \<and> t4 div 4 < 4"
| "pc_ok s th (PubTry ts t4 f) \<longleftrightarrow>
     4 dvd t4 \<and> t4 div 4 < 4 \<and> timestamps s ! (t4 div 4) = ts \<and> target_of f < 4 \<and>
     take (th_op th) (slot s (t4 div 4)) = take (th_op th) (th_data th)"
| "pc_ok s th (Ret r) \<longleftrightarrow> r \<in> {-1, 0, 1}"
| "pc_ok s th Fault \<longleftrightarrow> False"
| "pc_ok s th _ \<longleftrightarrow> True"

text \<open>The arguments of a running call fit.\<close>

definition args_ok :: "hv_sys \<Rightarrow> hv_thread \<Rightarrow> bool" where
  "args_ok s th \<longleftrightarrow> at_rest (th_pc th) \<or>
     th_op th \<le> var_size s \<and>
     th_op th \<le> length (if writing (th_pc th) then th_data th else th_buf th)"

definition thread_ok :: "hv_sys \<Rightarrow> hv_thread \<Rightarrow> bool" where
  "thread_ok s th \<longleftrightarrow> pc_ok s th (th_pc th) \<and> args_ok s th"

definition shape_ok :: "hv_sys \<Rightarrow> bool" where
  "shape_ok s \<longleftrightarrow> length (data s) = 4 * var_size s \<and> length (timestamps s) = 4"

definition locks_ok :: "hv_sys \<Rightarrow> bool" where
  "locks_ok s \<longleftrightarrow> word_ok (cnt (flags s)) (target_of (flags s)) (readers s) (writers s)"

definition hv_inv :: "hv_sys \<Rightarrow> bool" where
  "hv_inv s \<longleftrightarrow> shape_ok s \<and> locks_ok s \<and> (\<forall>th \<in> set (threads s). thread_ok s th)"

section \<open>Counting holders\<close>

lemma holders_update:
  assumes "i < length ths"
  shows "holders h (ths[i := th']) =
    (case (h (th_pc (ths ! i)), h (th_pc th')) of
       (None, None) \<Rightarrow> holders h ths
     | (None, Some t) \<Rightarrow> (holders h ths)(t := holders h ths t + 1)
     | (Some t, None) \<Rightarrow> (holders h ths)(t := holders h ths t - 1)
     | (Some t, Some u) \<Rightarrow> if t = u then holders h ths else holders h (ths[i := th']))"
proof (rule ext)
  fix x
  show "holders h (ths[i := th']) x = (case (h (th_pc (ths ! i)), h (th_pc th')) of
       (None, None) \<Rightarrow> holders h ths
     | (None, Some t) \<Rightarrow> (holders h ths)(t := holders h ths t + 1)
     | (Some t, None) \<Rightarrow> (holders h ths)(t := holders h ths t - 1)
     | (Some t, Some u) \<Rightarrow> if t = u then holders h ths else holders h (ths[i := th'])) x"
    using count_if_update [OF assms, of "\<lambda>th. h (th_pc th) = Some x" th']
    by (auto simp: holders_def split: option.splits if_splits)
qed

lemma holders_pos: "i < length ths \<Longrightarrow> h (th_pc (ths ! i)) = Some t \<Longrightarrow> 0 < holders h ths t"
  unfolding holders_def by (rule count_if_pos)

lemma holders_two:
  "i < length ths \<Longrightarrow> j < length ths \<Longrightarrow> i \<noteq> j \<Longrightarrow>
   h (th_pc (ths ! i)) = Some t \<Longrightarrow> h (th_pc (ths ! j)) = Some t \<Longrightarrow> 2 \<le> holders h ths t"
  unfolding holders_def by (rule count_if_two)

text \<open>A writer is alone: no other thread reads or writes its slot.\<close>

lemma writer_alone:
  assumes "locks_ok s" "i < length (threads s)" "j < length (threads s)" "i \<noteq> j" "t < 4"
    "write_slot (th_pc (threads s ! i)) = Some t"
  shows "read_slot (th_pc (threads s ! j)) \<noteq> Some t" "write_slot (th_pc (threads s ! j)) \<noteq> Some t"
    "t \<noteq> target_of (flags s)"
proof -
  have w: "writers s t = 1 \<and> readers s t = 0 \<and> cnt (flags s) t = 15 \<and> t \<noteq> target_of (flags s)"
    using assms by (intro fw.writer_slot) (auto simp: locks_ok_def holders_pos)
  show "read_slot (th_pc (threads s ! j)) \<noteq> Some t"
    using w holders_pos [OF assms(3), of read_slot t] by fastforce
  show "write_slot (th_pc (threads s ! j)) \<noteq> Some t"
    using w holders_two [OF assms(2-4), of write_slot t] assms(6) by fastforce
  show "t \<noteq> target_of (flags s)" using w by simp
qed

section \<open>Slots and the bytes of the memory\<close>

lemma length_slot: "shape_ok s \<Longrightarrow> t < 4 \<Longrightarrow> length (slot s t) = var_size s"
proof -
  assume "shape_ok s" "t < 4"
  then have "t * var_size s + var_size s \<le> length (data s)"
    by (simp add: shape_ok_def)
  then show ?thesis by (simp add: slot_def)
qed

lemma slot_index:
  assumes "shape_ok s" "t < 4" "k < var_size s"
  shows "t * var_size s + k < length (data s)" "data s ! (t * var_size s + k) = slot s t ! k"
proof -
  have "k < length (slot s t)" using assms by (simp add: length_slot)
  then show "t * var_size s + k < length (data s)" "data s ! (t * var_size s + k) = slot s t ! k"
    by (auto simp: slot_def)
qed

text \<open>Two slots have no byte in common.\<close>

lemma slots_disjoint:
  fixes n :: nat
  assumes "k < n" "l < n" "t * n + k = u * n + l"
  shows "t = u \<and> k = l"
proof -
  have "t = (t * n + k) div n" using assms(1) by simp
  also have "\<dots> = (u * n + l) div n" using assms(3) by simp
  also have "\<dots> = u" using assms(2) by simp
  finally show ?thesis using assms(3) by simp
qed

lemma slot_write:
  assumes "shape_ok s" "t < 4" "u < 4" "k < var_size s"
  shows "slot (s\<lparr>data := (data s)[u * var_size s + k := x]\<rparr>) t =
         (if t = u then (slot s u)[k := x] else slot s t)"
proof (rule nth_equalityI)
  let ?s = "s\<lparr>data := (data s)[u * var_size s + k := x]\<rparr>"
  have sh: "shape_ok ?s" using assms(1) by (simp add: shape_ok_def)
  show "length (slot ?s t) = length (if t = u then (slot s u)[k := x] else slot s t)"
    using length_slot [OF sh assms(2)] assms by (simp add: length_slot)
  fix l assume "l < length (slot ?s t)"
  then have l: "l < var_size s" using length_slot [OF sh assms(2)] by simp
  have "slot ?s t ! l = data ?s ! (t * var_size s + l)"
    using slot_index(2) [OF sh assms(2)] l by simp
  also have "\<dots> = (if t = u \<and> l = k then x else slot s t ! l)"
  proof (cases "t = u \<and> l = k")
    case True
    then show ?thesis using slot_index(1) [OF assms(1,2) l] by simp
  next
    case False
    then have "t * var_size s + l \<noteq> u * var_size s + k"
      using slots_disjoint [OF l assms(4), of t u] by blast
    with False show ?thesis using slot_index(2) [OF assms(1,2) l] by auto
  qed
  also have "\<dots> = (if t = u then (slot s u)[k := x] else slot s t) ! l"
    using assms l by (auto simp: nth_list_update length_slot)
  finally show "slot ?s t ! l = (if t = u then (slot s u)[k := x] else slot s t) ! l" .
qed

lemma slot_cong: "data s' = data s \<Longrightarrow> var_size s' = var_size s \<Longrightarrow> slot s' t = slot s t"
  by (simp add: slot_def)

section \<open>Steps keep the invariant\<close>

text \<open>
  What a thread knows depends on the shared state through the slot it holds alone: a step
  of another thread that leaves this slot as it is leaves the knowledge as it is.
\<close>

lemma thread_ok_frame:
  assumes "thread_ok s th"
    and "\<And>t. read_slot (th_pc th) = Some t \<Longrightarrow> slot s' t = slot s t"
    and "\<And>t. write_slot (th_pc th) = Some t \<Longrightarrow>
           slot s' t = slot s t \<and> timestamps s' ! t = timestamps s ! t"
    and "var_size s' = var_size s"
  shows "thread_ok s' th"
  using assms by (cases "th_pc th") (simp_all add: thread_ok_def args_ok_def)

lemma hv_inv_thread: "hv_inv s \<Longrightarrow> i < length (threads s) \<Longrightarrow> thread_ok s (threads s ! i)"
  by (simp add: hv_inv_def)

text \<open>A step of thread \<open>i\<close> keeps the invariant when it does what these premises say.\<close>

lemma hv_inv_stepI:
  assumes "hv_inv s" "i < length (threads s)"
    and "shape_ok s'" "var_size s' = var_size s"
    and "word_ok (cnt (flags s')) (target_of (flags s'))
          (holders read_slot ((threads s)[i := th'])) (holders write_slot ((threads s)[i := th']))"
    and "thread_ok s' th'"
    and "\<And>j t. j < length (threads s) \<Longrightarrow> j \<noteq> i \<Longrightarrow>
          read_slot (th_pc (threads s ! j)) = Some t \<or> write_slot (th_pc (threads s ! j)) = Some t \<Longrightarrow>
          slot s' t = slot s t \<and> timestamps s' ! t = timestamps s ! t"
  shows "hv_inv (s'\<lparr>threads := (threads s)[i := th']\<rparr>)"
proof -
  let ?s = "s'\<lparr>threads := (threads s)[i := th']\<rparr>"
  have same: "thread_ok ?s th \<longleftrightarrow> thread_ok s' th" for th
    by (cases "th_pc th") (simp_all add: thread_ok_def args_ok_def slot_def)
  have "thread_ok ?s ((threads s)[i := th'] ! j)" if j: "j < length (threads s)" for j
  proof (cases "j = i")
    case True
    then show ?thesis using assms(2,6) same by simp
  next
    case False
    have "thread_ok s' (threads s ! j)"
      by (rule thread_ok_frame [OF hv_inv_thread [OF assms(1) j]])
        (use assms(4) assms(7) [OF j False] in blast)+
    with False show ?thesis using same by simp
  qed
  then have "\<forall>th \<in> set ((threads s)[i := th']). thread_ok ?s th"
    by (auto simp: in_set_conv_nth)
  with assms(3,5) show ?thesis
    by (auto simp: hv_inv_def shape_ok_def locks_ok_def)
qed

text \<open>Steps that touch neither the memory nor the lock word.\<close>

lemma hv_inv_local:
  assumes "hv_inv s" "i < length (threads s)"
    and "flags s' = flags s" "data s' = data s" "timestamps s' = timestamps s" "var_size s' = var_size s"
    and "read_slot (th_pc th') = read_slot (th_pc (threads s ! i))"
    and "write_slot (th_pc th') = write_slot (th_pc (threads s ! i))"
    and "thread_ok s th'"
  shows "hv_inv (s'\<lparr>threads := (threads s)[i := th']\<rparr>)"
proof (rule hv_inv_stepI [OF assms(1,2)])
  show "shape_ok s'" using assms by (simp add: hv_inv_def shape_ok_def)
  show "thread_ok s' th'" using assms
    by (intro thread_ok_frame [OF assms(9)]) (auto simp: slot_def)
  show "word_ok (cnt (flags s')) (target_of (flags s'))
          (holders read_slot ((threads s)[i := th'])) (holders write_slot ((threads s)[i := th']))"
    using assms by (simp add: holders_update hv_inv_def locks_ok_def split: option.split)
qed (use assms in \<open>auto simp: slot_def\<close>)

text \<open>Steps that change the lock word only.\<close>

lemma hv_inv_lock:
  assumes "hv_inv s" "i < length (threads s)"
    and "word_ok (cnt f) (target_of f)
          (holders read_slot ((threads s)[i := th'])) (holders write_slot ((threads s)[i := th']))"
    and "thread_ok s th'"
  shows "hv_inv (s\<lparr>flags := f, threads := (threads s)[i := th']\<rparr>)"
proof (rule hv_inv_stepI [OF assms(1,2), of "s\<lparr>flags := f\<rparr>", simplified])
  show "shape_ok (s\<lparr>flags := f\<rparr>)" using assms(1) by (simp add: hv_inv_def shape_ok_def)
  show "thread_ok (s\<lparr>flags := f\<rparr>) th'"
    by (intro thread_ok_frame [OF assms(4)]) (auto simp: slot_def)
qed (use assms in \<open>auto simp: slot_def\<close>)

lemma hv_mark_simps [simp]:
  "flags (hv_mark s th v) = flags s" "data (hv_mark s th v) = data s"
  "timestamps (hv_mark s th v) = timestamps s" "var_size (hv_mark s th v) = var_size s"
  "threads (hv_mark s th v) = threads s" "boot_clock (hv_mark s th v) = boot_clock s"
  "ndebug (hv_mark s th v) = ndebug s"
  by (simp_all add: hv_mark_def)

lemma hv_inv_locks: "hv_inv s \<Longrightarrow> locks_ok s"
  by (simp add: hv_inv_def)

lemma hv_inv_shape: "hv_inv s \<Longrightarrow> shape_ok s"
  by (simp add: hv_inv_def)

text \<open>A reader takes its lock: the count of the target grows by one.\<close>

lemma acquire_inv:
  assumes "hv_inv s" "i < length (threads s)" "th_pc (threads s ! i) = AcqTry (flags s)"
    "acquire_tmp (flags s) \<noteq> 0xF"
  shows "hv_inv (s\<lparr>flags := acquire_word (flags s),
    threads := (threads s)[i := (threads s ! i)\<lparr>th_pc := RdCopy (target_of (flags s)) 0\<rparr>]\<rparr>)"
proof (rule hv_inv_lock [OF assms(1,2)])
  let ?f = "flags s" and ?th = "(threads s ! i)\<lparr>th_pc := RdCopy (target_of (flags s)) 0\<rparr>"
  have locks: "word_ok (cnt ?f) (target_of ?f) (readers s) (writers s)"
    using hv_inv_locks [OF assms(1)] by (simp add: locks_ok_def)
  have "word_ok (cnt (acquire_word ?f)) (target_of (acquire_word ?f))
          ((readers s)(target_of ?f := readers s (target_of ?f) + 1)) (writers s)"
    using assms(4) by (intro fw.acquire_ok [OF locks]) (simp add: acquire_tmp_full)
  then show "word_ok (cnt (acquire_word ?f)) (target_of (acquire_word ?f))
     (holders read_slot ((threads s)[i := ?th])) (holders write_slot ((threads s)[i := ?th]))"
    using assms by (simp add: holders_update)
  show "thread_ok s ?th"
    using hv_inv_thread [OF assms(1,2)] assms(3) word_okD(1) [OF locks]
    by (simp add: thread_ok_def args_ok_def)
qed

text \<open>A reader gives its lock back: the count of its slot, not of the target, shrinks.\<close>

lemma release_inv:
  assumes "hv_inv s" "i < length (threads s)" "th_pc (threads s ! i) = RelTry t (flags s)"
  shows "hv_inv (s\<lparr>flags := release_word (flags s) t,
    threads := (threads s)[i := (threads s ! i)\<lparr>th_pc := Ret 0\<rparr>]\<rparr>)"
proof (rule hv_inv_lock [OF assms(1,2)])
  let ?f = "flags s" and ?th = "(threads s ! i)\<lparr>th_pc := Ret 0\<rparr>"
  have locks: "word_ok (cnt ?f) (target_of ?f) (readers s) (writers s)"
    using hv_inv_locks [OF assms(1)] by (simp add: locks_ok_def)
  have t: "t < 4" "0 < readers s t"
    using hv_inv_thread [OF assms(1,2)] assms(2,3) holders_pos [of i "threads s" read_slot t]
    by (auto simp: thread_ok_def)
  have "word_ok (cnt (release_word ?f t)) (target_of (release_word ?f t))
          ((readers s)(t := readers s t - 1)) (writers s)"
    by (rule fw.release_ok [OF locks t])
  then show "word_ok (cnt (release_word ?f t)) (target_of (release_word ?f t))
     (holders read_slot ((threads s)[i := ?th])) (holders write_slot ((threads s)[i := ?th]))"
    using assms by (simp add: holders_update)
qed (simp add: thread_ok_def args_ok_def)

lemma copy_out_ok:
  assumes "hv_inv s" "i < length (threads s)" "th_pc (threads s ! i) = RdCopy t k"
    "k < th_op (threads s ! i)"
  shows "t * var_size s + k < length (data s)" "k < length (th_buf (threads s ! i))"
    "data s ! (t * var_size s + k) = slot s t ! k" "k < length (slot s t)"
proof -
  have *: "t < 4" "k < var_size s" "k < length (th_buf (threads s ! i))"
    using hv_inv_thread [OF assms(1,2)] assms(3,4) by (auto simp: thread_ok_def args_ok_def)
  then show "t * var_size s + k < length (data s)" "k < length (th_buf (threads s ! i))"
    "data s ! (t * var_size s + k) = slot s t ! k" "k < length (slot s t)"
    using slot_index [OF hv_inv_shape [OF assms(1)] *(1,2)]
    by (simp_all add: length_slot [OF hv_inv_shape [OF assms(1)]])
qed

lemma read_step_inv:
  assumes inv: "hv_inv s" "i < length (threads s)"
    and step: "read_step (th_pc (threads s ! i)) s (threads s ! i) = (s', th')"
  shows "hv_inv (s'\<lparr>threads := (threads s)[i := th']\<rparr>)"
proof -
  let ?th = "threads s ! i"
  note ok = hv_inv_thread [OF inv, unfolded thread_ok_def]
  note local = hv_inv_local [OF inv]
  show ?thesis
  proof (cases "th_pc ?th")
    case (AcqTry f)
    show ?thesis
    proof (cases "acquire_tmp f \<noteq> 0xF \<and> flags s = f")
      case True
      with AcqTry step acquire_inv [OF inv] show ?thesis by auto
    next
      case False
      with AcqTry step ok show ?thesis
        by (intro local) (auto simp: thread_ok_def args_ok_def split: if_splits)
    qed
  next
    case (RdCopy t k)
    show ?thesis
    proof (cases "k < th_op ?th")
      case True
      note c = copy_out_ok [OF inv RdCopy True]
      have "take (Suc k) ((th_buf ?th)[k := slot s t ! k]) = take (Suc k) (slot s t)"
        using ok RdCopy c by (intro take_Suc_eqI) auto
      with True c RdCopy step ok show ?thesis
        by (intro local) (auto simp: thread_ok_def args_ok_def)
    next
      case False
      with RdCopy step ok show ?thesis
        by (intro local) (auto simp: thread_ok_def args_ok_def)
    qed
  next
    case (RelTry t f)
    show ?thesis
    proof (cases "flags s = f")
      case True
      with RelTry step release_inv [OF inv] show ?thesis by auto
    next
      case False
      with RelTry step ok show ?thesis
        by (intro local) (auto simp: thread_ok_def args_ok_def)
    qed
  qed (rule local; use step ok in \<open>auto simp: thread_ok_def args_ok_def\<close>)+
qed

text \<open>A writer takes a free slot, which then is neither the target nor held by anyone.\<close>

lemma take_inv:
  assumes "hv_inv s" "i < length (threads s)" "th_pc (threads s ! i) = WrTry ts (flags s)"
    "free_mask (flags s) \<noteq> 0" "t4 = ctzll (free_mask (flags s))"
  shows "hv_inv (s\<lparr>flags := write_lock_word (flags s) t4,
    threads := (threads s)[i := (threads s ! i)\<lparr>th_pc := WrStamp ts t4\<rparr>]\<rparr>)"
proof (rule hv_inv_lock [OF assms(1,2)])
  let ?f = "flags s" and ?th = "(threads s ! i)\<lparr>th_pc := WrStamp ts t4\<rparr>"
  have locks: "word_ok (cnt ?f) (target_of ?f) (readers s) (writers s)"
    using hv_inv_locks [OF assms(1)] by (simp add: locks_ok_def)
  obtain t where t: "t4 = 4 * t" "t < 15" "cnt ?f t = 0" "t \<noteq> target_of ?f"
    using ctzll_free_mask [OF assms(4)] assms(5) by metis
  note take = fw.take_ok [OF locks t(2-4)]
  then show "word_ok (cnt (write_lock_word ?f t4)) (target_of (write_lock_word ?f t4))
     (holders read_slot ((threads s)[i := ?th])) (holders write_slot ((threads s)[i := ?th]))"
    using assms(2,3) t(1) by (simp add: holders_update)
  show "thread_ok s ?th"
    using hv_inv_thread [OF assms(1,2)] assms(3) t take
    by (simp add: thread_ok_def args_ok_def)
qed

text \<open>A writer gives up its slot, as the new target or unpublished.\<close>

lemma give_up_inv:
  assumes "hv_inv s" "i < length (threads s)" "write_slot (th_pc (threads s ! i)) = Some (t4 div 4)"
    "pc' = WrLeave \<and> f' = publish_word (flags s) t4 \<or> pc' = Ret 1 \<and> f' = drop_word (flags s) t4"
    "4 dvd t4" "t4 div 4 < 4" "read_slot (th_pc (threads s ! i)) = None"
  shows "hv_inv (s\<lparr>flags := f',
    threads := (threads s)[i := (threads s ! i)\<lparr>th_pc := pc'\<rparr>]\<rparr>)"
proof (rule hv_inv_lock [OF assms(1,2)])
  let ?f = "flags s" and ?th = "(threads s ! i)\<lparr>th_pc := pc'\<rparr>"
  have locks: "word_ok (cnt ?f) (target_of ?f) (readers s) (writers s)"
    using hv_inv_locks [OF assms(1)] by (simp add: locks_ok_def)
  obtain t where t: "t4 = 4 * t" "t < 4"
    using assms(5,6) by auto
  have w: "0 < writers s t"
    using holders_pos [OF assms(2), of write_slot t] assms(3) t by simp
  have "word_ok (cnt f') (target_of f') (readers s) ((writers s)(t := 0))"
    using assms(4) fw.publish_ok [OF locks t(2) w] fw.give_back_ok [OF locks t(2) w] t by auto
  moreover have "writers s t = 1"
    using fw.writer_slot [OF locks t(2) w] by simp
  ultimately show "word_ok (cnt f') (target_of f')
     (holders read_slot ((threads s)[i := ?th])) (holders write_slot ((threads s)[i := ?th]))"
    using assms t by (auto simp: holders_update)
  show "thread_ok s ?th"
    using hv_inv_thread [OF assms(1,2)] assms(4)
    by (cases "th_pc (threads s ! i)") (use assms(3) in \<open>auto simp: thread_ok_def args_ok_def\<close>)
qed

text \<open>A writer stores into its slot, which no other thread holds.\<close>

lemma hv_inv_store:
  assumes "hv_inv s" "i < length (threads s)" "write_slot (th_pc (threads s ! i)) = Some t" "t < 4"
    and "flags s' = flags s" "var_size s' = var_size s" "shape_ok s'"
    and "\<And>u. u < 4 \<Longrightarrow> u \<noteq> t \<Longrightarrow> slot s' u = slot s u \<and> timestamps s' ! u = timestamps s ! u"
    and "write_slot (th_pc th') = Some t" "read_slot (th_pc th') = read_slot (th_pc (threads s ! i))"
    and "thread_ok s' th'"
  shows "hv_inv (s'\<lparr>threads := (threads s)[i := th']\<rparr>)"
proof (rule hv_inv_stepI [OF assms(1,2,7,6) _ assms(11)])
  show "word_ok (cnt (flags s')) (target_of (flags s'))
          (holders read_slot ((threads s)[i := th'])) (holders write_slot ((threads s)[i := th']))"
    using assms by (simp add: holders_update hv_inv_def locks_ok_def split: option.split)
  fix j u
  assume j: "j < length (threads s)" "j \<noteq> i"
    and u: "read_slot (th_pc (threads s ! j)) = Some u \<or> write_slot (th_pc (threads s ! j)) = Some u"
  have "u < 4"
    using hv_inv_thread [OF assms(1) j(1)] u
    by (cases "th_pc (threads s ! j)") (auto simp: thread_ok_def)
  moreover have "u \<noteq> t"
    using writer_alone [OF hv_inv_locks [OF assms(1)] assms(2) j(1) j(2) [symmetric] assms(4,3)] u
    by auto
  ultimately show "slot s' u = slot s u \<and> timestamps s' ! u = timestamps s ! u"
    by (rule assms(8))
qed

lemma copy_in_ok:
  assumes "hv_inv s" "i < length (threads s)" "th_pc (threads s ! i) = WrCopy ts t4 k"
    "k < th_op (threads s ! i)"
  shows "t4 div 4 * var_size s + k < length (data s)" "k < length (th_data (threads s ! i))"
    "k < var_size s" "t4 div 4 < 4"
proof -
  show *: "k < var_size s" "t4 div 4 < 4" "k < length (th_data (threads s ! i))"
    using hv_inv_thread [OF assms(1,2)] assms(3,4) by (auto simp: thread_ok_def args_ok_def)
  show "t4 div 4 * var_size s + k < length (data s)"
    using slot_index(1) [OF hv_inv_shape [OF assms(1)] *(2,1)] .
qed

lemma stamp_inv:
  assumes inv: "hv_inv s" "i < length (threads s)"
    and pc: "th_pc (threads s ! i) = WrStamp ts t4"
  shows "hv_inv (s\<lparr>timestamps := (timestamps s)[t4 div 4 := ts],
    threads := (threads s)[i := (threads s ! i)\<lparr>th_pc := WrCopy ts t4 0\<rparr>]\<rparr>)"
proof -
  have "4 dvd t4" "t4 div 4 < 4" "args_ok s (threads s ! i)"
    using hv_inv_thread [OF inv] pc by (auto simp: thread_ok_def)
  then show ?thesis
    using hv_inv_shape [OF inv(1)] pc
    by (intro hv_inv_store [OF inv, of "t4 div 4" "s\<lparr>timestamps := (timestamps s)[t4 div 4 := ts]\<rparr>", simplified])
      (auto simp: shape_ok_def slot_def thread_ok_def args_ok_def)
qed

lemma copy_in_inv:
  assumes inv: "hv_inv s" "i < length (threads s)"
    and pc: "th_pc (threads s ! i) = WrCopy ts t4 k" "k < th_op (threads s ! i)"
  shows "hv_inv (s\<lparr>data := (data s)[t4 div 4 * var_size s + k := th_data (threads s ! i) ! k],
    threads := (threads s)[i := (threads s ! i)\<lparr>th_pc := WrCopy ts t4 (k + 1)\<rparr>]\<rparr>)"
proof -
  let ?th = "threads s ! i"
  let ?s = "s\<lparr>data := (data s)[t4 div 4 * var_size s + k := th_data ?th ! k]\<rparr>"
  let ?t = "t4 div 4"
  note c = copy_in_ok [OF inv pc]
  note shape = hv_inv_shape [OF inv(1)]
  have th: "4 dvd t4" "timestamps s ! ?t = ts" "take k (slot s ?t) = take k (th_data ?th)" "args_ok s ?th"
    using hv_inv_thread [OF inv] pc by (auto simp: thread_ok_def)
  have slots: "slot ?s u = (if u = ?t then (slot s ?t)[k := th_data ?th ! k] else slot s u)" if "u < 4" for u
    using slot_write [OF shape that c(4,3)] by auto
  have "take (Suc k) (slot ?s ?t) = take (Suc k) (th_data ?th)"
    using slots [OF c(4)] th c length_slot [OF shape c(4)] by (intro take_Suc_eqI) auto
  then show ?thesis
    using shape pc c th slots
    by (intro hv_inv_store [OF inv, of ?t ?s, simplified])
      (auto simp: shape_ok_def thread_ok_def args_ok_def)
qed

text \<open>A write up to the end of its copy, its publication, and all of it.\<close>

lemma write_copy_inv:
  assumes inv: "hv_inv s" "i < length (threads s)"
    and step: "write_step (th_pc (threads s ! i)) s (threads s ! i) = (s', th')"
    and pc: "th_pc (threads s ! i) \<in> {WrTry ts f, WrStamp ts tf, WrCopy ts tf k}"
  shows "hv_inv (s'\<lparr>threads := (threads s)[i := th']\<rparr>)"
proof -
  let ?th = "threads s ! i"
  note ok = hv_inv_thread [OF inv, unfolded thread_ok_def]
  note local = hv_inv_local [OF inv]
  from pc consider (take) "th_pc ?th = WrTry ts f" | (stamp) "th_pc ?th = WrStamp ts tf" | (copy) "th_pc ?th = WrCopy ts tf k"
    by blast
  then show ?thesis
  proof cases
    case take
    show ?thesis
    proof (cases "free_mask f \<noteq> 0 \<and> flags s = f")
      case True
      with take step take_inv [OF inv] show ?thesis by (auto simp: Let_def)
    next
      case False
      with take step ok show ?thesis
        by (intro local) (auto simp: thread_ok_def args_ok_def Let_def split: if_splits)
    qed
  next
    case stamp
    have "length (timestamps s) = 4"
      using hv_inv_shape [OF inv(1)] by (simp add: shape_ok_def)
    with stamp step ok stamp_inv [OF inv stamp] show ?thesis by auto
  next
    case copy
    show ?thesis
    proof (cases "k < th_op ?th")
      case True
      with copy step copy_in_ok [OF inv copy] copy_in_inv [OF inv copy] show ?thesis by auto
    next
      case False
      with copy step ok show ?thesis
        by (intro local) (auto simp: thread_ok_def args_ok_def)
    qed
  qed
qed

lemma write_publish_inv:
  assumes inv: "hv_inv s" "i < length (threads s)"
    and step: "write_step (th_pc (threads s ! i)) s (threads s ! i) = (s', th')"
    and pc: "th_pc (threads s ! i) \<in> {PubLoad ts tf, PubCheck ts tf f, PubTry ts tf f}"
  shows "hv_inv (s'\<lparr>threads := (threads s)[i := th']\<rparr>)"
proof -
  let ?th = "threads s ! i"
  note ok = hv_inv_thread [OF inv, unfolded thread_ok_def]
  note local = hv_inv_local [OF inv]
  have shape: "length (timestamps s) = 4"
    using hv_inv_shape [OF inv(1)] by (simp add: shape_ok_def)
  have target: "target_of (flags s) < 4"
    using hv_inv_locks [OF inv(1)] word_okD(1) by (fastforce simp: locks_ok_def)
  show ?thesis
  proof (cases "th_pc ?th = PubTry ts tf f \<and> flags s = f")
    case True
    with step ok give_up_inv [OF inv, of tf WrLeave "publish_word (flags s) tf"] show ?thesis by auto
  next
    case False
    with pc step ok shape target show ?thesis
      by (intro local) (auto simp: thread_ok_def args_ok_def split: if_splits)
  qed
qed

lemma write_step_inv:
  assumes inv: "hv_inv s" "i < length (threads s)"
    and step: "write_step (th_pc (threads s ! i)) s (threads s ! i) = (s', th')"
  shows "hv_inv (s'\<lparr>threads := (threads s)[i := th']\<rparr>)"
proof -
  note ok = hv_inv_thread [OF inv, unfolded thread_ok_def]
  note copy = write_copy_inv [OF inv step] and publish = write_publish_inv [OF inv step]
  show ?thesis
  proof (cases "th_pc (threads s ! i)")
    case (PubDrop t4)
    with step ok give_up_inv [OF inv, of t4 "Ret 1" "drop_word (flags s) t4"] show ?thesis by auto
  next
    case (WrTry ts f)
    then show ?thesis using copy [where ts = ts and f = f] by simp
  next
    case (WrStamp ts t4)
    then show ?thesis using copy [where ts = ts and tf = t4] by simp
  next
    case (WrCopy ts t4 k)
    then show ?thesis using copy [where ts = ts and tf = t4 and k = k] by simp
  next
    case (PubLoad ts t4)
    then show ?thesis using publish [where ts = ts and tf = t4] by simp
  next
    case (PubCheck ts t4 f)
    then show ?thesis using publish [where ts = ts and tf = t4 and f = f] by simp
  next
    case (PubTry ts t4 f)
    then show ?thesis using publish [where ts = ts and tf = t4 and f = f] by simp
  qed (rule hv_inv_local [OF inv]; use step ok in \<open>auto simp: thread_ok_def args_ok_def\<close>)+
qed

lemma hv_step_inv: "hv_inv s \<Longrightarrow> hv_inv (hv_step s i)"
  using read_step_inv [of s i] write_step_inv [of s i]
  by (auto simp: hv_step_def Let_def split: prod.splits)

section \<open>The machine and its interface\<close>

lemma begin_inv:
  assumes "hv_inv s" "may_begin s i n bytes"
  shows "hv_inv (s\<lparr>threads := (threads s)[i := (threads s ! i)\<lparr>th_pc := RdEnter, th_op := n, th_buf := bytes\<rparr>]\<rparr>)"
    "hv_inv (s\<lparr>threads := (threads s)[i := (threads s ! i)\<lparr>th_pc := WrClock, th_op := n, th_data := bytes\<rparr>]\<rparr>)"
proof -
  have i: "i < length (threads s)" "at_rest (th_pc (threads s ! i))" "n \<le> var_size s" "n \<le> length bytes"
    using assms(2) by (auto simp: may_begin_def)
  then show "hv_inv (s\<lparr>threads := (threads s)[i := (threads s ! i)\<lparr>th_pc := RdEnter, th_op := n, th_buf := bytes\<rparr>]\<rparr>)"
    "hv_inv (s\<lparr>threads := (threads s)[i := (threads s ! i)\<lparr>th_pc := WrClock, th_op := n, th_data := bytes\<rparr>]\<rparr>)"
    by (intro hv_inv_local [OF assms(1) i(1), of s];
        cases "th_pc (threads s ! i)"; simp add: thread_ok_def args_ok_def)+
qed

lemma hv_act_inv: "hv_inv s \<Longrightarrow> hv_inv (hv_act s a)"
proof (cases a)
  case (Tick now)
  assume "hv_inv s"
  moreover have "thread_ok (s\<lparr>boot_clock := now\<rparr>) th \<longleftrightarrow> thread_ok s th" for th
    by (cases "th_pc th") (simp_all add: thread_ok_def args_ok_def slot_def)
  ultimately show ?thesis
    using Tick by (auto simp: hv_inv_def shape_ok_def locks_ok_def)
qed (auto simp: begin_inv hv_step_inv)

lemma hv_init_inv: "hv_inv (hv_init no_debug sz procs)"
proof -
  have none: "holders h (map (\<lambda>p. \<lparr>th_proc = p, th_pc = Idle, th_op = 0, th_data = [], th_buf = []\<rparr>) procs) = (\<lambda>_. 0)"
    if "h Idle = None" for h
    using that by (auto simp: holders_def count_if_zero_iff)
  have "word_ok (cnt initial_flags) (target_of initial_flags) (\<lambda>_. 0) (\<lambda>_. 0)"
    by (auto simp: word_ok_def slot_ok_def cnt_initial target_initial SHM_BUFFER_CNT_def)
  then show ?thesis
    by (auto simp: hv_inv_def shape_ok_def locks_ok_def hv_init_def none thread_ok_def args_ok_def
        SHM_BUFFER_CNT_def)
qed

definition hv_start :: "hv_sys \<Rightarrow> bool" where
  "hv_start s \<longleftrightarrow> (\<exists>no_debug sz procs. s = hv_init no_debug sz procs)"

interpretation hv: machine hv_act hv_start hv_inv
  by unfold_locales (auto simp: hv_start_def hv_init_inv hv_act_inv)

end
