(* ===== verification/Host_Variable_Spec.thy ===== *)
theory Host_Variable_Spec
  imports Host_Variable_Inv
begin

text \<open>
  What a host variable promises: an atomic register. Its abstract state is the latest
  value and, for every thread that is reading, the snapshot it took. The machine
  implements it: a read takes its snapshot at the compare-and-exchange of
  \<open>__acquire_read_lock\<close>, a write takes effect at the compare-and-exchange that publishes
  its slot, and no other step changes the register.
\<close>

section \<open>The register\<close>

record register =
  reg_val :: "u8 list"
  reg_snap :: "nat \<Rightarrow> u8 list option"

datatype reg_event =
    EvNone
  | EvAcquire nat
  | EvRelease nat
  | EvPublish nat "u8 list"

fun reg_step :: "register \<Rightarrow> reg_event \<Rightarrow> register" where
  "reg_step r EvNone = r"
| "reg_step r (EvAcquire i) = r\<lparr>reg_snap := (reg_snap r)(i := Some (reg_val r))\<rparr>"
| "reg_step r (EvRelease i) = r\<lparr>reg_snap := (reg_snap r)(i := None)\<rparr>"
| "reg_step r (EvPublish i v) = r\<lparr>reg_val := v\<rparr>"

text \<open>The register a state of the machine stands for.\<close>

definition snap_of :: "hv_sys \<Rightarrow> nat \<Rightarrow> u8 list option" where
  "snap_of s i =
     (if i < length (threads s) then map_option (slot s) (read_slot (th_pc (threads s ! i))) else None)"

definition reg_of :: "hv_sys \<Rightarrow> register" where
  "reg_of s = \<lparr>reg_val = slot s (target_of (flags s)), reg_snap = snap_of s\<rparr>"

text \<open>
  The event of an action. A publication makes the first \<open>op_size\<close> bytes of the source
  visible, followed by the bytes the slot held before.
\<close>

definition new_value :: "hv_sys \<Rightarrow> hv_thread \<Rightarrow> nat \<Rightarrow> u8 list" where
  "new_value s th t = take (th_op th) (th_data th) @ drop (th_op th) (slot s t)"

fun pc_event :: "hv_sys \<Rightarrow> nat \<Rightarrow> hv_thread \<Rightarrow> hv_pc \<Rightarrow> reg_event" where
  "pc_event s i th (AcqTry f) =
     (if acquire_tmp f \<noteq> 0xF \<and> flags s = f then EvAcquire i else EvNone)"
| "pc_event s i th (RelTry t f) = (if flags s = f then EvRelease i else EvNone)"
| "pc_event s i th (PubTry ts t4 f) =
     (if flags s = f then EvPublish i (new_value s th (t4 div 4)) else EvNone)"
| "pc_event s i th _ = EvNone"

fun hv_event :: "hv_sys \<Rightarrow> hv_action \<Rightarrow> reg_event" where
  "hv_event s (Step i) =
     (if i < length (threads s) then pc_event s i (threads s ! i) (th_pc (threads s ! i)) else EvNone)"
| "hv_event s _ = EvNone"

section \<open>The machine implements the register\<close>

lemmas hv_step_unfold = hv_step_def Let_def

lemma reg_eqI: "reg_val r = reg_val r' \<Longrightarrow> reg_snap r = reg_snap r' \<Longrightarrow> r = (r' :: register)"
  by simp

text \<open>What a step of one thread does to the slots other threads hold, and to the target.\<close>

lemma step_other_slot:
  assumes inv: "hv_inv s" and i: "i < length (threads s)"
    and u: "u < 4" "write_slot (th_pc (threads s ! i)) \<noteq> Some u"
  shows "slot (hv_step s i) u = slot s u" "timestamps (hv_step s i) ! u = timestamps s ! u"
proof -
  let ?th = "threads s ! i"
  have "slot (hv_step s i) u = slot s u \<and> timestamps (hv_step s i) ! u = timestamps s ! u"
  proof (cases "th_pc ?th")
    case (WrCopy ts t4 k)
    show ?thesis
    proof (cases "k < th_op ?th")
      case True
      note c = copy_in_ok [OF inv i WrCopy True]
      then have "slot (hv_step s i) u =
          slot (s\<lparr>data := (data s)[t4 div 4 * var_size s + k := th_data ?th ! k]\<rparr>) u"
        using i WrCopy True by (simp add: hv_step_unfold slot_def)
      also have "\<dots> = slot s u"
        using slot_write [OF hv_inv_shape [OF inv] u(1) c(4,3)] u(2) WrCopy by auto
      finally show ?thesis using i WrCopy True c by (simp add: hv_step_unfold)
    qed (use i WrCopy in \<open>simp add: hv_step_unfold slot_def\<close>)
  qed (use i u in \<open>auto simp: hv_step_unfold slot_def split: if_splits\<close>)
  then show "slot (hv_step s i) u = slot s u" "timestamps (hv_step s i) ! u = timestamps s ! u"
    by simp_all
qed

lemma target_not_written:
  assumes "hv_inv s" "i < length (threads s)"
  shows "target_of (flags s) < 4" "write_slot (th_pc (threads s ! i)) \<noteq> Some (target_of (flags s))"
proof -
  have w: "word_ok (cnt (flags s)) (target_of (flags s)) (readers s) (writers s)"
    using hv_inv_locks [OF assms(1)] by (simp add: locks_ok_def)
  show "target_of (flags s) < 4" by (rule word_okD(1) [OF w])
  show "write_slot (th_pc (threads s ! i)) \<noteq> Some (target_of (flags s))"
    using word_okD(2) [OF w] holders_pos [OF assms(2), of write_slot] by fastforce
qed

lemma hv_step_threads:
  "j \<noteq> i \<Longrightarrow> threads (hv_step s i) ! j = threads s ! j"
  "length (threads (hv_step s i)) = length (threads s)"
  "var_size (hv_step s i) = var_size s"
proof -
  have "j \<noteq> i \<Longrightarrow> threads (hv_step s i) ! j = threads s ! j" and
    "length (threads (hv_step s i)) = length (threads s)"
    by (auto simp: hv_step_unfold split: prod.splits)
  moreover have "var_size (fst (read_step p s th)) = var_size s"
    "var_size (fst (write_step p s th)) = var_size s" for p th
    by (cases p; simp add: Let_def)+
  ultimately show "j \<noteq> i \<Longrightarrow> threads (hv_step s i) ! j = threads s ! j"
    "length (threads (hv_step s i)) = length (threads s)"
    "var_size (hv_step s i) = var_size s"
    by (auto simp: hv_step_unfold split: prod.splits) (metis fst_conv)+
qed

text \<open>The target changes at a publication only.\<close>

lemma step_target:
  assumes inv: "hv_inv s" and i: "i < length (threads s)"
  shows "target_of (flags (hv_step s i)) =
    (case th_pc (threads s ! i) of
       PubTry ts t4 f \<Rightarrow> if flags s = f then t4 div 4 else target_of (flags s)
     | _ \<Rightarrow> target_of (flags s))"
proof -
  let ?th = "threads s ! i" and ?f = "flags s"
  have w: "word_ok (cnt ?f) (target_of ?f) (readers s) (writers s)"
    using hv_inv_locks [OF inv] by (simp add: locks_ok_def)
  note ok = hv_inv_thread [OF inv i, unfolded thread_ok_def]
  show ?thesis
  proof (cases "th_pc ?th")
    case (AcqTry f)
    have "target_of (acquire_word ?f) = target_of ?f"
      using word_okD(1,3,4) [OF w] by (intro fw.target_acquire) auto
    then show ?thesis using AcqTry i by (auto simp: hv_step_unfold)
  next
    case (RelTry t f)
    then have "t < 4" "0 < readers s t"
      using ok holders_pos [OF i, of read_slot t] by auto
    then have "target_of (release_word ?f t) = target_of ?f"
      using fw.reader_slot [OF w] by (intro fw.target_release) auto
    then show ?thesis using RelTry i by (auto simp: hv_step_unfold)
  next
    case (WrTry ts f)
    have "target_of (write_lock_word ?f (ctzll (free_mask ?f))) = target_of ?f" if "free_mask ?f \<noteq> 0"
      using ctzll_free_mask [OF that] by (metis fw.target_take)
    then show ?thesis using WrTry i by (auto simp: hv_step_unfold)
  next
    case (PubDrop t4)
    then obtain t where "t4 = 4 * t" "t < 15" using ok by auto
    then show ?thesis using PubDrop i by (simp add: hv_step_unfold fw.target_give_back)
  next
    case (PubTry ts t4 f)
    then obtain t where "t4 = 4 * t" "t < 15" using ok by auto
    then show ?thesis using PubTry i by (simp add: hv_step_unfold fw.target_publish)
  qed (use i in \<open>auto simp: hv_step_unfold\<close>)
qed

lemma step_reg_val:
  assumes inv: "hv_inv s" and i: "i < length (threads s)"
  shows "reg_val (reg_of (hv_step s i)) = reg_val (reg_step (reg_of s) (hv_event s (Step i)))"
proof -
  note t = target_not_written [OF inv i]
  note same = step_other_slot(1) [OF inv i t]
  show ?thesis
  proof (cases "\<exists>ts t4. th_pc (threads s ! i) = PubTry ts t4 (flags s)")
    case True
    then obtain ts t4 where pc: "th_pc (threads s ! i) = PubTry ts t4 (flags s)" by auto
    then have "take (th_op (threads s ! i)) (slot s (t4 div 4)) = take (th_op (threads s ! i)) (th_data (threads s ! i))"
      using hv_inv_thread [OF inv i] by (simp add: thread_ok_def)
    then have "new_value s (threads s ! i) (t4 div 4) = slot s (t4 div 4)"
      unfolding new_value_def by (metis append_take_drop_id)
    moreover have "slot (hv_step s i) (t4 div 4) = slot s (t4 div 4)"
      using pc i by (simp add: hv_step_unfold slot_def)
    ultimately show ?thesis
      using step_target [OF inv i] pc i by (simp add: reg_of_def)
  next
    case False
    then have "target_of (flags (hv_step s i)) = target_of (flags s)"
      using step_target [OF inv i] by (auto split: hv_pc.splits if_splits)
    moreover have "reg_val (reg_step r (hv_event s (Step i))) = reg_val r" for r
      using False by (cases "th_pc (threads s ! i)") auto
    ultimately show ?thesis using same by (simp add: reg_of_def)
  qed
qed

text \<open>Snapshots: a slot that is read is not written, so it stays as it was acquired.\<close>

lemma step_snap_other:
  assumes inv: "hv_inv s" and i: "i < length (threads s)" and "j \<noteq> i"
  shows "snap_of (hv_step s i) j = snap_of s j"
proof (cases "j < length (threads s)")
  case True
  have "slot (hv_step s i) t = slot s t" if r: "read_slot (th_pc (threads s ! j)) = Some t" for t
  proof (rule step_other_slot(1) [OF inv i])
    show "t < 4"
      using hv_inv_thread [OF inv True] r
      by (cases "th_pc (threads s ! j)") (auto simp: thread_ok_def)
    then show "write_slot (th_pc (threads s ! i)) \<noteq> Some t"
      using writer_alone(1) [OF hv_inv_locks [OF inv] i True assms(3) [symmetric]] r by blast
  qed
  with True assms(3) show ?thesis
    by (auto simp: snap_of_def hv_step_threads map_option_case split: option.splits)
qed (simp add: snap_of_def hv_step_threads)

lemma step_snap_self:
  assumes inv: "hv_inv s" and i: "i < length (threads s)"
  shows "snap_of (hv_step s i) i = reg_snap (reg_step (reg_of s) (hv_event s (Step i))) i"
proof (cases "th_pc (threads s ! i)")
  case (RdCopy t k)
  then show ?thesis
    using i copy_out_ok(1,2) [OF inv i RdCopy]
    by (simp add: snap_of_def reg_of_def hv_step_unfold slot_def)
qed (use i in \<open>auto simp: snap_of_def reg_of_def hv_step_unfold slot_def\<close>)

lemma step_sim:
  assumes inv: "hv_inv s"
  shows "reg_of (hv_step s i) = reg_step (reg_of s) (hv_event s (Step i))"
proof (cases "i < length (threads s)")
  case True
  have "snap_of (hv_step s i) j = reg_snap (reg_step (reg_of s) (hv_event s (Step i))) j" for j
  proof (cases "j = i")
    case False
    have "reg_snap (reg_step r (hv_event s (Step i))) j = reg_snap r j" for r
      using False True by (cases "th_pc (threads s ! i)") auto
    with step_snap_other [OF inv True False] show ?thesis by (simp add: reg_of_def)
  qed (simp add: step_snap_self [OF inv True])
  then show ?thesis
    by (intro reg_eqI step_reg_val [OF inv True]) (auto simp: reg_of_def)
qed (simp add: hv_step_def)

lemma act_sim:
  assumes "hv_inv s"
  shows "reg_of (hv_act s a) = reg_step (reg_of s) (hv_event s a)"
proof (cases a)
  case (Step i)
  with step_sim [OF assms] show ?thesis by simp
next
  case (Tick now)
  then show ?thesis by (auto simp: reg_of_def snap_of_def slot_def fun_eq_iff map_option_case split: option.split)
next
  case (BeginRead i n buf)
  have "read_slot (th_pc (threads s ! i)) = None" if "may_begin s i n buf"
    using that by (cases "th_pc (threads s ! i)") (auto simp: may_begin_def)
  with BeginRead show ?thesis
    by (auto simp: reg_of_def snap_of_def slot_def fun_eq_iff may_begin_def nth_list_update
        map_option_case split: option.split)
next
  case (BeginWrite i n buf)
  have "read_slot (th_pc (threads s ! i)) = None" if "may_begin s i n buf"
    using that by (cases "th_pc (threads s ! i)") (auto simp: may_begin_def)
  with BeginWrite show ?thesis
    by (auto simp: reg_of_def snap_of_def slot_def fun_eq_iff may_begin_def nth_list_update
        map_option_case split: option.split)
qed

interpretation hv_reg: simulation hv_act hv_start hv_inv reg_of reg_step hv_event
  by unfold_locales (rule act_sim)

end
