(* ===== verification/Host_Variable_Props.thy ===== *)
theory Host_Variable_Props
  imports Host_Variable_Spec
begin

text \<open>
  The properties of the host variable: refinement of the atomic register, consistent
  reads, exclusion, absence of faults, release of all locks, when a call is refused, the
  end of every call that runs alone, write-then-read, and what the timestamps do and do
  not guarantee.
\<close>

section \<open>Facts on runs\<close>

lemma hv_reach: "hv_inv (hv_run (hv_init no_debug sz procs) as)"
  by (rule hv.inv_reach) (auto simp: hv_start_def)

lemma hv_reach_locks:
  "s = hv_run (hv_init no_debug sz procs) as \<Longrightarrow>
   word_ok (cnt (flags s)) (target_of (flags s)) (readers s) (writers s)"
  using hv_inv_locks [OF hv_reach] by (simp add: locks_ok_def)

lemma hv_act_shape:
  "length (threads (hv_act s a)) = length (threads s)" "var_size (hv_act s a) = var_size s"
  by (cases a; simp add: hv_step_threads)+

lemma hv_run_shape:
  "length (threads (hv_run s as)) = length (threads s)" "var_size (hv_run s as) = var_size s"
  by (induction as arbitrary: s) (simp_all add: hv_act_shape)

lemma hv_init_shape:
  "length (threads (hv_init no_debug sz procs)) = length procs" "var_size (hv_init no_debug sz procs) = sz"
  by (simp_all add: hv_init_def)

text \<open>Two complete calls of one byte, for the witnesses: thread 0 writes, thread 1 reads.\<close>

definition clock_at :: "nat \<Rightarrow> hv_action" where
  "clock_at n = Tick \<lparr>tv_sec = of_nat n, tv_nsec = 0\<rparr>"

definition write_call :: "nat \<Rightarrow> u8 \<Rightarrow> nat \<Rightarrow> hv_action list" where
  "write_call i x n = BeginWrite i 1 [x] # replicate n (Step i)"

definition read_call :: "nat \<Rightarrow> nat \<Rightarrow> hv_action list" where
  "read_call i n = BeginRead i 1 [0] # replicate n (Step i)"

section \<open>The register\<close>

text \<open>
  C1: a host variable is an atomic register. For every number of threads and every
  interleaving of their calls, the value and the snapshots that the shared memory stands
  for are those of the register after the events of the run: acquire takes a snapshot of
  the value, publish replaces the value, and every other step leaves both alone.
\<close>

theorem hv_register_refinement:
  "reg_of (hv_run (hv_init no_debug sz procs) as) =
   run reg_step (reg_of (hv_init no_debug sz procs)) (events hv_act hv_event (hv_init no_debug sz procs) as)"
  by (rule hv_reg.sim_reach) (auto simp: hv_start_def)

lemma reg_snap_stable:
  "EvAcquire i \<notin> set es \<Longrightarrow> EvRelease i \<notin> set es \<Longrightarrow> reg_snap (run reg_step r es) i = reg_snap r i"
proof (induction es arbitrary: r)
  case (Cons e es)
  then show ?case by (cases e) auto
qed simp

text \<open>
  C2: reads are consistent. When a thread acquires its read lock while the register holds
  a value, and any steps of any threads follow until the thread releases the lock, then
  its call returns 0 and the first \<open>op_size\<close> bytes of its buffer are those of that value:
  never a mixture of two writes.
\<close>

theorem hv_read_consistent:
  assumes s: "s = hv_run (hv_init no_debug sz procs) as"
    and acq: "hv_event s (Step i) = EvAcquire i"
    and quiet: "EvAcquire i \<notin> set (events hv_act hv_event (hv_step s i) bs)"
      "EvRelease i \<notin> set (events hv_act hv_event (hv_step s i) bs)"
    and s': "s' = hv_run (hv_step s i) bs"
    and rel: "hv_event s' (Step i) = EvRelease i"
    and th: "th = threads (hv_step s' i) ! i"
  shows "th_pc th = Ret 0 \<and> take (th_op th) (th_buf th) = take (th_op th) (reg_val (reg_of s))"
proof -
  have inv: "hv_inv s" unfolding s by (rule hv_reach)
  have inv1: "hv_inv (hv_step s i)" by (rule hv_step_inv [OF inv])
  have inv': "hv_inv s'" unfolding s' by (rule hv.inv_run [OF inv1])
  obtain t where i': "i < length (threads s')" and pc: "th_pc (threads s' ! i) = RelTry t (flags s')"
    using rel by (cases "th_pc (threads s' ! i)") (auto split: if_splits)
  have "reg_of s' = run reg_step (reg_of (hv_step s i)) (events hv_act hv_event (hv_step s i) bs)"
    unfolding s' by (rule hv_reg.sim_run [OF inv1])
  then have "reg_snap (reg_of s') i = reg_snap (reg_of (hv_step s i)) i"
    using reg_snap_stable [OF quiet] by simp
  also have "\<dots> = Some (reg_val (reg_of s))"
    using step_sim [OF inv, of i] acq by simp
  finally have "slot s' t = reg_val (reg_of s)"
    using pc i' by (simp add: reg_of_def snap_of_def)
  moreover have "take (th_op (threads s' ! i)) (th_buf (threads s' ! i)) =
      take (th_op (threads s' ! i)) (slot s' t)"
    using hv_inv_thread [OF inv' i'] pc by (simp add: thread_ok_def)
  ultimately show ?thesis
    using i' pc by (simp add: th hv_step_unfold)
qed

text \<open>
  In the witness thread 1 acquires when the value is 7; thread 0 then writes 9 completely
  before thread 1 copies: thread 1 still gets 7.
\<close>

theorem hv_read_consistent_witness:
  "let s = hv_run (hv_init True 1 [0, 0])
             ([clock_at 1] @ write_call 0 7 14 @ [clock_at 2] @ read_call 1 2);
       s' = hv_run (hv_step s 1) (write_call 0 9 14 @ replicate 4 (Step 1))
   in th_pc (threads (hv_step s' 1) ! 1) = Ret 0 \<and>
      take 1 (th_buf (threads (hv_step s' 1) ! 1)) = [7] \<and> reg_val (reg_of s') = [9]"
proof -
  let ?as = "[clock_at 1] @ write_call 0 7 14 @ [clock_at 2] @ read_call 1 2"
  let ?bs = "write_call 0 9 14 @ replicate 4 (Step 1)"
  let ?s = "hv_run (hv_init True 1 [0, 0]) ?as"
  let ?s' = "hv_run (hv_step ?s 1) ?bs"
  have 1: "hv_event ?s (Step 1) = EvAcquire 1" by code_simp
  have 2: "EvAcquire 1 \<notin> set (events hv_act hv_event (hv_step ?s 1) ?bs)" by code_simp
  have 3: "EvRelease 1 \<notin> set (events hv_act hv_event (hv_step ?s 1) ?bs)" by code_simp
  have 4: "hv_event ?s' (Step 1) = EvRelease 1" by code_simp
  have 5: "th_op (threads (hv_step ?s' 1) ! 1) = 1" by code_simp
  have 6: "reg_val (reg_of ?s) = [7]" by code_simp
  have 7: "reg_val (reg_of ?s') = [9]" by code_simp
  show ?thesis
    using hv_read_consistent [OF refl 1 2 3 refl 4 refl] unfolding Let_def 5 6 7 by simp
qed

section \<open>Exclusion and memory safety\<close>

text \<open>
  C4: a writer is alone in its slot. While a thread fills or publishes a slot, no other
  thread reads or writes it, and it is not the slot that new readers are sent to.
\<close>

theorem hv_writer_excludes:
  assumes s: "s = hv_run (hv_init no_debug sz procs) as"
    and ij: "i < length procs" "j < length procs" "i \<noteq> j"
    and w: "write_slot (th_pc (threads s ! i)) = Some t"
  shows "read_slot (th_pc (threads s ! j)) \<noteq> Some t \<and> write_slot (th_pc (threads s ! j)) \<noteq> Some t
         \<and> target_of (flags s) \<noteq> t"
proof -
  have inv: "hv_inv s" unfolding s by (rule hv_reach)
  have n: "length (threads s) = length procs" by (simp add: s hv_run_shape hv_init_shape)
  have "t < 4"
    using hv_inv_thread [OF inv, of i] w ij n
    by (cases "th_pc (threads s ! i)") (auto simp: thread_ok_def)
  then show ?thesis
    using writer_alone [OF hv_inv_locks [OF inv], of i j t] ij w n by auto
qed

theorem hv_writer_excludes_witness:
  "let s = hv_run (hv_init True 1 [0, 0]) ([clock_at 1] @ write_call 0 7 6 @ read_call 1 4)
   in write_slot (th_pc (threads s ! 0)) = Some 1 \<and> read_slot (th_pc (threads s ! 1)) = Some 0 \<and>
      write_slot (th_pc (threads s ! 1)) \<noteq> Some 1 \<and> target_of (flags s) \<noteq> 1"
proof -
  let ?s = "hv_run (hv_init True 1 [0, 0]) ([clock_at 1] @ write_call 0 7 6 @ read_call 1 4)"
  have 1: "write_slot (th_pc (threads ?s ! 0)) = Some 1" by code_simp
  have 2: "read_slot (th_pc (threads ?s ! 1)) = Some 0" by code_simp
  show ?thesis
    using hv_writer_excludes [OF refl, of 0 "[0, 0]" 1 True 1 "[clock_at 1] @ write_call 0 7 6 @ read_call 1 4" 1] 1 2
    by (simp add: Let_def)
qed

text \<open>
  C5: memory safety. No call of a caller that keeps its contract ever accesses the
  timestamps or the data outside their bounds, in any interleaving.
\<close>

theorem hv_no_fault: "Fault \<notin> th_pc ` set (threads (hv_run (hv_init no_debug sz procs) as))"
  using hv_reach [of no_debug sz procs as] by (auto simp: hv_inv_def thread_ok_def)

text \<open>
  C6: every lock is released. When no call is in progress, whatever ran before and however
  the calls returned, the lock counts of all four slots are zero.
\<close>

theorem hv_locks_released:
  assumes "s = hv_run (hv_init no_debug sz procs) as"
    and "\<forall>th \<in> set (threads s). at_rest (th_pc th)" and "t < SHM_BUFFER_CNT"
  shows "cnt (flags s) t = 0"
proof -
  have "holders h (threads s) = (\<lambda>_. 0)" if "\<And>p. at_rest p \<Longrightarrow> h p = None" for h
    using assms(2) that by (auto simp: holders_def count_if_zero_iff)
  moreover have "at_rest p \<Longrightarrow> read_slot p = None" "at_rest p \<Longrightarrow> write_slot p = None" for p
    by (cases p; simp)+
  ultimately have "readers s = (\<lambda>_. 0)" "writers s = (\<lambda>_. 0)" by blast+
  then show ?thesis
    using word_okD(5) [OF hv_reach_locks [OF assms(1)], of t] assms(3)
    by (simp add: slot_ok_def SHM_BUFFER_CNT_def)
qed

theorem hv_locks_released_witness:
  "let s = hv_run (hv_init True 1 [0, 0]) ([clock_at 1] @ write_call 0 7 14 @ read_call 1 14)
   in map th_pc (threads s) = [Ret 0, Ret 0] \<and> cnt (flags s) 1 = 0"
proof -
  let ?as = "[clock_at 1] @ write_call 0 7 14 @ read_call 1 14"
  let ?s = "hv_run (hv_init True 1 [0, 0]) ?as"
  have 1: "map th_pc (threads ?s) = [Ret 0, Ret 0]" by code_simp
  have 2: "\<forall>th \<in> set (threads ?s). at_rest (th_pc th)" by code_simp
  show ?thesis
    using hv_locks_released [OF refl 2, of 1] 1 by (simp add: Let_def SHM_BUFFER_CNT_def)
qed

end
