(* ===== verification/Host_Variable_Progress.thy ===== *)
theory Host_Variable_Progress
  imports Host_Variable_Props
begin

text \<open>
  When the calls of a host variable end and when they are refused. The retry loops of the
  code end as soon as a thread runs alone (every failed compare-and-exchange loads the
  current word, so the next one succeeds): \<open>solo_rank\<close> bounds the steps that remain. A
  call is refused only when the lock word it loaded was full.
\<close>

section \<open>A call that runs alone ends\<close>

text \<open>An upper bound on the steps a thread still needs when no other thread moves.\<close>

fun solo_rank :: "u64 \<Rightarrow> nat \<Rightarrow> hv_pc \<Rightarrow> nat" where
  "solo_rank fl n RdEnter = 7 + n"
| "solo_rank fl n AcqLoad = 6 + n"
| "solo_rank fl n (AcqTry f) = (if f = fl then 5 + n else 6 + n)"
| "solo_rank fl n (RdCopy t k) = 4 + (n - k)"
| "solo_rank fl n (RdLeave t) = 3"
| "solo_rank fl n (RelLoad t) = 2"
| "solo_rank fl n (RelTry t f) = (if f = fl then 1 else 2)"
| "solo_rank fl n WrClock = 12 + n"
| "solo_rank fl n (WrEnter ts) = 11 + n"
| "solo_rank fl n (WrLoad ts) = 10 + n"
| "solo_rank fl n (WrTry ts f) = (if f = fl then 9 + n else 10 + n)"
| "solo_rank fl n (WrStamp ts t4) = 8 + n"
| "solo_rank fl n (WrCopy ts t4 k) = 7 + (n - k)"
| "solo_rank fl n (PubLoad ts t4) = 4"
| "solo_rank fl n (PubCheck ts t4 f) = (if f = fl then 3 else 5)"
| "solo_rank fl n (PubTry ts t4 f) = (if f = fl then 2 else 4)"
| "solo_rank fl n (PubDrop t4) = 1"
| "solo_rank fl n WrLeave = 1"
| "solo_rank fl n _ = 0"

definition rank_of :: "hv_sys \<Rightarrow> nat \<Rightarrow> nat" where
  "rank_of s i = solo_rank (flags s) (th_op (threads s ! i)) (th_pc (threads s ! i))"

lemma solo_rank_le: "solo_rank fl n p \<le> 12 + n"
  by (cases p) auto

lemma rank_decreases:
  assumes inv: "hv_inv s" and i: "i < length (threads s)"
    and "\<not> at_rest (th_pc (threads s ! i))"
  shows "rank_of (hv_step s i) i < rank_of s i"
proof -
  note ok = hv_inv_thread [OF inv i, unfolded thread_ok_def]
  have shape: "length (timestamps s) = 4"
    using hv_inv_shape [OF inv] by (simp add: shape_ok_def)
  show ?thesis
  proof (cases "th_pc (threads s ! i)")
    case (RdCopy t k)
    then show ?thesis
      using i copy_out_ok(1,2) [OF inv i RdCopy] by (auto simp: rank_of_def hv_step_unfold)
  next
    case (WrCopy ts t4 k)
    then show ?thesis
      using i copy_in_ok(1,2) [OF inv i WrCopy] by (auto simp: rank_of_def hv_step_unfold)
  qed (use i ok shape assms(3) in \<open>auto simp: rank_of_def hv_step_unfold\<close>)
qed

lemma step_at_rest: "at_rest (th_pc (threads s ! i)) \<Longrightarrow> hv_step s i = s"
  by (cases "th_pc (threads s ! i)") (auto simp: hv_step_unfold)

lemma solo_ends:
  "hv_inv s \<Longrightarrow> i < length (threads s) \<Longrightarrow> rank_of s i \<le> n \<Longrightarrow>
   at_rest (th_pc (threads (hv_run s (replicate n (Step i))) ! i))"
proof (induction n arbitrary: s)
  case 0
  then show ?case
    using rank_decreases [of s i] by (cases "at_rest (th_pc (threads s ! i))") auto
next
  case (Suc n)
  show ?case
  proof (cases "at_rest (th_pc (threads s ! i))")
    case True
    then have "hv_run s (replicate m (Step i)) = s" for m
      by (induction m) (simp_all add: step_at_rest)
    with True show ?thesis by metis
  next
    case False
    then have "rank_of (hv_step s i) i \<le> n"
      using rank_decreases [OF Suc.prems(1,2)] Suc.prems(3) by simp
    then show ?thesis
      using Suc.IH [of "hv_step s i"] Suc.prems by (simp add: hv_step_inv hv_step_threads)
  qed
qed

text \<open>
  C7: every call ends when it runs alone. In every reachable state, whatever the other
  threads hold, a thread that is scheduled alone is out of its call after at most
  \<open>op_size + 12\<close> steps, with a result of 0, 1 or -1.
\<close>

theorem hv_obstruction_free:
  assumes s: "s = hv_run (hv_init no_debug sz procs) as" and i: "i < length procs"
    and n: "th_op (threads s ! i) + 12 \<le> n"
    and began: "th_pc (threads s ! i) \<noteq> Idle"
  shows "\<exists>r \<in> {-1, 0, 1}. th_pc (threads (hv_run s (replicate n (Step i))) ! i) = Ret r"
proof -
  let ?s = "hv_run s (replicate n (Step i))"
  have inv: "hv_inv s" unfolding s by (rule hv_reach)
  have i': "i < length (threads s)" using i by (simp add: s hv_run_shape hv_init_shape)
  have "rank_of s i \<le> n"
    using n solo_rank_le [of "flags s" "th_op (threads s ! i)" "th_pc (threads s ! i)"]
    by (simp add: rank_of_def)
  then have rest: "at_rest (th_pc (threads ?s ! i))"
    by (rule solo_ends [OF inv i'])
  have not_idle: "th_pc (threads (hv_run s' (replicate m (Step i))) ! i) \<noteq> Idle"
    if "th_pc (threads s' ! i) \<noteq> Idle" for s' m
    using that
  proof (induction m arbitrary: s')
    case (Suc m)
    have "th_pc (threads (hv_step s' i) ! i) \<noteq> Idle"
      using Suc.prems by (cases "th_pc (threads s' ! i)") (auto simp: hv_step_unfold)
    then show ?case using Suc.IH by simp
  qed simp
  have "hv_inv ?s" by (rule hv.inv_run [OF inv])
  then have ok: "thread_ok ?s (threads ?s ! i)"
    using i' by (intro hv_inv_thread) (simp_all add: hv_run_shape)
  show ?thesis
    using rest not_idle [OF began, of n] ok
    by (cases "th_pc (threads ?s ! i)") (auto simp: thread_ok_def)
qed

text \<open>In the witness thread 0 stopped while it held a slot; thread 1 alone still finishes.\<close>

theorem hv_obstruction_free_witness:
  "let s = hv_run (hv_init True 1 [0, 0]) ([clock_at 1] @ write_call 0 7 6 @ write_call 1 9 4)
   in \<exists>r \<in> {-1, 0, 1}. th_pc (threads (hv_run s (replicate 13 (Step 1))) ! 1) = Ret r"
proof -
  let ?as = "[clock_at 1] @ write_call 0 7 6 @ write_call 1 9 4"
  let ?s = "hv_run (hv_init True 1 [0, 0]) ?as"
  have 1: "th_op (threads ?s ! 1) + 12 \<le> 13" by code_simp
  have 2: "th_pc (threads ?s ! 1) \<noteq> Idle" by code_simp
  show ?thesis
    unfolding Let_def using hv_obstruction_free [OF refl _ 1 2] by simp
qed

section \<open>When a call is refused\<close>





text \<open>With few threads no call is ever refused: each thread holds at most one slot.\<close>

definition held :: "hv_pc \<Rightarrow> nat option" where
  "held p = (case read_slot p of Some t \<Rightarrow> Some t | None \<Rightarrow> write_slot p)"

lemma held_iff: "held p = Some t \<longleftrightarrow> read_slot p = Some t \<or> write_slot p = Some t"
  by (cases p) (auto simp: held_def)

lemma holders_ex: "0 < holders h ths t \<Longrightarrow> \<exists>j < length ths. h (th_pc (ths ! j)) = Some t"
proof -
  assume "0 < holders h ths t"
  then have "\<not> (\<forall>th \<in> set ths. h (th_pc th) \<noteq> Some t)"
    using count_if_zero_iff [of "\<lambda>th. h (th_pc th) = Some t" ths] by (simp add: holders_def)
  then show ?thesis by (auto simp: in_set_conv_nth)
qed

lemma free_slot_exists:
  assumes inv: "hv_inv s" and few: "length (threads s) \<le> 3"
    and i: "i < length (threads s)" "held (th_pc (threads s ! i)) = None"
  shows "free_mask (flags s) \<noteq> 0"
proof
  assume full: "free_mask (flags s) = 0"
  let ?T = "target_of (flags s)" and ?ths = "threads s"
  have w: "word_ok (cnt (flags s)) ?T (readers s) (writers s)"
    using hv_inv_locks [OF inv] by (simp add: locks_ok_def)
  have "\<exists>j. j < length ?ths \<and> j \<noteq> i \<and> held (th_pc (?ths ! j)) = Some t" if "t \<in> {..<4} - {?T}" for t
  proof -
    have "cnt (flags s) t \<noteq> 0" using full that by (auto simp: free_mask_zero_iff)
    then have "0 < readers s t \<or> 0 < writers s t"
      using word_okD(5) [OF w, of t] that by (auto simp: slot_ok_def)
    then obtain j where "j < length ?ths" "held (th_pc (?ths ! j)) = Some t"
      using holders_ex by (metis held_iff)
    then show ?thesis using i(2) by (intro exI [of _ j]) auto
  qed
  then obtain f where f: "\<And>t. t \<in> {..<4} - {?T} \<Longrightarrow>
      f t < length ?ths \<and> f t \<noteq> i \<and> held (th_pc (?ths ! f t)) = Some t"
    by metis
  have "inj_on f ({..<4} - {?T})"
    by (rule inj_onI) (metis f option.inject)
  moreover have "f ` ({..<4} - {?T}) \<subseteq> {..<length ?ths} - {i}"
    using f by auto
  ultimately have "card ({..<4::nat} - {?T}) \<le> card ({..<length ?ths} - {i})"
    by (rule card_inj_on_le) simp
  then show False
    using few i(1) word_okD(1) [OF w] by simp
qed

text \<open>The reader count of the target stays below the number of threads.\<close>

lemma readers_less:
  assumes "i < length ths" "read_slot (th_pc (ths ! i)) = None"
  shows "holders read_slot ths t < length ths"
proof -
  let ?P = "\<lambda>th. read_slot (th_pc th) = Some t"
  have "length (filter ?P ths) < length ths"
    using assms by (intro length_filter_less [of "ths ! i"]) auto
  then show ?thesis by (simp add: holders_def count_if_def)
qed

text \<open>What the lock words that threads have loaded guarantee with at most three threads.\<close>

definition few_ok :: "hv_pc \<Rightarrow> bool" where
  "few_ok p \<longleftrightarrow> (\<forall>f. p = AcqTry f \<longrightarrow> acquire_tmp f \<noteq> 0xF) \<and>
     (\<forall>ts f. p = WrTry ts f \<longrightarrow> free_mask f \<noteq> 0) \<and> p \<noteq> Ret (-1)"

definition few_inv :: "hv_sys \<Rightarrow> bool" where
  "few_inv s \<longleftrightarrow> hv_inv s \<and> length (threads s) \<le> 3 \<and> (\<forall>th \<in> set (threads s). few_ok (th_pc th))"

lemma few_loaded:
  assumes inv: "hv_inv s" "length (threads s) \<le> 3" and i: "i < length (threads s)"
    "held (th_pc (threads s ! i)) = None"
  shows "acquire_tmp (flags s) \<noteq> 0xF" "free_mask (flags s) \<noteq> 0"
proof -
  show "free_mask (flags s) \<noteq> 0" by (rule free_slot_exists [OF inv i])
  have "word_ok (cnt (flags s)) (target_of (flags s)) (readers s) (writers s)"
    using hv_inv_locks [OF inv(1)] by (simp add: locks_ok_def)
  then have "cnt (flags s) (target_of (flags s)) = readers s (target_of (flags s))"
    by (rule word_okD(3))
  moreover have "read_slot (th_pc (threads s ! i)) = None"
    using i(2) by (auto simp: held_def split: option.splits)
  ultimately show "acquire_tmp (flags s) \<noteq> 0xF"
    using readers_less [OF i(1), of "target_of (flags s)"] inv(2) acquire_tmp_full [of "flags s"]
    by linarith
qed

lemma few_step:
  assumes inv: "few_inv s" shows "few_inv (hv_step s i)"
proof (cases "i < length (threads s)")
  case i: True
  have hv: "hv_inv s" "length (threads s) \<le> 3" using inv by (auto simp: few_inv_def)
  have ok: "few_ok (th_pc (threads s ! i))" using inv i by (auto simp: few_inv_def)
  note load = few_loaded [OF hv i]
  have now: "few_ok (th_pc (threads (hv_step s i) ! i))"
    using i ok load
    by (cases "th_pc (threads s ! i)") (auto simp: few_ok_def hv_step_unfold held_def)
  have "few_ok (th_pc (threads (hv_step s i) ! j))" if "j < length (threads s)" for j
    using now inv that by (cases "j = i") (auto simp: few_inv_def hv_step_threads)
  then show ?thesis
    using hv by (auto simp: few_inv_def hv_step_inv hv_step_threads in_set_conv_nth)
qed (use inv in \<open>simp add: hv_step_def\<close>)

lemma few_act: "few_inv s \<Longrightarrow> few_inv (hv_act s a)"
proof -
  assume inv: "few_inv s"
  have upd: "\<forall>th \<in> set ((threads s)[i := th']). few_ok (th_pc th)" if "few_ok (th_pc th')" for i th'
    using inv that by (intro ball_update) (auto simp: few_inv_def)
  have ok: "few_ok RdEnter" "few_ok WrClock" by (auto simp: few_ok_def)
  have hv: "hv_inv (hv_act s a)" using inv hv_act_inv by (auto simp: few_inv_def)
  have "length (threads (hv_act s a)) \<le> 3" using inv by (simp add: few_inv_def hv_act_shape)
  moreover have "\<forall>th \<in> set (threads (hv_act s a)). few_ok (th_pc th)"
  proof (cases a)
    case (BeginRead i n b)
    then show ?thesis
      using upd [of "(threads s ! i)\<lparr>th_pc := RdEnter, th_op := n, th_buf := b\<rparr>" i] ok inv
      by (simp add: few_inv_def)
  next
    case (BeginWrite i n b)
    then show ?thesis
      using upd [of "(threads s ! i)\<lparr>th_pc := WrClock, th_op := n, th_data := b\<rparr>" i] ok inv
      by (simp add: few_inv_def)
  next
    case (Tick now)
    then show ?thesis using inv by (simp add: few_inv_def)
  next
    case (Step i)
    then show ?thesis using few_step [OF inv, of i] by (simp add: few_inv_def)
  qed
  ultimately show ?thesis using hv by (simp add: few_inv_def)
qed

definition few_start :: "hv_sys \<Rightarrow> bool" where
  "few_start s \<longleftrightarrow> (\<exists>no_debug sz procs. s = hv_init no_debug sz procs \<and> length procs \<le> 3)"

lemma few_start_inv: "few_start s \<Longrightarrow> few_inv s"
proof -
  assume "few_start s"
  then obtain no_debug sz procs where s: "s = hv_init no_debug sz procs" "length procs \<le> 3"
    by (auto simp: few_start_def)
  have "\<forall>th \<in> set (threads s). few_ok (th_pc th)"
    by (auto simp: s hv_init_def few_ok_def)
  with s show ?thesis by (simp add: few_inv_def hv_init_inv hv_init_shape)
qed

interpretation few: machine hv_act few_start few_inv
  by unfold_locales (rule few_start_inv few_act, assumption)+

lemma few_served:
  assumes "length procs \<le> 3" and "s = hv_run (hv_init no_debug sz procs) as" and "th \<in> set (threads s)"
  shows "th_pc th \<noteq> Ret (-1)"
proof -
  have "few_inv s"
    unfolding assms(2) using assms(1) by (intro few.inv_reach) (auto simp: few_start_def)
  then show ?thesis using assms(3) by (auto simp: few_inv_def few_ok_def)
qed

lemma hv_fourth_writer_refused:
  "th_pc (threads (hv_run (hv_init True 1 [0, 1, 2, 3])
      (write_call 0 5 6 @ write_call 1 6 6 @ write_call 2 7 6 @ write_call 3 8 4)) ! 3) = Ret (-1)"
  by code_simp

text \<open>
  C10: the slots are enough for three threads. Whatever the interleaving, no read and no
  write of a system of at most three threads returns -1. The bound is sharp: three writers
  that are in their calls (or that died there) use up the three spare slots, so that the
  write of a fourth thread is refused (the variable has \<open>SHM_BUFFER_CNT = 4\<close> slots, not the 14
  that docs/python3-apis.md speaks of).
\<close>

theorem hv_three_threads_served:
  assumes "length procs \<le> 3" and "s = hv_run (hv_init no_debug sz procs) as"
    and "th \<in> set (threads s)"
  shows "th_pc th \<noteq> Ret (-1) \<and>
    th_pc (threads (hv_run (hv_init True 1 [0, 1, 2, 3])
      (write_call 0 5 6 @ write_call 1 6 6 @ write_call 2 7 6 @ write_call 3 8 4)) ! 3) = Ret (-1)"
  by (intro conjI few_served [OF assms] hv_fourth_writer_refused)

theorem hv_three_threads_served_witness:
  "let s = hv_run (hv_init True 1 [0, 0, 1])
       ([clock_at 1] @ write_call 0 7 6 @ write_call 1 8 6 @ write_call 2 9 14)
   in threads s ! 2 \<in> set (threads s) \<and> th_pc (threads s ! 2) \<noteq> Ret (-1)"
proof -
  let ?as = "[clock_at 1] @ write_call 0 7 6 @ write_call 1 8 6 @ write_call 2 9 14"
  let ?s = "hv_run (hv_init True 1 [0, 0, 1]) ?as"
  have 1: "threads ?s ! 2 \<in> set (threads ?s)"
    by (rule nth_mem) code_simp
  show ?thesis
    unfolding Let_def using hv_three_threads_served [OF _ refl 1, THEN conjunct1] 1 by simp
qed

end
