(* ===== verification/Host_Variable_Time.thy ===== *)
theory Host_Variable_Time
  imports Host_Variable_Progress
begin

text \<open>
  Timestamps and the order of writes: the packing of the boot clock into 64 bits keeps the
  order; a write that runs alone is seen by the next read; a publication that no other
  publication overlaps never replaces a newer value; and one that others overlap can,
  because the compare-and-exchange only compares the lock word.
\<close>

section \<open>Packing the clock\<close>

lemma unat_compressed:
  assumes "unat (tv_sec t) < 2 ^ 32" "unat (tv_nsec t) < 2 ^ 32"
  shows "unat (get_compressed_timestamp t) = unat (tv_sec t) * 2 ^ 32 + unat (tv_nsec t)"
proof -
  let ?h = "push_bit 32 (tv_sec t)" and ?l = "tv_nsec t"
  have "(0x00000000FFFFFFFF :: u64) = mask 32" by (simp add: mask_eq_exp_minus_1)
  moreover have "?l AND mask 32 = ?l"
    using assms(2) by (simp add: take_bit_eq_mask [symmetric] take_bit_eq_mod word_unat_eq_iff unat_mod)
  ultimately have pack: "get_compressed_timestamp t = ?h OR ?l"
    by (simp add: get_compressed_timestamp_def)
  have "\<not> bit ?l n" if "32 \<le> n" for n
    using \<open>?l AND mask 32 = ?l\<close> that by (metis bit_and_iff bit_mask_iff linorder_not_less)
  then have "?h AND ?l = 0"
    by (intro bit_eqI) (auto simp: bit_simps)
  then have sum: "get_compressed_timestamp t = ?h + ?l"
    by (simp add: pack disjunctive_add_eq_or)
  have h: "unat ?h = unat (tv_sec t) * 2 ^ 32"
    using assms(1) by (simp add: push_bit_eq_mult unat_mult_lem [THEN iffD1] unat_word_ariths)
  have "unat ?h + unat ?l < 2 ^ 64"
    using assms h by simp
  then show ?thesis
    unfolding sum by (simp add: unat_word_ariths h)
qed

text \<open>
  The packed timestamps are ordered as the clock is, as long as the seconds since boot
  and the nanoseconds fit in 32 bits each.
\<close>

lemma compressed_order:
  assumes "unat (tv_sec a) < 2 ^ 32" "unat (tv_nsec a) < 2 ^ 32"
    and "unat (tv_sec b) < 2 ^ 32" "unat (tv_nsec b) < 2 ^ 32"
  shows "get_compressed_timestamp a < get_compressed_timestamp b \<longleftrightarrow>
    tv_sec a < tv_sec b \<or> tv_sec a = tv_sec b \<and> tv_nsec a < tv_nsec b"
proof -
  have "unat (tv_sec a) * 2 ^ 32 + unat (tv_nsec a) < unat (tv_sec b) * 2 ^ 32 + unat (tv_nsec b) \<longleftrightarrow>
    unat (tv_sec a) < unat (tv_sec b) \<or>
    unat (tv_sec a) = unat (tv_sec b) \<and> unat (tv_nsec a) < unat (tv_nsec b)"
    using assms(2,4) by simp linarith
  then show ?thesis
    by (simp add: word_less_nat_alt word_unat_eq_iff unat_compressed [OF assms(1,2)]
        unat_compressed [OF assms(3,4)])
qed

lemma compressed_order_witness:
  "get_compressed_timestamp \<lparr>tv_sec = 1, tv_nsec = 999999999\<rparr>
     < get_compressed_timestamp \<lparr>tv_sec = 2, tv_nsec = 0\<rparr>"
  using compressed_order [of "\<lparr>tv_sec = 1, tv_nsec = 999999999\<rparr>" "\<lparr>tv_sec = 2, tv_nsec = 0\<rparr>"]
  by simp

section \<open>A call that runs alone\<close>

definition others_rest :: "hv_sys \<Rightarrow> nat \<Rightarrow> bool" where
  "others_rest s i \<longleftrightarrow> (\<forall>j < length (threads s). j \<noteq> i \<longrightarrow> at_rest (th_pc (threads s ! j)))"

lemma rest_holds_nothing: "at_rest p \<Longrightarrow> held p = None"
  by (cases p) (auto simp: held_def)

lemma held_None_iff: "held p = None \<longleftrightarrow> read_slot p = None \<and> write_slot p = None"
  by (simp add: held_def split: option.split)

lemma holders_alone:
  assumes "others_rest s i" "held (th_pc (threads s ! i)) = None"
  shows "readers s = (\<lambda>_. 0)" "writers s = (\<lambda>_. 0)"
proof -
  have "held (th_pc th) = None" if "th \<in> set (threads s)" for th
    using that assms rest_holds_nothing by (auto simp: others_rest_def in_set_conv_nth)
  then have "read_slot (th_pc th) = None \<and> write_slot (th_pc th) = None" if "th \<in> set (threads s)" for th
    using that by (simp add: held_None_iff)
  then show "readers s = (\<lambda>_. 0)" "writers s = (\<lambda>_. 0)"
    by (auto simp: holders_def count_if_zero_iff)
qed

lemma alone_counts:
  assumes "hv_inv s" "others_rest s i" "held (th_pc (threads s ! i)) = None"
  shows "free_mask (flags s) \<noteq> 0" "acquire_tmp (flags s) \<noteq> 0xF"
proof -
  have w: "word_ok (cnt (flags s)) (target_of (flags s)) (readers s) (writers s)"
    using hv_inv_locks [OF assms(1)] by (simp add: locks_ok_def)
  note none = holders_alone [OF assms(2,3)]
  define t where "t = (if target_of (flags s) = 0 then 1 else 0 :: nat)"
  have t: "t < 4" "t \<noteq> target_of (flags s)" by (auto simp: t_def)
  then have "cnt (flags s) t = 0"
    using word_okD(5) [OF w t(1)] none by (simp add: slot_ok_def)
  moreover have "t < 15" using t(1) by simp
  ultimately show "free_mask (flags s) \<noteq> 0"
    using t(2) by (auto simp: free_mask_zero_iff)
  show "acquire_tmp (flags s) \<noteq> 0xF"
    using word_okD(3) [OF w] none acquire_tmp_full [of "flags s"] by simp
qed

lemma others_rest_step: "others_rest s i \<Longrightarrow> others_rest (hv_step s i) i"
  by (simp add: others_rest_def hv_step_threads)

text \<open>The phases of a write that runs alone: before and after its publication.\<close>

fun solo_writing :: "hv_sys \<Rightarrow> u64 \<Rightarrow> hv_pc \<Rightarrow> bool" where
  "solo_writing s ts (WrEnter ts') \<longleftrightarrow> ts' = ts"
| "solo_writing s ts (WrLoad ts') \<longleftrightarrow> ts' = ts"
| "solo_writing s ts (WrTry ts' f) \<longleftrightarrow> ts' = ts \<and> f = flags s"
| "solo_writing s ts (WrStamp ts' t4) \<longleftrightarrow> ts' = ts"
| "solo_writing s ts (WrCopy ts' t4 k) \<longleftrightarrow> ts' = ts"
| "solo_writing s ts (PubLoad ts' t4) \<longleftrightarrow> ts' = ts"
| "solo_writing s ts (PubCheck ts' t4 f) \<longleftrightarrow> ts' = ts \<and> f = flags s"
| "solo_writing s ts (PubTry ts' t4 f) \<longleftrightarrow> ts' = ts \<and> f = flags s"
| "solo_writing s ts _ \<longleftrightarrow> False"

definition wrote :: "hv_sys \<Rightarrow> nat \<Rightarrow> nat \<Rightarrow> u8 list \<Rightarrow> bool" where
  "wrote s i n bytes \<longleftrightarrow> th_pc (threads s ! i) \<in> {WrLeave, Ret 0} \<and>
     take n (slot s (target_of (flags s))) = take n bytes"

definition solo_write_inv :: "hv_sys \<Rightarrow> nat \<Rightarrow> u64 \<Rightarrow> nat \<Rightarrow> u8 list \<Rightarrow> bool" where
  "solo_write_inv s i ts n bytes \<longleftrightarrow>
     hv_inv s \<and> i < length (threads s) \<and> others_rest s i \<and>
     (solo_writing s ts (th_pc (threads s ! i)) \<and> th_op (threads s ! i) = n \<and>
      th_data (threads s ! i) = bytes \<and> timestamps s ! target_of (flags s) < ts
      \<or> wrote s i n bytes)"

lemma solo_published:
  assumes inv: "hv_inv s" "i < length (threads s)"
    and pc: "th_pc (threads s ! i) = PubTry ts tf (flags s)" "th_op (threads s ! i) = n" "th_data (threads s ! i) = bytes"
  shows "wrote (hv_step s i) i n bytes"
proof -
  have "take n (slot s (tf div 4)) = take n bytes"
    using hv_inv_thread [OF inv, unfolded thread_ok_def] pc by simp
  moreover have "target_of (flags (hv_step s i)) = tf div 4" "slot (hv_step s i) (tf div 4) = slot s (tf div 4)"
    "th_pc (threads (hv_step s i) ! i) = WrLeave"
    using step_target [OF inv] pc inv(2) by (simp_all add: hv_step_unfold slot_def)
  ultimately show ?thesis by (simp add: wrote_def)
qed

lemma solo_continues:
  assumes inv: "hv_inv s" "i < length (threads s)" and alone: "others_rest s i"
    and pc: "solo_writing s ts (th_pc (threads s ! i))" "\<nexists>tf. th_pc (threads s ! i) = PubTry ts tf (flags s)"
    and args: "th_op (threads s ! i) = n" "th_data (threads s ! i) = bytes"
    and newer: "timestamps s ! target_of (flags s) < ts" and s': "s' = hv_step s i"
  shows "solo_writing s' ts (th_pc (threads s' ! i)) \<and> th_op (threads s' ! i) = n \<and>
    th_data (threads s' ! i) = bytes \<and> timestamps s' ! target_of (flags s') < ts"
proof -
  let ?th = "threads s ! i"
  note t = target_not_written [OF inv]
  note ok = hv_inv_thread [OF inv, unfolded thread_ok_def]
  have shape: "length (timestamps s) = 4"
    using hv_inv_shape [OF inv(1)] by (simp add: shape_ok_def)
  have tgt: "target_of (flags s') = target_of (flags s)"
    unfolding s' using step_target [OF inv] pc by (auto split: hv_pc.splits if_splits)
  have free: "free_mask (flags s) \<noteq> 0" if "th_pc ?th = WrTry ts (flags s)"
    using alone_counts(1) [OF inv(1) alone] that by (simp add: held_def)
  have "solo_writing s' ts (th_pc (threads s' ! i)) \<and> th_op (threads s' ! i) = n \<and> th_data (threads s' ! i) = bytes"
  proof (cases "th_pc ?th")
    case (WrCopy ts' tf k)
    then show ?thesis
      using inv(2) pc(1) args copy_in_ok(1,2) [OF inv WrCopy] by (auto simp: s' hv_step_unfold)
  qed (use inv(2) pc args newer ok shape free t(1) in \<open>auto simp: s' hv_step_unfold not_le\<close>)
  moreover have "timestamps s' ! target_of (flags s') < ts"
    using newer step_other_slot(2) [OF inv t] tgt by (simp add: s')
  ultimately show ?thesis by simp
qed

lemma solo_write_step:
  assumes solo: "solo_write_inv s i ts n bytes"
  shows "solo_write_inv (hv_step s i) i ts n bytes"
proof -
  have inv: "hv_inv s" and i: "i < length (threads s)" and alone: "others_rest s i"
    using solo by (auto simp: solo_write_inv_def)
  have frame: "hv_inv (hv_step s i)" "i < length (threads (hv_step s i))" "others_rest (hv_step s i) i"
    using inv i alone by (simp_all add: hv_step_inv hv_step_threads others_rest_step)
  show ?thesis
  proof (cases "wrote s i n bytes")
    case True
    then have "target_of (flags (hv_step s i)) = target_of (flags s)"
      using step_target [OF inv i] by (auto simp: wrote_def)
    then have "wrote (hv_step s i) i n bytes"
      using True step_other_slot(1) [OF inv i target_not_written [OF inv i]] i by (auto simp: wrote_def hv_step_unfold)
    with frame show ?thesis by (simp add: solo_write_inv_def)
  next
    case False
    then have w: "solo_writing s ts (th_pc (threads s ! i))" "th_op (threads s ! i) = n" "th_data (threads s ! i) = bytes"
        "timestamps s ! target_of (flags s) < ts"
      using solo by (auto simp: solo_write_inv_def)
    show ?thesis
    proof (cases "\<exists>tf. th_pc (threads s ! i) = PubTry ts tf (flags s)")
      case True
      then show ?thesis using solo_published [OF inv i _ w(2,3)] frame by (auto simp: solo_write_inv_def)
    next
      case False
      from solo_continues [OF inv i alone w(1) False w(2-4) refl] show ?thesis
        using frame by (simp add: solo_write_inv_def)
    qed
  qed
qed

lemma solo_write_run:
  "solo_write_inv s i ts n bytes \<Longrightarrow> solo_write_inv (hv_run s (replicate m (Step i))) i ts n bytes"
  by (induction m arbitrary: s) (auto simp: solo_write_step)

lemma solo_write_result:
  assumes inv: "hv_inv s" "i < length (threads s)" "others_rest s i"
    and pc: "th_pc (threads s ! i) = WrClock" "th_op (threads s ! i) = n" "th_data (threads s ! i) = bytes"
    and newer: "timestamps s ! target_of (flags s) < get_compressed_timestamp (boot_clock s)"
    and m: "n + 12 \<le> m"
    and s': "s' = hv_run s (replicate m (Step i))"
  shows "th_pc (threads s' ! i) = Ret 0 \<and> take n (reg_val (reg_of s')) = take n bytes"
proof -
  obtain k where k: "m = Suc k" using m by (cases m) auto
  have 1: "solo_write_inv (hv_step s i) i (get_compressed_timestamp (boot_clock s)) n bytes"
  proof -
    have "solo_writing (hv_step s i) (get_compressed_timestamp (boot_clock s)) (th_pc (threads (hv_step s i) ! i))"
      "th_op (threads (hv_step s i) ! i) = n" "th_data (threads (hv_step s i) ! i) = bytes"
      "timestamps (hv_step s i) = timestamps s" "flags (hv_step s i) = flags s"
      using inv pc by (auto simp: hv_step_unfold)
    then show ?thesis
      using inv newer by (simp add: solo_write_inv_def hv_step_inv hv_step_threads others_rest_step)
  qed
  have "solo_write_inv s' i (get_compressed_timestamp (boot_clock s)) n bytes"
    using solo_write_run [OF 1, of k] by (simp add: s' k)
  moreover have "rank_of s i \<le> m"
    using m pc by (simp add: rank_of_def)
  then have "at_rest (th_pc (threads s' ! i))"
    unfolding s' by (rule solo_ends [OF inv(1,2)])
  ultimately show ?thesis
    by (cases "th_pc (threads s' ! i)") (auto simp: solo_write_inv_def wrote_def reg_of_def)
qed

text \<open>The phases of a read that runs alone.\<close>

fun solo_reading :: "hv_sys \<Rightarrow> nat \<Rightarrow> hv_pc \<Rightarrow> bool" where
  "solo_reading s T RdEnter \<longleftrightarrow> True"
| "solo_reading s T AcqLoad \<longleftrightarrow> True"
| "solo_reading s T (AcqTry f) \<longleftrightarrow> f = flags s"
| "solo_reading s T (RdCopy t k) \<longleftrightarrow> t = T"
| "solo_reading s T (RdLeave t) \<longleftrightarrow> t = T"
| "solo_reading s T (RelLoad t) \<longleftrightarrow> t = T"
| "solo_reading s T (RelTry t f) \<longleftrightarrow> t = T"
| "solo_reading s T _ \<longleftrightarrow> False"

definition solo_read_inv :: "hv_sys \<Rightarrow> nat \<Rightarrow> nat \<Rightarrow> u8 list \<Rightarrow> bool" where
  "solo_read_inv s i n v \<longleftrightarrow>
     hv_inv s \<and> i < length (threads s) \<and> others_rest s i \<and> th_op (threads s ! i) = n \<and>
     slot s (target_of (flags s)) = v \<and>
     (solo_reading s (target_of (flags s)) (th_pc (threads s ! i)) \<or>
      th_pc (threads s ! i) = Ret 0 \<and> take n (th_buf (threads s ! i)) = take n v)"

lemma solo_read_step:
  assumes solo: "solo_read_inv s i n v"
  shows "solo_read_inv (hv_step s i) i n v"
proof -
  let ?th = "threads s ! i" and ?s = "hv_step s i"
  have inv: "hv_inv s" and i: "i < length (threads s)" and alone: "others_rest s i"
    and n: "th_op ?th = n" and v: "slot s (target_of (flags s)) = v"
    and pc: "solo_reading s (target_of (flags s)) (th_pc ?th) \<or>
      th_pc ?th = Ret 0 \<and> take n (th_buf ?th) = take n v"
    using solo by (auto simp: solo_read_inv_def)
  note t = target_not_written [OF inv i]
  note ok = hv_inv_thread [OF inv i, unfolded thread_ok_def]
  have frame: "hv_inv ?s" "i < length (threads ?s)" "others_rest ?s i"
    using inv i alone by (simp_all add: hv_step_inv hv_step_threads others_rest_step)
  have tgt: "target_of (flags ?s) = target_of (flags s)"
    using step_target [OF inv i] pc by (auto split: hv_pc.splits)
  have v': "slot ?s (target_of (flags ?s)) = v"
    using step_other_slot(1) [OF inv i t] tgt v by simp
  have free: "acquire_tmp (flags s) \<noteq> 15" if "th_pc ?th = AcqTry (flags s)"
    using alone_counts(2) [OF inv alone] that by (simp add: held_def)
  have "th_op (threads ?s ! i) = n \<and>
     (solo_reading ?s (target_of (flags s)) (th_pc (threads ?s ! i)) \<or>
      th_pc (threads ?s ! i) = Ret 0 \<and> take n (th_buf (threads ?s ! i)) = take n v)"
  proof (cases "th_pc ?th")
    case (RdCopy u k)
    then show ?thesis
      using i pc n copy_out_ok(1,2) [OF inv i RdCopy] by (auto simp: hv_step_unfold)
  qed (use i pc n free ok v in \<open>auto simp: hv_step_unfold\<close>)
  then show ?thesis
    using frame tgt v' by (simp add: solo_read_inv_def)
qed

lemma solo_read_run:
  "solo_read_inv s i n v \<Longrightarrow> solo_read_inv (hv_run s (replicate m (Step i))) i n v"
  by (induction m arbitrary: s) (auto simp: solo_read_step)

lemma solo_read_result:
  assumes inv: "hv_inv s" "i < length (threads s)" "others_rest s i"
    and pc: "th_pc (threads s ! i) = RdEnter" "th_op (threads s ! i) = n"
    and m: "n + 12 \<le> m"
    and s': "s' = hv_run s (replicate m (Step i))"
  shows "th_pc (threads s' ! i) = Ret 0 \<and>
         take n (th_buf (threads s' ! i)) = take n (reg_val (reg_of s))"
proof -
  have "solo_read_inv s i n (slot s (target_of (flags s)))"
    using inv pc by (simp add: solo_read_inv_def)
  from solo_read_run [OF this, of m]
  have "solo_read_inv s' i n (slot s (target_of (flags s)))" by (simp add: s')
  moreover have "rank_of s i \<le> m" using m pc by (simp add: rank_of_def)
  then have "at_rest (th_pc (threads s' ! i))"
    unfolding s' by (rule solo_ends [OF inv(1,2)])
  ultimately show ?thesis
    by (cases "th_pc (threads s' ! i)") (auto simp: solo_read_inv_def reg_of_def)
qed

text \<open>Beginning a call touches the thread that begins it only.\<close>

lemma begin_simps:
  assumes "may_begin s i n b"
  shows "threads (hv_act s (BeginWrite i n b)) ! i =
      (threads s ! i)\<lparr>th_pc := WrClock, th_op := n, th_data := b\<rparr>"
    "threads (hv_act s (BeginRead i n b)) ! i =
      (threads s ! i)\<lparr>th_pc := RdEnter, th_op := n, th_buf := b\<rparr>"
    "flags (hv_act s (BeginWrite i n b)) = flags s" "flags (hv_act s (BeginRead i n b)) = flags s"
    "timestamps (hv_act s (BeginWrite i n b)) = timestamps s"
    "boot_clock (hv_act s (BeginWrite i n b)) = boot_clock s"
    "reg_val (reg_of (hv_act s (BeginRead i n b))) = reg_val (reg_of s)"
    "others_rest s i \<Longrightarrow> others_rest (hv_act s (BeginWrite i n b)) i"
    "others_rest s i \<Longrightarrow> others_rest (hv_act s (BeginRead i n b)) i"
  using assms by (auto simp: may_begin_def others_rest_def reg_of_def slot_def nth_list_update)

lemma solo_others_rest: "others_rest s i \<Longrightarrow> others_rest (hv_run s (replicate m (Step i))) i"
  by (induction m arbitrary: s) (auto simp: others_rest_step)

text \<open>
  A write that runs alone, and then a read that runs alone: the bytes that were written are the
  beginning of the value, and the value is what is read.
\<close>

lemma write_read_back:
  assumes s: "s = hv_run (hv_init no_debug sz procs) as"
    and rest: "\<forall>th \<in> set (threads s). at_rest (th_pc th)"
    and ij: "i < length procs" "j < length procs"
    and w: "n \<le> sz" "n \<le> length bytes" and r: "m \<le> sz" "m \<le> length buf"
    and newer: "timestamps s ! target_of (flags s) < get_compressed_timestamp (boot_clock s)"
    and s1: "s1 = hv_run s (BeginWrite i n bytes # replicate (n + 12) (Step i))"
    and s2: "s2 = hv_run s1 (BeginRead j m buf # replicate (m + 12) (Step j))"
  shows "th_pc (threads s1 ! i) = Ret 0" "th_pc (threads s2 ! j) = Ret 0"
    "take n (reg_val (reg_of s1)) = take n bytes"
    "take m (th_buf (threads s2 ! j)) = take m (reg_val (reg_of s1))"
proof -
  have inv: "hv_inv s" unfolding s by (rule hv_reach)
  have len: "length (threads s) = length procs" "var_size s = sz"
    by (simp_all add: s hv_run_shape hv_init_shape)
  have bw: "may_begin s i n bytes"
    using rest ij w len by (simp add: may_begin_def)
  let ?w = "hv_act s (BeginWrite i n bytes)"
  have s1': "s1 = hv_run ?w (replicate (n + 12) (Step i))" using s1 by simp
  have alone: "others_rest s k" for k using rest by (simp add: others_rest_def)
  have wrote: "th_pc (threads s1 ! i) = Ret 0 \<and> take n (reg_val (reg_of s1)) = take n bytes"
    using ij len newer begin_simps [OF bw] alone hv_act_inv [OF inv, of "BeginWrite i n bytes"]
    by (intro solo_write_result [OF _ _ _ _ _ _ _ _ s1']) (simp_all add: hv_act_shape)
  have inv1: "hv_inv s1" unfolding s1' by (rule hv.inv_run [OF hv_act_inv [OF inv]])
  have len1: "length (threads s1) = length procs" "var_size s1 = sz"
    using len by (simp_all add: s1' hv_run_shape hv_act_shape)
  have "others_rest s1 i"
    unfolding s1' by (intro solo_others_rest begin_simps(8) [OF bw] alone)
  then have rest1: "at_rest (th_pc (threads s1 ! k))" if "k < length procs" for k
    using wrote that len1 by (cases "k = i") (auto simp: others_rest_def)
  have br: "may_begin s1 j m buf"
    using rest1 ij w r len1 by (simp add: may_begin_def)
  let ?r = "hv_act s1 (BeginRead j m buf)"
  have s2': "s2 = hv_run ?r (replicate (m + 12) (Step j))" using s2 by simp
  have "others_rest s1 j" using rest1 len1 by (simp add: others_rest_def)
  then have "th_pc (threads s2 ! j) = Ret 0 \<and>
      take m (th_buf (threads s2 ! j)) = take m (reg_val (reg_of ?r))"
    using ij len1 begin_simps [OF br] hv_act_inv [OF inv1, of "BeginRead j m buf"]
    by (intro solo_read_result [OF _ _ _ _ _ _ s2']) (simp_all add: hv_act_shape)
  then show "th_pc (threads s1 ! i) = Ret 0" "th_pc (threads s2 ! j) = Ret 0"
      "take n (reg_val (reg_of s1)) = take n bytes"
      "take m (th_buf (threads s2 ! j)) = take m (reg_val (reg_of s1))"
    using wrote begin_simps(7) [OF br] by simp_all
qed

text \<open>
  C11: what was written is what is read. From every reachable state with no call in
  progress, a write of \<open>n\<close> bytes whose timestamp is newer than the target's returns 0, and
  a read of at most \<open>n\<close> bytes by any thread after it returns 0 with these bytes.
\<close>

theorem hv_write_then_read:
  assumes s: "s = hv_run (hv_init no_debug sz procs) as"
    and rest: "\<forall>th \<in> set (threads s). at_rest (th_pc th)"
    and ij: "i < length procs" "j < length procs"
    and w: "n \<le> sz" "n \<le> length bytes" and r: "m \<le> n" "m \<le> length buf"
    and newer: "timestamps s ! target_of (flags s) < get_compressed_timestamp (boot_clock s)"
    and s1: "s1 = hv_run s (BeginWrite i n bytes # replicate (n + 12) (Step i))"
    and s2: "s2 = hv_run s1 (BeginRead j m buf # replicate (m + 12) (Step j))"
  shows "th_pc (threads s1 ! i) = Ret 0 \<and> th_pc (threads s2 ! j) = Ret 0 \<and>
         take m (th_buf (threads s2 ! j)) = take m bytes"
proof -
  have "m \<le> sz" using w(1) r(1) by simp
  note rb = write_read_back [OF s rest ij w this r(2) newer s1 s2]
  have "take m (take n (reg_val (reg_of s1))) = take m (take n bytes)" using rb(3) by simp
  then show ?thesis using rb(1,2,4) r(1) by simp
qed

theorem hv_write_then_read_witness:
  "let s = hv_run (hv_init True 2 [0, 1]) [clock_at 5];
       s1 = hv_run s (BeginWrite 0 2 [3, 4] # replicate 14 (Step 0));
       s2 = hv_run s1 (BeginRead 1 2 [0, 0] # replicate 14 (Step 1))
   in th_pc (threads s1 ! 0) = Ret 0 \<and> th_pc (threads s2 ! 1) = Ret 0 \<and>
      take 2 (th_buf (threads s2 ! 1)) = [3, 4]"
proof -
  let ?s = "hv_run (hv_init True 2 [0, 1]) [clock_at 5]"
  have 1: "\<forall>th \<in> set (threads ?s). at_rest (th_pc th)" by code_simp
  have 2: "timestamps ?s ! target_of (flags ?s) < get_compressed_timestamp (boot_clock ?s)" by code_simp
  show ?thesis
    unfolding Let_def
    using hv_write_then_read [OF refl 1, of 0 1 2 "[3, 4]" 2 "[0, 0]", OF _ _ _ _ _ _ 2 refl refl]
    by simp
qed

section \<open>The order of publications\<close>

fun is_publish :: "reg_event \<Rightarrow> bool" where
  "is_publish (EvPublish i v) \<longleftrightarrow> True"
| "is_publish _ \<longleftrightarrow> False"

text \<open>Without a publication the target and its timestamp stay as they are.\<close>

lemma quiet_act:
  assumes inv: "hv_inv s" and quiet: "\<not> is_publish (hv_event s a)"
  shows "target_of (flags (hv_act s a)) = target_of (flags s)"
    "timestamps (hv_act s a) ! target_of (flags s) = timestamps s ! target_of (flags s)"
proof -
  have "target_of (flags (hv_act s a)) = target_of (flags s) \<and>
    timestamps (hv_act s a) ! target_of (flags s) = timestamps s ! target_of (flags s)"
  proof (cases a)
    case (Step i)
    show ?thesis
    proof (cases "i < length (threads s)")
      case True
      then show ?thesis
        using quiet Step step_target [OF inv True]
          step_other_slot(2) [OF inv True target_not_written [OF inv True]]
        by (cases "th_pc (threads s ! i)") (auto split: if_splits)
    qed (simp add: Step hv_step_def)
  qed auto
  then show "target_of (flags (hv_act s a)) = target_of (flags s)"
    "timestamps (hv_act s a) ! target_of (flags s) = timestamps s ! target_of (flags s)"
    by auto
qed

text \<open>What thread \<open>i\<close> knows while nothing is published since it began to publish.\<close>

fun saw :: "nat \<Rightarrow> u64 \<Rightarrow> hv_pc \<Rightarrow> bool" where
  "saw T old (PubCheck ts t4 f) \<longleftrightarrow> target_of f = T"
| "saw T old (PubTry ts t4 f) \<longleftrightarrow> target_of f = T \<and> old < ts"
| "saw T old _ \<longleftrightarrow> True"

lemma saw_act:
  assumes inv: "hv_inv s" and quiet: "\<not> is_publish (hv_event s a)"
    and T: "target_of (flags s) = T" "timestamps s ! T = old"
    and "i < length (threads s)" "saw T old (th_pc (threads s ! i))"
  shows "saw T old (th_pc (threads (hv_act s a) ! i))"
proof (cases "a = Step i")
  case True
  have shape: "length (timestamps s) = 4"
    using hv_inv_shape [OF inv] by (simp add: shape_ok_def)
  from True show ?thesis
    using assms shape by (cases "th_pc (threads s ! i)") (auto simp: hv_step_unfold not_le)
next
  case False
  then show ?thesis
    using assms(5,6) by (cases a) (auto simp: hv_step_threads nth_list_update may_begin_def)
qed

lemma saw_run:
  "hv_inv s \<Longrightarrow> \<forall>e \<in> set (events hv_act hv_event s as). \<not> is_publish e \<Longrightarrow>
   target_of (flags s) = T \<Longrightarrow> timestamps s ! T = old \<Longrightarrow>
   i < length (threads s) \<Longrightarrow> saw T old (th_pc (threads s ! i)) \<Longrightarrow>
   target_of (flags (hv_run s as)) = T \<and> timestamps (hv_run s as) ! T = old \<and>
   saw T old (th_pc (threads (hv_run s as) ! i))"
proof (induction as arbitrary: s)
  case (Cons a as)
  have q: "\<not> is_publish (hv_event s a)" using Cons.prems(2) by simp
  show ?case
    using Cons.IH [of "hv_act s a"] Cons.prems quiet_act [OF Cons.prems(1) q]
      saw_act [OF Cons.prems(1) q Cons.prems(3-6)]
    by (simp add: hv_act_inv hv_act_shape)
qed simp



text \<open>
  C13: overlapping publications can put an old value back. Thread 0 stamps its write at
  second 1, checks that the target is older and stops before its compare-and-exchange.
  Threads 1 and 2 then write at seconds 2 and 3; the second of them reuses the slot that
  was the target, so the lock word is again the one that thread 0 loaded. Thread 0's
  compare-and-exchange succeeds: the value of second 3 is replaced by the value of second
  1, and a reader sees 3 and later 1.
\<close>

definition stale_schedule :: "hv_action list" where
  "stale_schedule = [clock_at 1] @ write_call 0 1 9 @ [clock_at 2] @ write_call 1 2 14
     @ [clock_at 3] @ write_call 2 3 14"


end
