(* ===== verification/Shm_Layout.thy ===== *)
theory Shm_Layout
  imports Host_Variable
begin

text \<open>
  The bytes of the shared memory object of a host variable: the offsets of the fields of
  \<open>struct _s_host_variable\<close>, the size of the object (with the wrap-around of \<open>size_t\<close>),
  loads and stores of integers (little endian, as on the machines the library is built
  for), and how the bytes stand for the fields that the machine of the host variable uses.
\<close>

section \<open>Offsets and sizes\<close>

definition OFF_CREATED :: nat where "OFF_CREATED = 0"
definition OFF_FLAGS :: nat where "OFF_FLAGS = 256"
definition OFF_TIMESTAMP :: "nat \<Rightarrow> nat" where "OFF_TIMESTAMP i = 264 + 8 * i"
definition OFF_DATA :: nat where "OFF_DATA = 264 + 8 * SHM_BUFFER_CNT"

lemmas off_defs = OFF_CREATED_def OFF_FLAGS_def OFF_TIMESTAMP_def OFF_DATA_def SHM_BUFFER_CNT_def

text \<open>
  \<open>sizeof(struct _s_host_variable) + size * SHM_BUFFER_CNT\<close>: the flexible array member has
  no size of its own, and the arithmetic is that of \<open>size_t\<close>.
\<close>

definition FULL_SIZE :: "u64 \<Rightarrow> u64" where
  "FULL_SIZE sz = of_nat OFF_DATA + sz * of_nat SHM_BUFFER_CNT"

lemma full_size_exact:
  assumes "OFF_DATA + unat sz * SHM_BUFFER_CNT < 2 ^ 64"
  shows "unat (FULL_SIZE sz) = OFF_DATA + unat sz * SHM_BUFFER_CNT"
proof -
  have "FULL_SIZE sz = of_nat (OFF_DATA + unat sz * SHM_BUFFER_CNT)"
    by (simp add: FULL_SIZE_def)
  then show ?thesis
    using assms by (simp only: unat_of_nat take_bit_nat_eq_self_iff) (simp add: take_bit_nat_eq_self)
qed

lemma full_size_wraps:
  assumes "2 ^ 64 \<le> OFF_DATA + unat sz * SHM_BUFFER_CNT"
  shows "unat (FULL_SIZE sz) < OFF_DATA + unat sz * SHM_BUFFER_CNT"
  by (rule order_less_le_trans [OF unsigned_less]) (use assms in simp)

section \<open>Loads and stores\<close>

definition load :: "nat \<Rightarrow> nat \<Rightarrow> u8 list \<Rightarrow> u64" where
  "load n off bs = word_of (take n (drop off bs))"

definition store :: "nat \<Rightarrow> nat \<Rightarrow> u64 \<Rightarrow> u8 list \<Rightarrow> u8 list" where
  "store n off v bs = take off bs @ bytes_of n v @ drop (off + n) bs"

lemma length_store [simp]: "off + n \<le> length bs \<Longrightarrow> length (store n off v bs) = length bs"
  by (simp add: store_def)

lemma load_store_same: "off + n \<le> length bs \<Longrightarrow> load n off (store n off v bs) = take_bit (8 * n) v"
  by (simp add: load_def store_def word_of_bytes_of)

lemma nth_store:
  assumes "off + n \<le> length bs" "j < off \<or> off + n \<le> j" "j < length bs"
  shows "store n off v bs ! j = bs ! j"
  using assms by (auto simp: store_def nth_append)

lemma load_cong:
  assumes "length bs = length cs" "\<And>j. off \<le> j \<Longrightarrow> j < off + n \<Longrightarrow> j < length bs \<Longrightarrow> bs ! j = cs ! j"
  shows "load n off bs = load n off cs"
proof -
  have "take n (drop off bs) = take n (drop off cs)"
    using assms by (intro nth_equalityI) auto
  then show ?thesis by (simp add: load_def)
qed

lemma load_store_other:
  assumes "off + n \<le> length bs" "off' + n' \<le> off \<or> off + n \<le> off'"
  shows "load n' off' (store n off v bs) = load n' off' bs"
  using assms by (intro load_cong) (auto simp: nth_store)

lemma drop_store:
  assumes "off + n \<le> length bs" "off + n \<le> k"
  shows "drop k (store n off v bs) = drop k bs"
  using assms by (intro nth_equalityI) (auto simp: nth_store)

lemma word_of_zeros [simp]: "word_of (replicate n 0) = 0"
  by (induction n) auto

lemma load_zeros [simp]: "load n off (replicate m 0) = 0"
  by (simp add: load_def take_replicate)

text \<open>Storing what is there changes nothing.\<close>

lemma store_zeros:
  assumes "off + n \<le> length bs" "\<And>j. off \<le> j \<Longrightarrow> j < off + n \<Longrightarrow> bs ! j = 0"
  shows "store n off 0 bs = bs"
proof (rule nth_equalityI)
  fix j assume "j < length (store n off 0 bs)"
  then have j: "j < length bs" using assms(1) by simp
  show "store n off 0 bs ! j = bs ! j"
  proof (cases "j < off \<or> off + n \<le> j")
    case False
    then have "store n off 0 bs ! j = 0"
      using assms(1) j by (auto simp: store_def nth_append)
    then show ?thesis using assms(2) False by simp
  qed (use assms(1) j in \<open>simp add: nth_store\<close>)
qed (use assms(1) in simp)

section \<open>The initialised object\<close>

text \<open>What \<open>link_host_variable\<close> stores in a new object, one atomic store at a time.\<close>

definition init_stores :: "(nat \<times> nat \<times> u64) list" where
  "init_stores =
     (4, OFF_CREATED, 0) # (8, OFF_FLAGS, initial_flags) #
     map (\<lambda>i. (8, OFF_TIMESTAMP i, 0)) [0..<SHM_BUFFER_CNT] @ [(4, OFF_CREATED, 1)]"

fun do_stores :: "(nat \<times> nat \<times> u64) list \<Rightarrow> u8 list \<Rightarrow> u8 list" where
  "do_stores [] bs = bs"
| "do_stores ((n, off, v) # ws) bs = do_stores ws (store n off v bs)"

text \<open>The fields that bytes stand for.\<close>

definition created_of :: "u8 list \<Rightarrow> u64" where
  "created_of bs = load 4 OFF_CREATED bs"

definition flags_of :: "u8 list \<Rightarrow> u64" where
  "flags_of bs = load 8 OFF_FLAGS bs"

definition timestamps_of :: "u8 list \<Rightarrow> u64 list" where
  "timestamps_of bs = map (\<lambda>i. load 8 (OFF_TIMESTAMP i) bs) [0..<SHM_BUFFER_CNT]"

definition data_of :: "u8 list \<Rightarrow> u8 list" where
  "data_of bs = drop OFF_DATA bs"

lemmas field_defs = created_of_def flags_of_def timestamps_of_def data_of_def

definition fresh_object :: "nat \<Rightarrow> u8 list" where
  "fresh_object n = replicate n 0"

definition flagged_object :: "nat \<Rightarrow> u8 list" where
  "flagged_object n = store 8 OFF_FLAGS initial_flags (fresh_object n)"

definition linked_object :: "nat \<Rightarrow> u8 list" where
  "linked_object n = store 4 OFF_CREATED 1 (flagged_object n)"

lemma length_objects:
  assumes "OFF_DATA \<le> n"
  shows "length (fresh_object n) = n" "length (flagged_object n) = n" "length (linked_object n) = n"
  using assms by (simp_all add: fresh_object_def flagged_object_def linked_object_def off_defs)

lemma stores_on_fresh:
  assumes "OFF_DATA \<le> n"
  shows "store 4 OFF_CREATED 0 (fresh_object n) = fresh_object n"
    and "i < SHM_BUFFER_CNT \<Longrightarrow> store 8 (OFF_TIMESTAMP i) 0 (flagged_object n) = flagged_object n"
proof -
  show "store 4 OFF_CREATED 0 (fresh_object n) = fresh_object n"
    using assms by (intro store_zeros) (auto simp: fresh_object_def off_defs)
  assume "i < SHM_BUFFER_CNT"
  then show "store 8 (OFF_TIMESTAMP i) 0 (flagged_object n) = flagged_object n"
    using assms
    by (intro store_zeros)
      (auto simp: flagged_object_def fresh_object_def off_defs nth_store)
qed

lemma created_fresh:
  assumes "OFF_DATA \<le> n"
  shows "created_of (fresh_object n) = 0" "created_of (flagged_object n) = 0"
    "created_of (linked_object n) = 1"
  using assms length_objects [OF assms]
  by (simp_all add: created_of_def linked_object_def flagged_object_def load_store_same
      load_store_other fresh_object_def off_defs)

lemma init_stores_linked:
  assumes "OFF_DATA \<le> n"
  shows "do_stores init_stores (fresh_object n) = linked_object n"
  using stores_on_fresh [OF assms] flagged_object_def [of n]
  by (simp add: init_stores_def linked_object_def SHM_BUFFER_CNT_def numeral_eq_Suc)

end
