(* ===== verification/Host_Variable_Link.thy ===== *)
theory Host_Variable_Link
  imports Shm_Layout
begin

text \<open>
  Creating, opening and leaving a host variable: \<open>link_host_variable\<close> and
  \<open>unlink_host_variable\<close> (src/host_variable.c), run by any number of processes at once.
  One step of a process is one system call or one atomic access; the scheduler interleaves
  the processes and decides which system calls fail. The kernel keeps the names and the
  shared memory objects; a descriptor is open on an object, and every process keeps the
  list of its open descriptors and of its mappings.
\<close>

section \<open>States\<close>

datatype shm_ptr = NULL | MAP_FAILED | Mapped nat

text \<open>
  The program points of \<open>link_host_variable\<close>: one per system call, \<open>LkInit k\<close> before the
  \<open>k\<close>-th store of the initialisation, \<open>LkWait\<close> in the polling loop, \<open>LkFail*\<close> after the
  label \<open>FAILED\<close>. \<open>LkFault\<close> is an access outside the object.
\<close>

datatype lk_pc =
    LkIdle
  | LkOpenNew
  | LkOpenOld
  | LkTruncate
  | LkMap
  | LkInit nat
  | LkWait
  | LkClose
  | LkFailClose
  | LkFailUnmap
  | LkFailUnlink
  | LkRet shm_ptr
  | LkUnlinked int
  | LkFault

text \<open>
  A process: the arguments \<open>name\<close> and \<open>size\<close>, the locals \<open>fd\<close> (\<open>None\<close> is -1),
  \<open>is_create\<close> and \<open>p\<close>, its open descriptors and its mappings.
\<close>

record lk_thread =
  lk_name :: string
  lk_size :: u64
  lk_pc :: lk_pc
  lk_fd :: "nat option"
  lk_create :: bool
  lk_p :: shm_ptr
  lk_fds :: "nat list"
  lk_maps :: "nat list"

record lk_sys =
  shm_names :: "string \<Rightarrow> nat option"
  shm_objs :: "u8 list list"
  linkers :: "lk_thread list"

section \<open>Steps\<close>

text \<open>\<open>ftruncate\<close>: cut, or extend with zeros.\<close>

definition ftruncate :: "nat \<Rightarrow> u8 list \<Rightarrow> u8 list" where
  "ftruncate n bs = take n bs @ replicate (n - length bs) 0"

text \<open>
  One step of \<open>link_host_variable\<close>; \<open>err\<close> says that the system call of the step fails.
  \<open>ftruncate\<close> takes a signed length, and \<open>mmap\<close> no empty one.
\<close>

fun lk_step :: "bool \<Rightarrow> lk_pc \<Rightarrow> lk_sys \<Rightarrow> lk_thread \<Rightarrow> lk_sys \<times> lk_thread" where
  "lk_step err LkOpenNew s th =
     (if err then (s, th\<lparr>lk_pc := LkFailClose\<rparr>)
      else case shm_names s (lk_name th) of
        Some ob \<Rightarrow> (s, th\<lparr>lk_pc := LkOpenOld\<rparr>)
      | None \<Rightarrow>
          let ob = length (shm_objs s) in
          (s\<lparr>shm_names := (shm_names s)(lk_name th \<mapsto> ob), shm_objs := shm_objs s @ [[]]\<rparr>,
           th\<lparr>lk_fd := Some ob, lk_fds := ob # lk_fds th, lk_pc := LkTruncate\<rparr>))"
| "lk_step err LkOpenOld s th =
     (case (if err then None else shm_names s (lk_name th)) of
        None \<Rightarrow> (s, th\<lparr>lk_create := False, lk_pc := LkFailClose\<rparr>)
      | Some ob \<Rightarrow> (s, th\<lparr>lk_create := False, lk_fd := Some ob, lk_fds := ob # lk_fds th,
                         lk_pc := LkTruncate\<rparr>))"
| "lk_step err LkTruncate s th =
     (case lk_fd th of
        None \<Rightarrow> (s, th\<lparr>lk_pc := LkFailClose\<rparr>)
      | Some ob \<Rightarrow>
          let full_size = FULL_SIZE (lk_size th) in
          if err \<or> bit full_size 63 then (s, th\<lparr>lk_pc := LkFailClose\<rparr>)
          else (s\<lparr>shm_objs := (shm_objs s)[ob := ftruncate (unat full_size) (shm_objs s ! ob)]\<rparr>,
                th\<lparr>lk_pc := LkMap\<rparr>))"
| "lk_step err LkMap s th =
     (case lk_fd th of
        None \<Rightarrow> (s, th\<lparr>lk_p := MAP_FAILED, lk_pc := LkFailClose\<rparr>)
      | Some ob \<Rightarrow>
          if err \<or> FULL_SIZE (lk_size th) = 0
          then (s, th\<lparr>lk_p := MAP_FAILED, lk_pc := LkFailClose\<rparr>)
          else (s, th\<lparr>lk_p := Mapped ob, lk_maps := ob # lk_maps th,
                      lk_pc := if lk_create th then LkInit 0 else LkWait\<rparr>))"
| "lk_step err (LkInit k) s th =
     (case (lk_p th, init_stores ! k) of
        (Mapped ob, (n, off, v)) \<Rightarrow>
          if off + n \<le> length (shm_objs s ! ob)
          then (s\<lparr>shm_objs := (shm_objs s)[ob := store n off v (shm_objs s ! ob)]\<rparr>,
                th\<lparr>lk_pc := if k + 1 < length init_stores then LkInit (k + 1) else LkClose\<rparr>)
          else (s, th\<lparr>lk_pc := LkFault\<rparr>)
      | _ \<Rightarrow> (s, th\<lparr>lk_pc := LkFault\<rparr>))"
| "lk_step err LkWait s th =
     (case lk_p th of
        Mapped ob \<Rightarrow>
          if OFF_CREATED + 4 \<le> length (shm_objs s ! ob)
          then if created_of (shm_objs s ! ob) = 0 then (s, th) else (s, th\<lparr>lk_pc := LkClose\<rparr>)
          else (s, th\<lparr>lk_pc := LkFault\<rparr>)
      | _ \<Rightarrow> (s, th\<lparr>lk_pc := LkFault\<rparr>))"
| "lk_step err LkClose s th =
     (s, th\<lparr>lk_fds := (case lk_fd th of None \<Rightarrow> lk_fds th | Some ob \<Rightarrow> remove1 ob (lk_fds th)),
            lk_pc := LkRet (lk_p th)\<rparr>)"
| "lk_step err LkFailClose s th =
     (s, th\<lparr>lk_fds := (case lk_fd th of None \<Rightarrow> lk_fds th | Some ob \<Rightarrow> remove1 ob (lk_fds th)),
            lk_pc := LkFailUnmap\<rparr>)"
| "lk_step err LkFailUnmap s th =
     (s, th\<lparr>lk_maps := (case lk_p th of Mapped ob \<Rightarrow> remove1 ob (lk_maps th) | _ \<Rightarrow> lk_maps th),
            lk_pc := LkFailUnlink\<rparr>)"
| "lk_step err LkFailUnlink s th =
     (if err then s else s\<lparr>shm_names := (shm_names s)(lk_name th := None)\<rparr>,
      th\<lparr>lk_pc := LkRet NULL\<rparr>)"
| "lk_step err _ s th = (s, th)"

text \<open>\<open>unlink_host_variable\<close>: only \<open>munmap\<close>; the name stays.\<close>

fun unlink_host_variable :: "bool \<Rightarrow> lk_thread \<Rightarrow> lk_thread" where
  "unlink_host_variable err th =
     (case lk_pc th of
        LkRet (Mapped ob) \<Rightarrow>
          if err then th\<lparr>lk_pc := LkUnlinked (-1)\<rparr>
          else th\<lparr>lk_maps := remove1 ob (lk_maps th), lk_pc := LkUnlinked 0\<rparr>
      | _ \<Rightarrow> th)"

text \<open>
  The actions: a process calls \<open>link_host_variable\<close>, makes a step of it, leaves the
  variable, or, once linked, stores a byte of the flags, the timestamps or the data (what
  reads and writes do).
\<close>

datatype lk_action =
    LkBegin nat
  | LkStep nat bool
  | LkUnlink nat bool
  | LkUse nat nat u8

fun lk_act :: "lk_sys \<Rightarrow> lk_action \<Rightarrow> lk_sys" where
  "lk_act s (LkBegin i) =
     (if i < length (linkers s) \<and> lk_pc (linkers s ! i) = LkIdle
      then s\<lparr>linkers := (linkers s)[i := (linkers s ! i)
             \<lparr>lk_fd := None, lk_create := True, lk_p := NULL, lk_pc := LkOpenNew\<rparr>]\<rparr>
      else s)"
| "lk_act s (LkStep i err) =
     (if i < length (linkers s)
      then let (s', th') = lk_step err (lk_pc (linkers s ! i)) s (linkers s ! i)
           in s'\<lparr>linkers := (linkers s)[i := th']\<rparr>
      else s)"
| "lk_act s (LkUnlink i err) =
     (if i < length (linkers s)
      then s\<lparr>linkers := (linkers s)[i := unlink_host_variable err (linkers s ! i)]\<rparr> else s)"
| "lk_act s (LkUse i off b) =
     (if i < length (linkers s)
      then case lk_pc (linkers s ! i) of
          LkRet (Mapped ob) \<Rightarrow>
            if OFF_FLAGS \<le> off \<and> off < length (shm_objs s ! ob)
            then s\<lparr>shm_objs := (shm_objs s)[ob := (shm_objs s ! ob)[off := b]]\<rparr> else s
        | _ \<Rightarrow> s
      else s)"

text \<open>No name exists yet, and every process will link its name with its size.\<close>

definition lk_init :: "(string \<times> u64) list \<Rightarrow> lk_sys" where
  "lk_init ls =
     \<lparr>shm_names = (\<lambda>_. None), shm_objs = [],
      linkers = map (\<lambda>(x, sz). \<lparr>lk_name = x, lk_size = sz, lk_pc = LkIdle, lk_fd = None,
                  lk_create = True, lk_p = NULL, lk_fds = [], lk_maps = []\<rparr>) ls\<rparr>"

abbreviation lk_run :: "lk_sys \<Rightarrow> lk_action list \<Rightarrow> lk_sys" where
  "lk_run \<equiv> run lk_act"

end
