(* ===== verification/Host_Variable_Link_Inv.thy ===== *)
theory Host_Variable_Link_Inv
  imports Host_Variable_Link
begin

text \<open>
  The invariant of the processes that link host variables of one size: which process
  creates an object (at most one), how far its initialisation is, what a process that
  opened the object may rely on, and which descriptors and mappings every process holds.
\<close>

section \<open>The invariant\<close>

definition size_ok :: "u64 \<Rightarrow> bool" where
  "size_ok sz \<longleftrightarrow> OFF_DATA + unat sz * SHM_BUFFER_CNT < 2 ^ 63"

definition full_len :: "u64 \<Rightarrow> nat" where
  "full_len sz = OFF_DATA + unat sz * SHM_BUFFER_CNT"

lemma full_size_ok:
  assumes "size_ok sz"
  shows "unat (FULL_SIZE sz) = full_len sz" "\<not> bit (FULL_SIZE sz) 63" "FULL_SIZE sz \<noteq> 0"
proof -
  show *: "unat (FULL_SIZE sz) = full_len sz"
    unfolding full_len_def by (rule full_size_exact) (use assms in \<open>simp add: size_ok_def\<close>)
  show "FULL_SIZE sz \<noteq> 0"
    using * by (auto simp: full_len_def OFF_DATA_def)
  have "unat (FULL_SIZE sz) < 2 ^ 63"
    using * assms by (simp add: size_ok_def full_len_def)
  then have "FULL_SIZE sz = take_bit 63 (FULL_SIZE sz)"
    by (simp add: word_unat_eq_iff unsigned_take_bit_eq take_bit_nat_eq_self)
  then show "\<not> bit (FULL_SIZE sz) 63"
    by (metis bit_take_bit_iff less_irrefl)
qed

text \<open>An object is live once its creation is published.\<close>

definition live :: "u8 list \<Rightarrow> bool" where
  "live bs \<longleftrightarrow> OFF_DATA \<le> length bs \<and> created_of bs = 1"

definition obj_ok :: "nat \<Rightarrow> u8 list \<Rightarrow> bool" where
  "obj_ok n bs \<longleftrightarrow>
     bs = [] \<or> bs = fresh_object n \<or> bs = flagged_object n \<or> live bs \<and> length bs = n"

definition stage :: "nat \<Rightarrow> nat \<Rightarrow> u8 list" where
  "stage n k = (if k \<le> 1 then fresh_object n else flagged_object n)"

text \<open>What a process may rely on for the object it works on.\<close>

fun view_ok :: "nat \<Rightarrow> bool \<Rightarrow> lk_pc \<Rightarrow> u8 list \<Rightarrow> bool" where
  "view_ok n cr LkTruncate bs \<longleftrightarrow> (cr \<longrightarrow> bs = [] \<or> bs = fresh_object n)"
| "view_ok n cr LkMap bs \<longleftrightarrow> length bs = n \<and> (cr \<longrightarrow> bs = fresh_object n)"
| "view_ok n cr (LkInit k) bs \<longleftrightarrow> bs = stage n k"
| "view_ok n cr LkWait bs \<longleftrightarrow> length bs = n"
| "view_ok n cr LkClose bs \<longleftrightarrow> length bs = n \<and> live bs"
| "view_ok n cr (LkRet (Mapped _)) bs \<longleftrightarrow> length bs = n \<and> live bs"
| "view_ok n cr _ bs \<longleftrightarrow> True"

fun working_pc :: "lk_pc \<Rightarrow> bool" where
  "working_pc LkTruncate = True"
| "working_pc LkMap = True"
| "working_pc (LkInit _) = True"
| "working_pc LkWait = True"
| "working_pc LkClose = True"
| "working_pc _ = False"

definition object_of :: "lk_thread \<Rightarrow> nat option" where
  "object_of th =
     (if working_pc (lk_pc th) then lk_fd th
      else case lk_pc th of LkRet (Mapped ob) \<Rightarrow> Some ob | _ \<Rightarrow> None)"

fun creating_pc :: "lk_pc \<Rightarrow> bool" where
  "creating_pc LkTruncate = True"
| "creating_pc LkMap = True"
| "creating_pc (LkInit _) = True"
| "creating_pc _ = False"

definition creating :: "lk_thread \<Rightarrow> nat option" where
  "creating th = (if creating_pc (lk_pc th) \<and> lk_create th then lk_fd th else None)"

text \<open>The descriptors and mappings a process holds at each program point.\<close>

fun held_ok :: "lk_thread \<Rightarrow> lk_pc \<Rightarrow> bool" where
  "held_ok th LkIdle \<longleftrightarrow> lk_fds th = [] \<and> lk_maps th = []"
| "held_ok th LkOpenNew \<longleftrightarrow> lk_fd th = None \<and> lk_p th = NULL \<and> lk_fds th = [] \<and> lk_maps th = []"
| "held_ok th LkOpenOld \<longleftrightarrow> lk_fd th = None \<and> lk_p th = NULL \<and> lk_fds th = [] \<and> lk_maps th = []"
| "held_ok th LkTruncate \<longleftrightarrow>
     (\<exists>ob. lk_fd th = Some ob \<and> lk_fds th = [ob]) \<and> lk_p th = NULL \<and> lk_maps th = []"
| "held_ok th LkMap \<longleftrightarrow>
     (\<exists>ob. lk_fd th = Some ob \<and> lk_fds th = [ob]) \<and> lk_p th = NULL \<and> lk_maps th = []"
| "held_ok th (LkInit k) \<longleftrightarrow> k < length init_stores \<and> lk_create th \<and>
     (\<exists>ob. lk_fd th = Some ob \<and> lk_fds th = [ob] \<and> lk_p th = Mapped ob \<and> lk_maps th = [ob])"
| "held_ok th LkWait \<longleftrightarrow>
     (\<exists>ob. lk_fd th = Some ob \<and> lk_fds th = [ob] \<and> lk_p th = Mapped ob \<and> lk_maps th = [ob])"
| "held_ok th LkClose \<longleftrightarrow>
     (\<exists>ob. lk_fd th = Some ob \<and> lk_fds th = [ob] \<and> lk_p th = Mapped ob \<and> lk_maps th = [ob])"
| "held_ok th LkFailClose \<longleftrightarrow>
     lk_fds th = (case lk_fd th of None \<Rightarrow> [] | Some ob \<Rightarrow> [ob]) \<and>
     lk_p th \<in> {NULL, MAP_FAILED} \<and> lk_maps th = []"
| "held_ok th LkFailUnmap \<longleftrightarrow> lk_fds th = [] \<and> lk_p th \<in> {NULL, MAP_FAILED} \<and> lk_maps th = []"
| "held_ok th LkFailUnlink \<longleftrightarrow> lk_fds th = [] \<and> lk_maps th = []"
| "held_ok th (LkRet NULL) \<longleftrightarrow> lk_fds th = [] \<and> lk_maps th = []"
| "held_ok th (LkRet MAP_FAILED) \<longleftrightarrow> False"
| "held_ok th (LkRet (Mapped ob)) \<longleftrightarrow> lk_fds th = [] \<and> lk_maps th = [ob]"
| "held_ok th (LkUnlinked r) \<longleftrightarrow> lk_fds th = [] \<and> (r = 0 \<longrightarrow> lk_maps th = [])"
| "held_ok th LkFault \<longleftrightarrow> False"

definition lk_thread_ok :: "u64 \<Rightarrow> u8 list list \<Rightarrow> lk_thread \<Rightarrow> bool" where
  "lk_thread_ok sz objs th \<longleftrightarrow>
     lk_size th = sz \<and> held_ok th (lk_pc th) \<and>
     (\<forall>ob. object_of th = Some ob \<longrightarrow>
        ob < length objs \<and> view_ok (full_len sz) (lk_create th) (lk_pc th) (objs ! ob))"

definition one_creator :: "lk_thread list \<Rightarrow> bool" where
  "one_creator ths \<longleftrightarrow>
     (\<forall>i j ob. i < length ths \<longrightarrow> j < length ths \<longrightarrow> creating (ths ! i) = Some ob \<longrightarrow>
        creating (ths ! j) = Some ob \<longrightarrow> i = j)"

definition names_ok :: "(string \<Rightarrow> nat option) \<Rightarrow> nat \<Rightarrow> bool" where
  "names_ok names n \<longleftrightarrow> (\<forall>x ob. names x = Some ob \<longrightarrow> ob < n)"

definition lk_inv :: "u64 \<Rightarrow> lk_sys \<Rightarrow> bool" where
  "lk_inv sz s \<longleftrightarrow>
     size_ok sz \<and> names_ok (shm_names s) (length (shm_objs s)) \<and>
     (\<forall>bs \<in> set (shm_objs s). obj_ok (full_len sz) bs) \<and>
     (\<forall>th \<in> set (linkers s). lk_thread_ok sz (shm_objs s) th) \<and> one_creator (linkers s)"

section \<open>How objects may change\<close>

text \<open>
  What everybody may do to an object (extend a new one, use a live one), and what only its
  creator may do besides (a change of content at full length that is not live yet).
\<close>

definition calm :: "nat \<Rightarrow> u8 list \<Rightarrow> u8 list \<Rightarrow> bool" where
  "calm n bs bs' \<longleftrightarrow>
     bs' = bs \<or> bs = [] \<and> bs' = fresh_object n \<or>
     live bs \<and> live bs' \<and> length bs = n \<and> length bs' = n"

definition building :: "nat \<Rightarrow> u8 list \<Rightarrow> u8 list \<Rightarrow> bool" where
  "building n bs bs' \<longleftrightarrow> length bs = n \<and> length bs' = n \<and> \<not> live bs"

lemma full_len_data: "OFF_DATA \<le> full_len sz"
  by (simp add: full_len_def)

lemma not_live [simp]:
  "\<not> live []" "\<not> live (fresh_object (full_len sz))" "\<not> live (flagged_object (full_len sz))"
  "\<not> live (stage (full_len sz) k)"
  using created_fresh [OF full_len_data] by (auto simp: live_def stage_def OFF_DATA_def)

lemma live_linked: "live (linked_object (full_len sz))"
  using created_fresh [OF full_len_data] length_objects [OF full_len_data] full_len_data
  by (simp add: live_def)

lemma length_stage [simp]: "length (stage (full_len sz) k) = full_len sz"
  using length_objects [OF full_len_data] by (simp add: stage_def)

lemma view_ok_calm:
  assumes "view_ok (full_len sz) cr pc bs" "calm (full_len sz) bs bs'"
  shows "view_ok (full_len sz) cr pc bs'"
proof -
  have empty: "full_len sz \<noteq> 0"
    using full_len_data [of sz] by (auto simp: OFF_DATA_def)
  have "stage (full_len sz) k \<noteq> []" "[] \<noteq> stage (full_len sz) k" for k
    using length_stage [of sz k] empty by (metis list.size(3))+
  then have *: "bs = [] \<Longrightarrow> bs' = fresh_object (full_len sz) \<Longrightarrow> ?thesis"
    using assms(1) empty length_objects [OF full_len_data]
    by (cases "(full_len sz, cr, pc, bs)" rule: view_ok.cases) auto
  have "live bs \<Longrightarrow> live bs' \<Longrightarrow> length bs' = length bs \<Longrightarrow> ?thesis"
    using assms(1) not_live(2) [of sz] not_live(3) [of sz] not_live(4) [of sz]
    by (cases "(full_len sz, cr, pc, bs)" rule: view_ok.cases) (auto simp del: not_live)
  with * show ?thesis using assms by (auto simp: calm_def)
qed

lemma view_ok_building:
  assumes "view_ok n cr pc bs" "building n bs bs'" "\<not> (cr \<and> creating_pc pc)" "\<And>k. pc = LkInit k \<Longrightarrow> cr"
  shows "view_ok n cr pc bs'"
  using assms by (cases "(n, cr, pc, bs)" rule: view_ok.cases) (auto simp: building_def)

section \<open>Preservation\<close>

text \<open>
  A change of the system by process \<open>i\<close>: objects evolve calmly, except for the one that
  \<open>i\<close> is creating.
\<close>

lemma lk_view_kept:
  assumes inv: "lk_inv sz s" and i: "i < length (linkers s)" and j: "j < length (linkers s)" "j \<noteq> i"
    and len: "length (shm_objs s) \<le> length objs'"
    and step: "\<And>ob. ob < length (shm_objs s) \<Longrightarrow>
        calm (full_len sz) (shm_objs s ! ob) (objs' ! ob) \<or>
        creating (linkers s ! i) = Some ob \<and> building (full_len sz) (shm_objs s ! ob) (objs' ! ob)"
  shows "lk_thread_ok sz objs' (linkers s ! j)"
proof -
  let ?n = "full_len sz" and ?t = "linkers s ! j"
  have ok: "lk_thread_ok sz (shm_objs s) ?t"
    using inv j by (simp add: lk_inv_def)
  have "view_ok ?n (lk_create ?t) (lk_pc ?t) (objs' ! ob)" and "ob < length objs'"
    if ob: "object_of ?t = Some ob" for ob
  proof -
    have v: "ob < length (shm_objs s)" "view_ok ?n (lk_create ?t) (lk_pc ?t) (shm_objs s ! ob)"
      using ok ob by (auto simp: lk_thread_ok_def)
    then show "ob < length objs'" using len by simp
    show "view_ok ?n (lk_create ?t) (lk_pc ?t) (objs' ! ob)"
      using step [OF v(1)]
    proof
      assume "calm ?n (shm_objs s ! ob) (objs' ! ob)"
      then show ?thesis by (rule view_ok_calm [OF v(2)])
    next
      assume b: "creating (linkers s ! i) = Some ob \<and> building ?n (shm_objs s ! ob) (objs' ! ob)"
      then have "creating ?t \<noteq> Some ob"
        using inv i j unfolding lk_inv_def one_creator_def by blast
      then have "\<not> (lk_create ?t \<and> creating_pc (lk_pc ?t))"
        using ob by (cases "lk_pc ?t") (auto simp: creating_def object_of_def)
      moreover have "lk_create ?t" if "lk_pc ?t = LkInit k" for k
        using ok that by (simp add: lk_thread_ok_def)
      ultimately show ?thesis
        using view_ok_building [OF v(2)] b by blast
    qed
  qed
  then show ?thesis using ok by (simp add: lk_thread_ok_def)
qed

lemma one_creator_update:
  assumes inv: "lk_inv sz s" and i: "i < length (linkers s)"
    and cr: "creating th' = None \<or> creating th' = creating (linkers s ! i) \<or>
        creating th' = Some (length (shm_objs s))"
  shows "one_creator ((linkers s)[i := th'])"
proof -
  have old: "one_creator (linkers s)" using inv by (simp add: lk_inv_def)
  have range: "creating (linkers s ! j) \<noteq> Some (length (shm_objs s))" if "j < length (linkers s)" for j
  proof
    assume c: "creating (linkers s ! j) = Some (length (shm_objs s))"
    then have "object_of (linkers s ! j) = Some (length (shm_objs s))"
      by (cases "lk_pc (linkers s ! j)") (auto simp: creating_def object_of_def split: if_splits)
    then show False
      using inv that by (auto simp: lk_inv_def lk_thread_ok_def)
  qed
  have new: "creating (linkers s ! j) \<noteq> Some ob"
    if "j < length (linkers s)" "j \<noteq> i" "creating th' = Some ob" for j ob
    using cr that range [of j] old i unfolding one_creator_def
    by (metis option.inject option.distinct(1))
  have "j = k" if "j < length (linkers s)" "k < length (linkers s)"
    "creating ((linkers s)[i := th'] ! j) = Some ob" "creating ((linkers s)[i := th'] ! k) = Some ob" for j k ob
    using that new [of j ob] new [of k ob] old i unfolding one_creator_def
    by (auto simp: nth_list_update split: if_splits)
  then show ?thesis unfolding one_creator_def by auto
qed

lemma lk_inv_change:
  assumes inv: "lk_inv sz s" and i: "i < length (linkers s)"
    and len: "length (shm_objs s) \<le> length objs'"
    and names: "names_ok names' (length objs')"
    and objs: "\<forall>bs \<in> set objs'. obj_ok (full_len sz) bs"
    and step: "\<And>ob. ob < length (shm_objs s) \<Longrightarrow>
        calm (full_len sz) (shm_objs s ! ob) (objs' ! ob) \<or>
        creating (linkers s ! i) = Some ob \<and> building (full_len sz) (shm_objs s ! ob) (objs' ! ob)"
    and th: "lk_thread_ok sz objs' th'"
    and cr: "creating th' = None \<or> creating th' = creating (linkers s ! i) \<or>
        creating th' = Some (length (shm_objs s))"
    and s': "s' = \<lparr>shm_names = names', shm_objs = objs', linkers = (linkers s)[i := th']\<rparr>"
  shows "lk_inv sz s'"
proof -
  have "lk_thread_ok sz objs' t" if "t \<in> set ((linkers s)[i := th'])" for t
  proof -
    from that obtain j where j: "j < length (linkers s)" "t = (linkers s)[i := th'] ! j"
      by (auto simp: in_set_conv_nth)
    then show ?thesis using th lk_view_kept [OF inv i j(1) _ len step] by (cases "j = i") auto
  qed
  then show ?thesis
    using inv names objs s' one_creator_update [OF inv i cr] by (simp add: lk_inv_def)
qed

text \<open>A step that leaves the objects alone, and one that changes one object.\<close>

lemma lk_inv_local:
  assumes inv: "lk_inv sz s" and i: "i < length (linkers s)"
    and th: "lk_thread_ok sz (shm_objs s) th'"
    and cr: "creating th' = None \<or> creating th' = creating (linkers s ! i)"
    and names: "names_ok names' (length (shm_objs s))"
  shows "lk_inv sz (s\<lparr>shm_names := names', linkers := (linkers s)[i := th']\<rparr>)"
  by (rule lk_inv_change [OF inv i _ names _ _ th])
    (use inv cr in \<open>auto simp: lk_inv_def calm_def\<close>)

lemma lk_inv_object:
  assumes inv: "lk_inv sz s" and i: "i < length (linkers s)" and ob: "ob < length (shm_objs s)"
    and bs: "obj_ok (full_len sz) bs"
    and step: "calm (full_len sz) (shm_objs s ! ob) bs \<or>
      creating (linkers s ! i) = Some ob \<and> building (full_len sz) (shm_objs s ! ob) bs"
    and th: "lk_thread_ok sz ((shm_objs s)[ob := bs]) th'"
    and cr: "creating th' = None \<or> creating th' = creating (linkers s ! i)"
  shows "lk_inv sz (s\<lparr>shm_objs := (shm_objs s)[ob := bs], linkers := (linkers s)[i := th']\<rparr>)"
proof (rule lk_inv_change [OF inv i _ _ _ _ th])
  show "names_ok (shm_names s) (length ((shm_objs s)[ob := bs]))"
    using inv by (simp add: lk_inv_def)
  show "\<forall>b \<in> set ((shm_objs s)[ob := bs]). obj_ok (full_len sz) b"
    using inv bs by (intro ball_update) (simp_all add: lk_inv_def)
  fix o' assume "o' < length (shm_objs s)"
  then show "calm (full_len sz) (shm_objs s ! o') ((shm_objs s)[ob := bs] ! o') \<or>
      creating (linkers s ! i) = Some o' \<and>
      building (full_len sz) (shm_objs s ! o') ((shm_objs s)[ob := bs] ! o')"
    using step ob by (cases "o' = ob") (auto simp: calm_def)
qed (use cr in auto)

lemma ftruncate_ok:
  assumes "obj_ok (full_len sz) bs"
  shows "ftruncate (full_len sz) bs = (if bs = [] then fresh_object (full_len sz) else bs)"
  using assms length_objects [OF full_len_data]
  by (auto simp: obj_ok_def ftruncate_def fresh_object_def)

lemma lk_invD:
  assumes "lk_inv sz s" "i < length (linkers s)"
  shows "lk_thread_ok sz (shm_objs s) (linkers s ! i)" "size_ok sz"
    "names_ok (shm_names s) (length (shm_objs s))"
    "ob < length (shm_objs s) \<Longrightarrow> obj_ok (full_len sz) (shm_objs s ! ob)"
  using assms by (auto simp: lk_inv_def)

text \<open>The stores of the initialisation, one by one.\<close>

lemma length_init_stores: "length init_stores = 7"
  by (simp add: init_stores_def SHM_BUFFER_CNT_def)

lemma init_store_step:
  assumes "k < 7" "init_stores ! k = (n, off, v)"
  shows "off + n \<le> full_len sz"
    "store n off v (stage (full_len sz) k) =
       (if k < 6 then stage (full_len sz) (k + 1) else linked_object (full_len sz))"
proof -
  have k: "k \<in> {0, 1, 2, 3, 4, 5, 6}" using assms(1) by auto
  show "off + n \<le> full_len sz"
    using k assms(2) full_len_data [of sz]
    by (auto simp: init_stores_def off_defs upt_rec)
  have "store 8 (OFF_TIMESTAMP i) 0 (flagged_object (full_len sz)) = flagged_object (full_len sz)" if "i < 4" for i
    using stores_on_fresh(2) [OF full_len_data] that by (simp add: SHM_BUFFER_CNT_def)
  then show "store n off v (stage (full_len sz) k) =
       (if k < 6 then stage (full_len sz) (k + 1) else linked_object (full_len sz))"
    using k assms(2) stores_on_fresh(1) [OF full_len_data]
    by (auto simp: init_stores_def SHM_BUFFER_CNT_def upt_rec stage_def linked_object_def
        flagged_object_def [symmetric])
qed

lemma lk_inv_stay:
  assumes "lk_inv sz s" "i < length (linkers s)" "lk_thread_ok sz (shm_objs s) th'"
    "creating th' = None \<or> creating th' = creating (linkers s ! i)"
  shows "lk_inv sz (s\<lparr>linkers := (linkers s)[i := th']\<rparr>)"
  using lk_inv_local [OF assms lk_invD(3) [OF assms(1,2)]] by simp

section \<open>The steps\<close>

lemmas lk_thread_simps = lk_thread_ok_def object_of_def creating_def

lemma names_drop: "names_ok m n \<Longrightarrow> names_ok (m(x := None)) n"
  by (simp add: names_ok_def)

lemma open_new_inv:
  assumes inv: "lk_inv sz s" and i: "i < length (linkers s)" and pc: "lk_pc (linkers s ! i) = LkOpenNew"
  shows "lk_inv sz (lk_act s (LkStep i err))"
proof (cases "err \<or> shm_names s (lk_name (linkers s ! i)) \<noteq> None")
  case True
  note D = lk_invD [OF inv i]
  show ?thesis
    using True i inv pc D(1) by (auto simp: lk_thread_simps intro!: lk_inv_stay)
next
  case False
  let ?th = "linkers s ! i" and ?ob = "length (shm_objs s)"
  let ?th' = "?th\<lparr>lk_fd := Some ?ob, lk_fds := ?ob # lk_fds ?th, lk_pc := LkTruncate\<rparr>"
  note D = lk_invD [OF inv i]
  have "lk_act s (LkStep i err) = \<lparr>shm_names = (shm_names s)(lk_name ?th \<mapsto> ?ob),
      shm_objs = shm_objs s @ [[]], linkers = (linkers s)[i := ?th']\<rparr>"
    using False i pc by (simp add: Let_def)
  moreover have "names_ok ((shm_names s)(lk_name ?th \<mapsto> ?ob)) (length (shm_objs s @ [[]]))"
    using D(3) by (auto simp: names_ok_def less_Suc_eq)
  moreover have "lk_thread_ok sz (shm_objs s @ [[]]) ?th'"
    using D(1) pc by (simp add: lk_thread_simps)
  moreover have "\<forall>bs \<in> set (shm_objs s @ [[]]). obj_ok (full_len sz) bs"
    using inv by (auto simp: lk_inv_def obj_ok_def)
  moreover have "creating ?th' = None \<or> creating ?th' = creating ?th \<or> creating ?th' = Some ?ob"
    by (simp add: creating_def)
  ultimately show ?thesis
    by (intro lk_inv_change [OF inv i]) (auto simp: nth_append calm_def)
qed

lemma truncate_inv:
  assumes inv: "lk_inv sz s" and i: "i < length (linkers s)" and pc: "lk_pc (linkers s ! i) = LkTruncate"
  shows "lk_inv sz (lk_act s (LkStep i err))"
proof -
  let ?th = "linkers s ! i"
  note D = lk_invD [OF inv i]
  obtain ob where ob: "lk_fd ?th = Some ob" "lk_fds ?th = [ob]" "lk_p ?th = NULL" "lk_maps ?th = []"
      "ob < length (shm_objs s)" "view_ok (full_len sz) (lk_create ?th) LkTruncate (shm_objs s ! ob)"
    using D(1) pc by (auto simp: lk_thread_simps)
  note sz = full_size_ok [OF D(2)]
  note old = D(4) [OF ob(5)]
  let ?bs = "ftruncate (full_len sz) (shm_objs s ! ob)"
  note bs = ftruncate_ok [OF old]
  show ?thesis
  proof (cases err)
    case True
    then show ?thesis
      using i inv pc ob D(1) by (auto simp: lk_thread_simps intro!: lk_inv_stay)
  next
    case False
    have "length ?bs = full_len sz"
      using bs old length_objects [OF full_len_data] by (auto simp: obj_ok_def)
    then have "lk_thread_ok sz ((shm_objs s)[ob := ?bs]) (?th\<lparr>lk_pc := LkMap\<rparr>)"
      using D(1) pc ob bs by (auto simp: lk_thread_simps)
    then have "lk_inv sz (s\<lparr>shm_objs := (shm_objs s)[ob := ?bs], linkers := (linkers s)[i := ?th\<lparr>lk_pc := LkMap\<rparr>]\<rparr>)"
      using bs old pc by (intro lk_inv_object [OF inv i ob(5)]) (auto simp: obj_ok_def calm_def creating_def)
    then show ?thesis
      using False i pc ob D(1) sz by (simp add: Let_def lk_thread_ok_def)
  qed
qed

lemma init_inv:
  assumes inv: "lk_inv sz s" and i: "i < length (linkers s)" and pc: "lk_pc (linkers s ! i) = LkInit k"
  shows "lk_inv sz (lk_act s (LkStep i err))"
proof -
  let ?th = "linkers s ! i"
  note D = lk_invD [OF inv i]
  obtain ob where ob: "lk_fd ?th = Some ob" "lk_fds ?th = [ob]" "lk_p ?th = Mapped ob" "lk_maps ?th = [ob]"
      "ob < length (shm_objs s)" "shm_objs s ! ob = stage (full_len sz) k" "k < 7" "lk_create ?th"
    using D(1) pc by (auto simp: lk_thread_simps length_init_stores)
  obtain n off v where st: "init_stores ! k = (n, off, v)" by (cases "init_stores ! k")
  note w = init_store_step [OF ob(7) st]
  let ?bs = "store n off v (stage (full_len sz) k)"
  let ?th' = "?th\<lparr>lk_pc := if k + 1 < 7 then LkInit (k + 1) else LkClose\<rparr>"
  have len: "length ?bs = full_len sz"
    using w(1) by simp
  have "obj_ok (full_len sz) ?bs"
    using w(2) live_linked [of sz] length_objects(3) [OF full_len_data]
    by (auto simp: obj_ok_def stage_def)
  moreover have "creating ?th = Some ob" "building (full_len sz) (shm_objs s ! ob) ?bs"
    using pc ob len by (auto simp: creating_def building_def)
  moreover have "lk_thread_ok sz ((shm_objs s)[ob := ?bs]) ?th'"
    using D(1) pc ob w(2) live_linked [of sz] length_objects(3) [OF full_len_data]
    by (auto simp: lk_thread_simps length_init_stores)
  moreover have "creating ?th' = None \<or> creating ?th' = creating ?th"
    using pc by (auto simp: creating_def)
  ultimately have "lk_inv sz (s\<lparr>shm_objs := (shm_objs s)[ob := ?bs], linkers := (linkers s)[i := ?th']\<rparr>)"
    by (intro lk_inv_object [OF inv i ob(5)]) auto
  then show ?thesis
    using i pc ob st w(1) by (simp add: length_init_stores)
qed

lemma wait_inv:
  assumes inv: "lk_inv sz s" and i: "i < length (linkers s)" and pc: "lk_pc (linkers s ! i) = LkWait"
  shows "lk_inv sz (lk_act s (LkStep i err))"
proof -
  let ?th = "linkers s ! i"
  note D = lk_invD [OF inv i]
  obtain ob where ob: "lk_fd ?th = Some ob" "lk_fds ?th = [ob]" "lk_p ?th = Mapped ob" "lk_maps ?th = [ob]"
      "ob < length (shm_objs s)" "length (shm_objs s ! ob) = full_len sz"
    using D(1) pc by (auto simp: lk_thread_simps)
  have "live (shm_objs s ! ob)" if "created_of (shm_objs s ! ob) \<noteq> 0"
    using that D(4) [OF ob(5)] ob(6) created_fresh [OF full_len_data, of sz] full_len_data [of sz]
    by (auto simp: obj_ok_def OFF_DATA_def)
  then show ?thesis
    using i pc ob D(1) full_len_data [of sz] inv
    by (auto simp: lk_thread_simps off_defs intro!: lk_inv_stay)
qed

lemma lk_step_inv:
  assumes inv: "lk_inv sz s" and i: "i < length (linkers s)"
  shows "lk_inv sz (lk_act s (LkStep i err))"
proof -
  note D = lk_invD [OF inv i] and stay = lk_inv_stay
  note sz = full_size_ok [OF D(2)]
  show ?thesis
  proof (cases "lk_pc (linkers s ! i)")
    case LkOpenOld
    then show ?thesis
      using i inv D(1,3) by (auto simp: lk_thread_simps names_ok_def split: option.split intro!: stay)
  next
    case LkMap
    then show ?thesis
      using i inv D(1) sz by (auto simp: lk_thread_simps length_init_stores stage_def intro!: stay)
  next
    case LkFailUnlink
    then have "lk_inv sz (s\<lparr>shm_names := (shm_names s)(lk_name (linkers s ! i) := None),
        linkers := (linkers s)[i := (linkers s ! i)\<lparr>lk_pc := LkRet NULL\<rparr>]\<rparr>)"
      using D(1) by (intro lk_inv_local [OF inv i] names_drop D(3)) (auto simp: lk_thread_simps)
    with LkFailUnlink show ?thesis
      using i inv D(1) by (auto simp: lk_thread_simps intro!: stay)
  next
    case (LkRet p)
    then show ?thesis using i inv by (cases p) auto
  next
    case LkOpenNew
    then show ?thesis by (rule open_new_inv [OF inv i])
  next
    case LkTruncate
    then show ?thesis by (rule truncate_inv [OF inv i])
  next
    case (LkInit k)
    then show ?thesis by (rule init_inv [OF inv i])
  next
    case LkWait
    then show ?thesis by (rule wait_inv [OF inv i])
  qed (use i inv D(1) in \<open>auto simp: lk_thread_simps split: option.splits shm_ptr.splits intro!: stay\<close>)
qed

lemma lk_begin_inv: "lk_inv sz s \<Longrightarrow> lk_inv sz (lk_act s (LkBegin i))"
  using lk_invD(1) [of sz s i] by (auto simp: lk_thread_simps intro!: lk_inv_stay)

lemma lk_unlink_inv: "lk_inv sz s \<Longrightarrow> lk_inv sz (lk_act s (LkUnlink i err))"
  using lk_invD(1) [of sz s i]
  by (auto simp: lk_thread_simps split: lk_pc.split shm_ptr.split intro!: lk_inv_stay)

lemma lk_use_inv:
  assumes inv: "lk_inv sz s"
  shows "lk_inv sz (lk_act s (LkUse i off b))"
proof (cases "i < length (linkers s)")
  case i: True
  let ?th = "linkers s ! i"
  show ?thesis
  proof (cases "\<exists>ob. lk_pc ?th = LkRet (Mapped ob) \<and> OFF_FLAGS \<le> off \<and> off < length (shm_objs s ! ob)")
    case True
    then obtain ob where ob: "lk_pc ?th = LkRet (Mapped ob)" "OFF_FLAGS \<le> off"
        "off < length (shm_objs s ! ob)" by blast
    note D = lk_invD [OF inv i]
    let ?bs = "(shm_objs s ! ob)[off := b]"
    have l: "ob < length (shm_objs s)" "live (shm_objs s ! ob)" "length (shm_objs s ! ob) = full_len sz"
      using D(1) ob by (auto simp: lk_thread_simps)
    have "created_of ?bs = created_of (shm_objs s ! ob)"
      unfolding created_of_def using ob(2) by (intro load_cong) (auto simp: off_defs nth_list_update)
    then have "live ?bs" using l by (simp add: live_def)
    then have "lk_inv sz (s\<lparr>shm_objs := (shm_objs s)[ob := ?bs], linkers := (linkers s)[i := ?th]\<rparr>)"
      using l D(1) ob by (intro lk_inv_object [OF inv i]) (auto simp: obj_ok_def calm_def lk_thread_simps)
    then show ?thesis using i ob by simp
  qed (use i inv in \<open>auto split: lk_pc.split shm_ptr.split\<close>)
qed (use inv in simp)

lemma lk_act_inv: "lk_inv sz s \<Longrightarrow> lk_inv sz (lk_act s a)"
proof (cases a)
  case (LkStep i err)
  moreover assume "lk_inv sz s"
  ultimately show ?thesis using lk_step_inv [of sz s i err] by (cases "i < length (linkers s)") auto
qed (simp_all only: lk_begin_inv lk_unlink_inv lk_use_inv)

definition lk_start :: "u64 \<Rightarrow> lk_sys \<Rightarrow> bool" where
  "lk_start sz s \<longleftrightarrow> size_ok sz \<and> (\<exists>xs. s = lk_init (map (\<lambda>x. (x, sz)) xs))"

lemma lk_start_inv: "lk_start sz s \<Longrightarrow> lk_inv sz s"
  by (auto simp: lk_start_def lk_inv_def lk_init_def names_ok_def lk_thread_simps one_creator_def)

interpretation lk: machine lk_act "lk_start sz" "lk_inv sz" for sz
  by unfold_locales (auto intro: lk_start_inv lk_act_inv)

end
