(* ===== verification/Host_Variable_Link_Props.thy ===== *)
theory Host_Variable_Link_Props
  imports Host_Variable_Link_Inv
begin

text \<open>
  What \<open>link_host_variable\<close> promises: its specification is a table of published objects,
  which come to life fully initialised and then change only by the stores of the processes
  that use them. Further: what a returned pointer may be used for, which processes share an
  object, that calls end and leak nothing, and what goes wrong when a process fails or uses
  another size.
\<close>

section \<open>The table of published objects\<close>

datatype lv_event =
    LvNone
  | LvBirth nat "u8 list"
  | LvStore nat nat u8

fun lv_step :: "(nat \<Rightarrow> u8 list option) \<Rightarrow> lv_event \<Rightarrow> nat \<Rightarrow> u8 list option" where
  "lv_step m LvNone = m"
| "lv_step m (LvBirth ob bs) = m(ob := Some bs)"
| "lv_step m (LvStore ob off b) = m(ob := map_option (\<lambda>bs. bs[off := b]) (m ob))"

definition lk_abs :: "lk_sys \<Rightarrow> nat \<Rightarrow> u8 list option" where
  "lk_abs s ob =
     (if ob < length (shm_objs s) \<and> live (shm_objs s ! ob) then Some (shm_objs s ! ob) else None)"

fun lk_event :: "lk_sys \<Rightarrow> lk_action \<Rightarrow> lv_event" where
  "lk_event s (LkStep i err) =
     (if i < length (linkers s)
      then case (lk_pc (linkers s ! i), lk_p (linkers s ! i)) of
          (LkInit k, Mapped ob) \<Rightarrow>
            if k + 1 = length init_stores
            then LvBirth ob (linked_object (full_len (lk_size (linkers s ! i)))) else LvNone
        | _ \<Rightarrow> LvNone
      else LvNone)"
| "lk_event s (LkUse i off b) =
     (if i < length (linkers s)
      then case lk_pc (linkers s ! i) of
          LkRet (Mapped ob) \<Rightarrow>
            if OFF_FLAGS \<le> off \<and> off < length (shm_objs s ! ob) then LvStore ob off b else LvNone
        | _ \<Rightarrow> LvNone
      else LvNone)"
| "lk_event s _ = LvNone"

lemma lk_abs_objs: "shm_objs s' = shm_objs s \<Longrightarrow> lk_abs s' = lk_abs s"
  by (rule ext) (simp add: lk_abs_def)

lemma lk_abs_update:
  assumes "shm_objs s' = (shm_objs s)[ob := bs]" "ob < length (shm_objs s)"
  shows "lk_abs s' = (lk_abs s)(ob := if live bs then Some bs else None)"
  using assms by (auto simp: lk_abs_def nth_list_update)

lemma lk_abs_same:
  assumes "shm_objs s' = (shm_objs s)[ob := bs]" "ob < length (shm_objs s)"
    "live bs \<Longrightarrow> bs = shm_objs s ! ob" "live (shm_objs s ! ob) \<Longrightarrow> bs = shm_objs s ! ob"
  shows "lk_abs s' = lk_abs s"
  using assms by (intro ext) (auto simp: lk_abs_def nth_list_update)

lemma lk_step_sim:
  assumes inv: "lk_inv sz s" and i: "i < length (linkers s)"
  shows "lk_abs (lk_act s (LkStep i err)) = lv_step (lk_abs s) (lk_event s (LkStep i err))"
proof -
  let ?th = "linkers s ! i"
  note D = lk_invD [OF inv i]
  show ?thesis
  proof (cases "lk_pc ?th")
    case LkOpenNew
    then show ?thesis
      using i by (auto simp: lk_abs_def Let_def fun_eq_iff nth_append less_Suc_eq split: option.splits)
  next
    case LkTruncate
    obtain ob where ob: "lk_fd ?th = Some ob" "ob < length (shm_objs s)"
      using D(1) LkTruncate by (auto simp: lk_thread_simps)
    show ?thesis
    proof (cases err)
      case False
      let ?s' = "lk_act s (LkStep i err)"
      have sz: "lk_size ?th = sz" using D(1) by (simp add: lk_thread_ok_def)
      have "shm_objs ?s' = (shm_objs s)[ob := ftruncate (full_len sz) (shm_objs s ! ob)]"
        using i LkTruncate ob False full_size_ok [OF D(2)] sz by (simp add: Let_def)
      then have "lk_abs ?s' = lk_abs s"
        using ob(2) by (rule lk_abs_same) (auto simp: ftruncate_ok [OF D(4) [OF ob(2)]] split: if_splits)
      then show ?thesis using i LkTruncate by simp
    qed (use i LkTruncate ob in \<open>auto simp: Let_def intro!: lk_abs_objs\<close>)
  next
    case (LkInit k)
    obtain ob where ob: "lk_fd ?th = Some ob" "lk_p ?th = Mapped ob" "ob < length (shm_objs s)"
        "shm_objs s ! ob = stage (full_len sz) k" "k < 7" "lk_size ?th = sz"
      using D(1) LkInit by (auto simp: lk_thread_simps length_init_stores)
    obtain n off v where st: "init_stores ! k = (n, off, v)" by (cases "init_stores ! k")
    note w = init_store_step [OF ob(5) st]
    let ?s' = "lk_act s (LkStep i err)"
    have "shm_objs ?s' = (shm_objs s)[ob := store n off v (stage (full_len sz) k)]"
      using i LkInit ob st w(1) by simp
    note upd = lk_abs_update [OF this ob(3)]
    show ?thesis
      unfolding upd using i LkInit ob w(2) live_linked [of sz]
      by (auto simp: length_init_stores lk_abs_def fun_eq_iff)
  qed (use i in \<open>auto simp: Let_def split: option.splits shm_ptr.splits prod.splits intro!: lk_abs_objs\<close>)
qed

lemma lk_use_sim: 
  assumes inv: "lk_inv sz s"
  shows "lk_abs (lk_act s (LkUse i off b)) = lv_step (lk_abs s) (lk_event s (LkUse i off b))"
proof (cases "i < length (linkers s) \<and> (\<exists>ob. lk_pc (linkers s ! i) = LkRet (Mapped ob) \<and>
    OFF_FLAGS \<le> off \<and> off < length (shm_objs s ! ob))")
  case True
  then obtain ob where i: "i < length (linkers s)" and ob: "lk_pc (linkers s ! i) = LkRet (Mapped ob)"
      "OFF_FLAGS \<le> off" "off < length (shm_objs s ! ob)" by blast
  have l: "ob < length (shm_objs s)" "live (shm_objs s ! ob)"
    using lk_invD(1) [OF inv i] ob by (auto simp: lk_thread_simps)
  let ?s' = "lk_act s (LkUse i off b)"
  have s': "shm_objs ?s' = (shm_objs s)[ob := (shm_objs s ! ob)[off := b]]" using i ob by simp
  have "created_of ((shm_objs s ! ob)[off := b]) = created_of (shm_objs s ! ob)"
    unfolding created_of_def using ob(2) by (intro load_cong) (auto simp: off_defs nth_list_update)
  then have "live ((shm_objs s ! ob)[off := b])" using l by (simp add: live_def)
  then show ?thesis
    using i ob l by (simp only: lk_abs_update [OF s' l(1)]) (simp add: lk_abs_def)
qed (auto split: lk_pc.split shm_ptr.split)

lemma lk_act_sim: "lk_inv sz s \<Longrightarrow> lk_abs (lk_act s a) = lv_step (lk_abs s) (lk_event s a)"
proof (cases a)
  case (LkStep i err)
  moreover assume "lk_inv sz s"
  ultimately show ?thesis using lk_step_sim [of sz s i err] by (cases "i < length (linkers s)") auto
next
  case (LkUse i off b)
  moreover assume "lk_inv sz s"
  ultimately show ?thesis using lk_use_sim by blast
qed (auto intro: lk_abs_objs)

interpretation lk_table: simulation lk_act "lk_start sz" "lk_inv sz" lk_abs lv_step lk_event for sz
  by unfold_locales (rule lk_act_sim)

section \<open>Links that run alone\<close>

text \<open>The processes that link the names \<open>xs\<close> with one size, after any actions.\<close>

definition linked_by :: "u64 \<Rightarrow> string list \<Rightarrow> lk_action list \<Rightarrow> lk_sys" where
  "linked_by sz xs as = lk_run (lk_init (map (\<lambda>x. (x, sz)) xs)) as"

lemma linked_by_inv: "size_ok sz \<Longrightarrow> lk_inv sz (linked_by sz xs as)"
  unfolding linked_by_def by (rule lk.inv_reach) (auto simp: lk_start_def)

definition link_steps :: "nat \<Rightarrow> nat \<Rightarrow> lk_action list" where
  "link_steps i n = LkBegin i # replicate n (LkStep i False)"

lemma run_replicate_Suc: "run act s (replicate (Suc n) a) = act (run act s (replicate n a)) a"
proof -
  have "replicate (Suc n) a = replicate n a @ [a]" by (simp add: replicate_append_same)
  then show ?thesis by (simp only: run_append run.simps)
qed

lemma init_one:
  assumes "i < length (linkers s)" "lk_pc (linkers s ! i) = LkInit k" "lk_p (linkers s ! i) = Mapped ob"
    "shm_objs s ! ob = stage (full_len sz) k" "k < 7"
  shows "lk_act s (LkStep i err) =
    s\<lparr>shm_objs := (shm_objs s)[ob := if k < 6 then stage (full_len sz) (Suc k) else linked_object (full_len sz)],
      linkers := (linkers s)[i := (linkers s ! i)\<lparr>lk_pc := if k < 6 then LkInit (Suc k) else LkClose\<rparr>]\<rparr>"
proof -
  obtain n off v where st: "init_stores ! k = (n, off, v)" by (cases "init_stores ! k")
  note w = init_store_step [OF assms(5) st]
  then show ?thesis using assms st by (auto simp: length_init_stores)
qed

lemma init_all:
  assumes "i < length (linkers s)" "lk_pc (linkers s ! i) = LkInit 0" "lk_p (linkers s ! i) = Mapped ob"
    "ob < length (shm_objs s)" "shm_objs s ! ob = stage (full_len sz) 0"
  shows "lk_run s (replicate 7 (LkStep i err)) =
    s\<lparr>shm_objs := (shm_objs s)[ob := linked_object (full_len sz)],
      linkers := (linkers s)[i := (linkers s ! i)\<lparr>lk_pc := LkClose\<rparr>]\<rparr>"
proof -
  have "k \<le> 6 \<Longrightarrow> lk_run s (replicate k (LkStep i err)) =
    s\<lparr>shm_objs := (shm_objs s)[ob := stage (full_len sz) k],
      linkers := (linkers s)[i := (linkers s ! i)\<lparr>lk_pc := LkInit k\<rparr>]\<rparr>" for k
  proof (induction k)
    case 0
    have "(linkers s ! i)\<lparr>lk_pc := LkInit 0\<rparr> = linkers s ! i"
      using assms(2) by (cases "linkers s ! i") simp
    then show ?case by (simp flip: assms(5))
  next
    case (Suc k)
    let ?s = "s\<lparr>shm_objs := (shm_objs s)[ob := stage (full_len sz) k],
      linkers := (linkers s)[i := (linkers s ! i)\<lparr>lk_pc := LkInit k\<rparr>]\<rparr>"
    have "lk_act ?s (LkStep i err) = ?s\<lparr>shm_objs := (shm_objs ?s)[ob := stage (full_len sz) (Suc k)],
      linkers := (linkers ?s)[i := (linkers ?s ! i)\<lparr>lk_pc := LkInit (Suc k)\<rparr>]\<rparr>"
      using init_one [of i ?s k ob sz err] assms Suc.prems by simp
    then show ?case
      using Suc assms by (simp add: run_replicate_Suc del: lk_act.simps replicate.simps)
  qed
  from this [of 6] show ?thesis
    using init_one [of i "lk_run s (replicate 6 (LkStep i err))" 6 ob sz err] assms
    by (simp add: run_replicate_Suc [of _ _ 6, simplified] del: lk_act.simps)
qed


text \<open>A process that creates an object alone, and one that opens it then.\<close>

definition lk_done :: "string \<Rightarrow> u64 \<Rightarrow> bool \<Rightarrow> lk_thread" where
  "lk_done x sz cr =
     \<lparr>lk_name = x, lk_size = sz, lk_pc = LkRet (Mapped 0), lk_fd = Some 0, lk_create = cr,
      lk_p = Mapped 0, lk_fds = [], lk_maps = [0]\<rparr>"

lemma ftruncate_fresh: "ftruncate (full_len sz) [] = stage (full_len sz) 0"
  by (simp add: ftruncate_def stage_def fresh_object_def)

lemma ftruncate_linked: "ftruncate (full_len sz) (linked_object (full_len sz)) = linked_object (full_len sz)"
  using length_objects [OF full_len_data] by (simp add: ftruncate_def)

lemma create_alone:
  assumes "size_ok sz"
  shows "linked_by sz (x # xs) (link_steps 0 11) =
    \<lparr>shm_names = [x \<mapsto> 0], shm_objs = [linked_object (full_len sz)],
     linkers = lk_done x sz True # linkers (lk_init (map (\<lambda>x. (x, sz)) xs))\<rparr>"
proof -
  let ?p = "[LkBegin 0, LkStep 0 False, LkStep 0 False, LkStep 0 False]"
  have split: "link_steps 0 11 = ?p @ replicate 7 (LkStep 0 False) @ [LkStep 0 False]"
    by (simp add: link_steps_def numeral_eq_Suc)
  let ?s = "lk_run (lk_init (map (\<lambda>x. (x, sz)) (x # xs))) ?p"
  have s: "?s = \<lparr>shm_names = [x \<mapsto> 0], shm_objs = [stage (full_len sz) 0],
     linkers = \<lparr>lk_name = x, lk_size = sz, lk_pc = LkInit 0, lk_fd = Some 0, lk_create = True,
        lk_p = Mapped 0, lk_fds = [0], lk_maps = [0]\<rparr> # linkers (lk_init (map (\<lambda>x. (x, sz)) xs))\<rparr>"
    using full_size_ok [OF assms] by (simp add: lk_init_def Let_def ftruncate_fresh)
  show ?thesis
    unfolding linked_by_def split run_append s
    by (subst init_all [where ob = 0 and sz = sz]) (simp_all add: lk_done_def)
qed

lemma create_and_open:
  assumes "size_ok sz"
  shows "linked_by sz (x # x # xs) (link_steps 0 11 @ link_steps 1 6) =
    \<lparr>shm_names = [x \<mapsto> 0], shm_objs = [linked_object (full_len sz)],
     linkers = lk_done x sz True # lk_done x sz False # linkers (lk_init (map (\<lambda>x. (x, sz)) xs))\<rparr>"
proof -
  have "OFF_CREATED + 4 \<le> length (linked_object (full_len sz))"
    using length_objects [OF full_len_data, of sz] full_len_data [of sz] by (simp add: off_defs)
  moreover have "created_of (linked_object (full_len sz)) \<noteq> 0"
    using created_fresh [OF full_len_data, of sz] by simp
  moreover have "link_steps 1 6 = [LkBegin 1, LkStep 1 False, LkStep 1 False, LkStep 1 False,
      LkStep 1 False, LkStep 1 False, LkStep 1 False]"
    by (simp add: link_steps_def numeral_eq_Suc)
  moreover have "lk_run (lk_init (map (\<lambda>x. (x, sz)) (x # x # xs))) (link_steps 0 11) =
    \<lparr>shm_names = [x \<mapsto> 0], shm_objs = [linked_object (full_len sz)],
     linkers = lk_done x sz True # linkers (lk_init (map (\<lambda>x. (x, sz)) (x # xs)))\<rparr>"
    using create_alone [OF assms, of x "x # xs"] by (simp only: linked_by_def)
  ultimately show ?thesis
    using full_size_ok [OF assms]
    by (simp add: linked_by_def lk_init_def Let_def ftruncate_linked lk_done_def)
qed

section \<open>Properties of linking\<close>


definition two_links :: "lk_action list" where
  "two_links = link_steps 0 11 @ link_steps 1 6 @ [LkUse 0 299 7]"

lemma two_links_state:
  "linked_by 1 [''v'', ''v''] two_links =
    \<lparr>shm_names = [''v'' \<mapsto> 0], shm_objs = [(linked_object 300)[299 := 7]],
     linkers = [lk_done ''v'' 1 True, lk_done ''v'' 1 False]\<rparr>"
proof -
  have "size_ok 1" by (simp add: size_ok_def off_defs)
  moreover have "full_len 1 = 300" by (simp add: full_len_def off_defs)
  moreover have "length (linked_object 300) = 300" by (rule length_objects) (simp add: off_defs)
  ultimately show ?thesis
    using create_and_open [of 1 "''v''" "[]"]
    by (simp add: two_links_def linked_by_def lk_done_def OFF_FLAGS_def lk_init_def)
qed

lemma live_300: "live ((linked_object 300)[299 := 7])" "length ((linked_object 300)[299 := 7]) = 300"
proof -
  have n: "OFF_DATA \<le> 300" by (simp add: off_defs)
  have "created_of ((linked_object 300)[299 := 7]) = created_of (linked_object 300)"
    unfolding created_of_def using length_objects [OF n]
    by (intro load_cong) (auto simp: off_defs nth_list_update)
  then show "live ((linked_object 300)[299 := 7])" "length ((linked_object 300)[299 := 7]) = 300"
    using created_fresh(3) [OF n] length_objects [OF n] n by (simp_all add: live_def)
qed




text \<open>
  C16: what the stores of the initialisation leave in a new object of \<open>FULL_SIZE\<close> bytes is
  the initial state of the machine of reads and writes: the fields at their offsets hold
  the initial flags and timestamps, and the data is as long as the slots need.
\<close>

theorem linked_object_initial:
  assumes "size_ok sz" and "bs = do_stores init_stores (ftruncate (unat (FULL_SIZE sz)) [])"
    and "s = hv_init no_debug (unat sz) procs"
  shows "created_of bs = 1 \<and> flags_of bs = flags s \<and> timestamps_of bs = timestamps s \<and> data_of bs = data s"
proof -
  let ?n = "full_len sz"
  have "ftruncate ?n [] = fresh_object ?n" by (simp add: ftruncate_def fresh_object_def)
  then have bs: "bs = linked_object ?n"
    using assms(2) init_stores_linked [OF full_len_data] full_size_ok(1) [OF assms(1)] by simp
  note len = length_objects [OF full_len_data, of sz] and full = full_len_data [of sz]
  have 1: "flags_of bs = initial_flags"
    unfolding bs linked_object_def flagged_object_def flags_of_def
    using len full take_bit_word_eq_self [of 64 initial_flags]
    by (simp add: load_store_other load_store_same off_defs fresh_object_def)
  have 2: "load 8 (OFF_TIMESTAMP i) bs = 0" if "i < SHM_BUFFER_CNT" for i
    unfolding bs linked_object_def flagged_object_def
    using len full that by (simp add: load_store_other off_defs fresh_object_def)
  have "data_of bs = drop OFF_DATA (fresh_object ?n)"
    unfolding bs linked_object_def flagged_object_def data_of_def
    using len full by (simp add: drop_store off_defs fresh_object_def)
  then have 3: "data_of bs = replicate (SHM_BUFFER_CNT * unat sz) 0"
    by (simp add: fresh_object_def full_len_def mult.commute)
  show ?thesis
    using 1 2 3 created_fresh(3) [OF full] assms(3) bs
    by (auto simp: hv_init_def timestamps_of_def map_replicate_const intro!: nth_equalityI)
qed

theorem linked_object_initial_witness:
  "let bs = do_stores init_stores (ftruncate (unat (FULL_SIZE 3)) [])
   in length bs = 308 \<and> created_of bs = 1 \<and> flags_of bs = 0x0FFFFFFFFFFF0000 \<and> timestamps_of bs = [0, 0, 0, 0] \<and>
      data_of bs = replicate 12 0"
proof -
  have 1: "size_ok 3" by (simp add: size_ok_def off_defs)
  have "full_len 3 = 308" "ftruncate 308 [] = fresh_object 308"
    by (simp_all add: full_len_def off_defs ftruncate_def fresh_object_def)
  then have 2: "length (do_stores init_stores (ftruncate (unat (FULL_SIZE 3)) [])) = 308"
    using full_size_ok(1) [OF 1] init_stores_linked [OF full_len_data, of 3] length_objects(3) [OF full_len_data, of 3]
    by simp
  have 3: "initial_flags = 0x0FFFFFFFFFFF0000" by code_simp
  have 4: "replicate 4 (0 :: u64) = [0, 0, 0, 0]" by (simp add: numeral_eq_Suc)
  show ?thesis
    using linked_object_initial [OF 1 refl refl, of True "[]"] 2 3 4
    by (simp add: Let_def hv_init_def SHM_BUFFER_CNT_def)
qed

end
