(* ===== verification/Host_Variable_Link_Share.thy ===== *)
theory Host_Variable_Link_Share
  imports Host_Variable_Link_Props
begin

text \<open>
  Linking as its callers see it: which processes share an object, which resources a call
  leaves behind, when a call returns, and three situations in which a process disturbs
  others: it fails while the object is new, it fails later, or it links another size.
\<close>

section \<open>Who shares an object\<close>

text \<open>
  Without failing system calls: nobody is on the failure path, everybody works on the
  object its name stands for, and two names never stand for one object.
\<close>

definition quiet_thread :: "(string \<Rightarrow> nat option) \<Rightarrow> lk_thread \<Rightarrow> bool" where
  "quiet_thread names th \<longleftrightarrow>
     lk_pc th \<notin> {LkFailClose, LkFailUnmap, LkFailUnlink, LkRet NULL} \<and>
     (lk_pc th = LkOpenOld \<longrightarrow> names (lk_name th) \<noteq> None) \<and>
     (\<forall>ob. object_of th = Some ob \<longrightarrow> names (lk_name th) = Some ob)"

definition distinct_names :: "(string \<Rightarrow> nat option) \<Rightarrow> bool" where
  "distinct_names names \<longleftrightarrow> (\<forall>x y ob. names x = Some ob \<longrightarrow> names y = Some ob \<longrightarrow> x = y)"

definition lk_quiet :: "lk_sys \<Rightarrow> bool" where
  "lk_quiet s \<longleftrightarrow>
     distinct_names (shm_names s) \<and> (\<forall>th \<in> set (linkers s). quiet_thread (shm_names s) th)"

lemma quiet_thread_mono: "quiet_thread m th \<Longrightarrow> m \<subseteq>\<^sub>m m' \<Longrightarrow> quiet_thread m' th"
  by (auto simp: quiet_thread_def map_le_def dom_def)

lemma lk_quiet_change:
  assumes "lk_quiet s" "shm_names s \<subseteq>\<^sub>m shm_names s'" "distinct_names (shm_names s')"
    "quiet_thread (shm_names s') th'" "linkers s' = (linkers s)[i := th']"
  shows "lk_quiet s'"
proof -
  have "\<forall>th \<in> set (linkers s). quiet_thread (shm_names s') th"
    using assms(1,2) by (auto simp: lk_quiet_def intro: quiet_thread_mono)
  then have "\<forall>th \<in> set ((linkers s)[i := th']). quiet_thread (shm_names s') th"
    using assms(4) by (rule ball_update)
  then show ?thesis using assms(3,5) by (simp add: lk_quiet_def)
qed

lemma lk_quiet_same:
  assumes "lk_quiet s" "shm_names s' = shm_names s" "quiet_thread (shm_names s) th'"
    "linkers s' = (linkers s)[i := th']"
  shows "lk_quiet s'"
  using assms by (intro lk_quiet_change [OF assms(1) _ _ _ assms(4)]) (simp_all add: lk_quiet_def)

lemma lk_quietD: "lk_quiet s \<Longrightarrow> i < length (linkers s) \<Longrightarrow> quiet_thread (shm_names s) (linkers s ! i)"
  by (simp add: lk_quiet_def)

lemma quiet_open_new:
  assumes inv: "lk_inv sz s" and q: "lk_quiet s" and i: "i < length (linkers s)"
    and pc: "lk_pc (linkers s ! i) = LkOpenNew"
  shows "lk_quiet (lk_act s (LkStep i False))"
proof (cases "shm_names s (lk_name (linkers s ! i))")
  case None
  let ?th = "linkers s ! i" and ?ob = "length (shm_objs s)"
  let ?th' = "?th\<lparr>lk_fd := Some ?ob, lk_fds := ?ob # lk_fds ?th, lk_pc := LkTruncate\<rparr>"
  have new: "shm_names s x \<noteq> Some ?ob" for x
    using lk_invD(3) [OF inv i] by (auto simp: names_ok_def)
  show ?thesis
  proof (rule lk_quiet_change [OF q, of _ ?th' i])
    show "distinct_names (shm_names (lk_act s (LkStep i False)))"
      using q new i pc None by (auto simp: lk_quiet_def distinct_names_def Let_def)
  qed (use i pc None in \<open>auto simp: Let_def map_le_def dom_def quiet_thread_def object_of_def\<close>)
qed (use lk_quietD [OF q i] i pc in
    \<open>auto intro!: lk_quiet_same [OF q, where i = i] simp: quiet_thread_def object_of_def\<close>)

lemma lk_quiet_step:
  assumes inv: "lk_inv sz s" and q: "lk_quiet s" and i: "i < length (linkers s)"
  shows "lk_quiet (lk_act s (LkStep i False))"
proof -
  note D = lk_invD [OF inv i] and Q = lk_quietD [OF q i]
  note sz = full_size_ok [OF D(2)]
  have size: "lk_size (linkers s ! i) = sz" using D(1) by (simp add: lk_thread_ok_def)
  show ?thesis
  proof (cases "lk_pc (linkers s ! i)")
    case LkOpenNew
    then show ?thesis by (rule quiet_open_new [OF inv q i])
  next
    case (LkInit k)
    then obtain ob where ob: "lk_p (linkers s ! i) = Mapped ob" "shm_objs s ! ob = stage (full_len sz) k" "k < 7"
        "lk_fd (linkers s ! i) = Some ob"
      using D(1) by (auto simp: lk_thread_simps length_init_stores)
    show ?thesis
      using LkInit Q ob
      by (intro lk_quiet_same [OF q, where i = i])
        (auto simp: init_one [OF i LkInit ob(1-3)] quiet_thread_def object_of_def simp del: lk_act.simps)
  next
    case LkWait
    then obtain ob where ob: "lk_p (linkers s ! i) = Mapped ob" "length (shm_objs s ! ob) = full_len sz"
        "lk_fd (linkers s ! i) = Some ob"
      using D(1) by (auto simp: lk_thread_simps)
    show ?thesis
    proof (cases "created_of (shm_objs s ! ob) = 0")
      case False
      then show ?thesis
        using i LkWait Q ob full_len_data [of sz]
        by (intro lk_quiet_same [OF q, where i = i])
          (auto simp: off_defs quiet_thread_def object_of_def)
    qed (use i LkWait ob q full_len_data [of sz] in \<open>simp add: off_defs\<close>)
  next
    case (LkRet p)
    then show ?thesis
      using i q by (cases p) auto
  qed (use i Q D(1) q sz size in
      \<open>auto simp: lk_thread_simps quiet_thread_def Let_def
        intro!: lk_quiet_same [OF q, where i = i]\<close>)
qed

lemma lk_quiet_act:
  assumes inv: "lk_inv sz s" and q: "lk_quiet s" and a: "\<And>i. a \<noteq> LkStep i True"
  shows "lk_quiet (lk_act s a)"
proof (cases a)
  case (LkBegin i)
  then show ?thesis
    using q by (auto simp: quiet_thread_def object_of_def intro!: lk_quiet_same [OF q, where i = i])
next
  case (LkStep i err)
  then have "err = False" using a [of i] by (cases err) auto
  then show ?thesis
    using LkStep lk_quiet_step [OF inv q, of i] q by (cases "i < length (linkers s)") auto
next
  case (LkUnlink i err)
  then show ?thesis
    using q lk_quietD [OF q, of i]
    by (auto simp: quiet_thread_def object_of_def intro!: lk_quiet_same [OF q, where i = i]
        split: lk_pc.split shm_ptr.split)
next
  case (LkUse i off b)
  then show ?thesis
    using q by (auto simp: lk_quiet_def split: lk_pc.split shm_ptr.split)
qed

lemma lk_quiet_run:
  "lk_inv sz s \<Longrightarrow> lk_quiet s \<Longrightarrow> (\<forall>i. LkStep i True \<notin> set as) \<Longrightarrow> lk_quiet (lk_run s as)"
proof (induction as arbitrary: s)
  case (Cons a as)
  then have "lk_quiet (lk_act s a)" by (intro lk_quiet_act) auto
  then show ?case using Cons lk_act_inv by (simp del: lk_act.simps)
qed simp

lemma lk_step_name: "lk_name (snd (lk_step err pc s th)) = lk_name th"
  by (cases "(err, pc, s, th)" rule: lk_step.cases)
    (auto simp: Let_def split: option.split shm_ptr.split prod.split)

lemma lk_step_linkers: "linkers (fst (lk_step err pc s th)) = linkers s"
  by (cases "(err, pc, s, th)" rule: lk_step.cases)
    (auto simp: Let_def split: option.split shm_ptr.split prod.split)

lemma names_act: "map lk_name (linkers (lk_act s a)) = map lk_name (linkers s)"
proof -
  have same: "lk_name th' = lk_name (linkers s ! i) \<Longrightarrow>
      map lk_name ((linkers s)[i := th']) = map lk_name (linkers s)" for i th'
    by (cases "i < length (linkers s)") (simp_all add: map_update list_update_same_conv list_update_beyond)
  show ?thesis
  proof (cases a)
    case (LkStep i err)
    let ?r = "lk_step err (lk_pc (linkers s ! i)) s (linkers s ! i)"
    have "lk_name (snd ?r) = lk_name (linkers s ! i)" by (rule lk_step_name)
    from same [OF this] show ?thesis
      using LkStep by (cases ?r) auto
  qed (auto intro!: same split: lk_pc.split shm_ptr.split)
qed

lemma names_run: "map lk_name (linkers (lk_run s as)) = map lk_name (linkers s)"
  by (induction as arbitrary: s) (simp_all add: names_act del: lk_act.simps)

lemma linked_by_names: "map lk_name (linkers (linked_by sz xs as)) = xs"
  unfolding linked_by_def names_run by (simp add: lk_init_def comp_def)

lemma lk_init_quiet: "lk_quiet (lk_init ls)"
  by (auto simp: lk_quiet_def lk_init_def distinct_names_def quiet_thread_def object_of_def)

lemma linked_by_length: "length (linkers (linked_by sz xs as)) = length xs"
  using linked_by_names [of sz xs as] by (metis length_map)

lemma linked_by_name: "i < length xs \<Longrightarrow> lk_name (linkers (linked_by sz xs as) ! i) = xs ! i"
  using linked_by_names [of sz xs as] by (metis linked_by_length nth_map)

text \<open>
  C17: processes share an object exactly when they link the same name. As long as no system
  call fails, no link returns a null pointer, and two processes that are linked have the
  same object if and only if they gave the same name, in whatever order they ran.
\<close>

theorem link_agreement:
  assumes sz: "size_ok sz" and ok: "\<forall>i. LkStep i True \<notin> set as"
    and s: "s = linked_by sz xs as" and ij: "i < length xs" "j < length xs"
  shows "lk_pc (linkers s ! i) \<noteq> LkRet NULL \<and>
    (\<forall>ob ob'. lk_pc (linkers s ! i) = LkRet (Mapped ob) \<and> lk_pc (linkers s ! j) = LkRet (Mapped ob') \<longrightarrow>
      (ob = ob' \<longleftrightarrow> xs ! i = xs ! j))"
proof -
  have "lk_quiet s"
    unfolding s linked_by_def using lk_start_inv [of sz] sz
    by (intro lk_quiet_run [OF _ lk_init_quiet ok, of sz]) (auto simp: lk_start_def)
  then have q: "k < length xs \<Longrightarrow> quiet_thread (shm_names s) (linkers s ! k)" "distinct_names (shm_names s)" for k
    using linked_by_length [of sz xs as] s by (auto simp: lk_quiet_def)
  have "ob = ob' \<longleftrightarrow> xs ! i = xs ! j"
    if "lk_pc (linkers s ! i) = LkRet (Mapped ob)" "lk_pc (linkers s ! j) = LkRet (Mapped ob')" for ob ob'
  proof -
    have "shm_names s (xs ! i) = Some ob" "shm_names s (xs ! j) = Some ob'"
      using that q ij linked_by_name [of _ xs sz as] s by (auto simp: quiet_thread_def object_of_def)
    then show ?thesis using q(2) by (auto simp: distinct_names_def)
  qed
  moreover have "lk_pc (linkers s ! i) \<noteq> LkRet NULL"
    using q ij by (auto simp: quiet_thread_def)
  ultimately show ?thesis by blast
qed

theorem link_agreement_witness:
  "let s = linked_by 1 [''v'', ''v''] (link_steps 0 11 @ link_steps 1 6)
   in lk_pc (linkers s ! 0) = LkRet (Mapped 0) \<and> lk_pc (linkers s ! 1) = LkRet (Mapped 0) \<and>
      lk_pc (linkers s ! 0) \<noteq> LkRet NULL"
proof -
  let ?as = "link_steps 0 11 @ link_steps 1 6"
  let ?s = "linked_by 1 [''v'', ''v''] ?as"
  have 1: "size_ok 1" by (simp add: size_ok_def off_defs)
  have 2: "\<forall>i. LkStep i True \<notin> set ?as" by (auto simp: link_steps_def)
  have 3: "lk_pc (linkers ?s ! 0) = LkRet (Mapped 0)" "lk_pc (linkers ?s ! 1) = LkRet (Mapped 0)"
    using create_and_open [OF 1, of "''v''" "[]"] by (simp_all add: lk_done_def)
  show ?thesis
    unfolding Let_def
    using link_agreement [OF 1 2 refl, of 0 "[''v'', ''v'']" 1] 3 by simp
qed

section \<open>What a call leaves behind\<close>

text \<open>
  C18: linking leaks nothing. Whatever fails, a call that returns a null pointer leaves
  neither a descriptor nor a mapping; one that succeeds leaves exactly the mapping it
  returns, and \<open>unlink_host_variable\<close>, when it returns 0, has given that back.
  \<open>link_host_variable\<close> never returns \<open>MAP_FAILED\<close>.
\<close>

theorem link_no_leak:
  assumes "size_ok sz" and "th \<in> set (linkers (linked_by sz xs as))"
  shows "case lk_pc th of
      LkRet NULL \<Rightarrow> lk_fds th = [] \<and> lk_maps th = []
    | LkRet (Mapped ob) \<Rightarrow> lk_fds th = [] \<and> lk_maps th = [ob]
    | LkRet MAP_FAILED \<Rightarrow> False
    | LkUnlinked r \<Rightarrow> lk_fds th = [] \<and> (r = 0 \<longrightarrow> lk_maps th = [])
    | _ \<Rightarrow> True"
proof -
  have "held_ok th (lk_pc th)"
    using linked_by_inv [OF assms(1)] assms(2) by (auto simp: lk_inv_def lk_thread_ok_def)
  then show ?thesis by (auto split: lk_pc.split shm_ptr.split)
qed

theorem link_no_leak_witness:
  "let th = linkers (linked_by 1 [''v''] (LkBegin 0 # map (LkStep 0) [False, False, True, False, False, False])) ! 0
   in lk_pc th = LkRet NULL \<and> lk_fds th = [] \<and> lk_maps th = []"
proof -
  let ?s = "linked_by 1 [''v''] (LkBegin 0 # map (LkStep 0) [False, False, True, False, False, False])"
  have 1: "size_ok 1" by (simp add: size_ok_def off_defs)
  have 2: "lk_pc (linkers ?s ! 0) = LkRet NULL"
    using full_size_ok [OF 1] by (simp add: linked_by_def lk_init_def Let_def)
  have "linkers ?s ! 0 \<in> set (linkers ?s)"
    using linked_by_length [of 1 "[''v'']"] by simp
  from link_no_leak [OF 1 this] 2 show ?thesis by (simp add: Let_def)
qed

section \<open>When a call returns\<close>

text \<open>
  A call is over, or polls an object that is not published. Until then every step of the
  process brings it closer to its end.
\<close>

definition lk_stopped :: "lk_sys \<Rightarrow> nat \<Rightarrow> bool" where
  "lk_stopped s i \<longleftrightarrow>
     (case lk_pc (linkers s ! i) of
        LkIdle \<Rightarrow> True
      | LkRet _ \<Rightarrow> True
      | LkUnlinked _ \<Rightarrow> True
      | LkWait \<Rightarrow> (\<exists>ob. lk_fd (linkers s ! i) = Some ob \<and> lk_abs s ob = None)
      | _ \<Rightarrow> False)"

fun lk_rank :: "lk_pc \<Rightarrow> nat" where
  "lk_rank LkOpenNew = 12"
| "lk_rank LkOpenOld = 11"
| "lk_rank LkTruncate = 10"
| "lk_rank LkMap = 9"
| "lk_rank (LkInit k) = 8 - k"
| "lk_rank LkWait = 2"
| "lk_rank LkClose = 1"
| "lk_rank LkFailClose = 3"
| "lk_rank LkFailUnmap = 2"
| "lk_rank LkFailUnlink = 1"
| "lk_rank _ = 0"

lemma lk_wait_step:
  assumes inv: "lk_inv sz s" and i: "i < length (linkers s)" and pc: "lk_pc (linkers s ! i) = LkWait"
    and ob: "lk_fd (linkers s ! i) = Some ob"
  shows "lk_act s (LkStep i err) =
    (if lk_abs s ob = None then s else s\<lparr>linkers := (linkers s)[i := (linkers s ! i)\<lparr>lk_pc := LkClose\<rparr>]\<rparr>)"
proof -
  note D = lk_invD [OF inv i]
  have t: "lk_p (linkers s ! i) = Mapped ob" "ob < length (shm_objs s)" "length (shm_objs s ! ob) = full_len sz"
    using D(1) pc ob by (auto simp: lk_thread_simps)
  have "lk_abs s ob = None \<longleftrightarrow> created_of (shm_objs s ! ob) = 0"
    using D(4) [OF t(2)] t created_fresh [OF full_len_data, of sz] full_len_data [of sz]
    by (auto simp: lk_abs_def obj_ok_def live_def off_defs)
  then show ?thesis
    using i pc t full_len_data [of sz] by (simp add: off_defs)
qed

lemma lk_rank_step:
  assumes inv: "lk_inv sz s" and i: "i < length (linkers s)" and go: "\<not> lk_stopped s i"
  shows "lk_rank (lk_pc (linkers (lk_act s (LkStep i err)) ! i)) < lk_rank (lk_pc (linkers s ! i))"
proof -
  note D = lk_invD [OF inv i]
  show ?thesis
  proof (cases "lk_pc (linkers s ! i)")
    case LkWait
    then obtain ob where ob: "lk_fd (linkers s ! i) = Some ob" using D(1) by (auto simp: lk_thread_simps)
    then have "lk_abs s ob \<noteq> None" using go LkWait by (auto simp: lk_stopped_def)
    then show ?thesis
      using i LkWait by (simp only: lk_wait_step [OF inv i LkWait ob]) simp
  next
    case (LkInit k)
    then obtain ob where ob: "lk_p (linkers s ! i) = Mapped ob" "shm_objs s ! ob = stage (full_len sz) k" "k < 7"
      using D(1) by (auto simp: lk_thread_simps length_init_stores)
    have "lk_rank (if k < 6 then LkInit (Suc k) else LkClose) < 8 - k"
      using ob(3) by auto
    then show ?thesis using i LkInit by (simp only: init_one [OF i LkInit ob]) simp
  qed (use i D(1) go in \<open>auto simp: lk_thread_simps lk_stopped_def Let_def split: option.split\<close>)
qed

lemma lk_stopped_step:
  assumes inv: "lk_inv sz s" and i: "i < length (linkers s)" and stop: "lk_stopped s i"
  shows "lk_act s (LkStep i err) = s"
proof (cases "lk_pc (linkers s ! i)")
  case LkWait
  then obtain ob where "lk_fd (linkers s ! i) = Some ob" "lk_abs s ob = None"
    using stop by (auto simp: lk_stopped_def)
  then show ?thesis by (simp only: lk_wait_step [OF inv i LkWait]) simp
qed (use i stop in \<open>auto simp: lk_stopped_def\<close>)

lemma lk_act_length: "length (linkers (lk_act s a)) = length (linkers s)"
  using names_act [of s a] by (metis length_map)

lemma lk_solo:
  "lk_inv sz s \<Longrightarrow> i < length (linkers s) \<Longrightarrow> lk_stopped s i \<or> lk_rank (lk_pc (linkers s ! i)) \<le> length es \<Longrightarrow>
   lk_stopped (lk_run s (map (LkStep i) es)) i"
proof (induction es arbitrary: s)
  case Nil
  then show ?case
    using lk_invD(1) [OF Nil.prems(1,2)]
    by (cases "lk_pc (linkers s ! i)") (auto simp: lk_stopped_def lk_thread_simps length_init_stores)
next
  case (Cons e es)
  let ?s = "lk_act s (LkStep i e)"
  have "lk_stopped ?s i \<or> lk_rank (lk_pc (linkers ?s ! i)) \<le> length es"
    using Cons.prems lk_rank_step [OF Cons.prems(1,2), of e] lk_stopped_step [OF Cons.prems(1,2), of e]
    by (cases "lk_stopped s i") auto
  then show ?case
    using Cons.IH [OF lk_act_inv [OF Cons.prems(1)]] Cons.prems(2) by (simp add: lk_act_length del: lk_act.simps)
qed

text \<open>
  C19: linking ends. From every reachable state, whatever the other processes were doing
  and whichever of its own system calls fail, a process that makes twelve steps of its own
  has returned, or it polls an object whose creator has not finished.
\<close>

theorem link_ends:
  assumes "size_ok sz" and s: "s = linked_by sz xs as" and "i < length xs" and "length es = 12"
  shows "lk_stopped (lk_run s (map (LkStep i) es)) i"
proof -
  have "lk_rank pc \<le> 12" for pc by (cases pc) auto
  then show ?thesis
    using linked_by_inv [OF assms(1), of xs as] linked_by_length [of sz xs as] assms
    by (intro lk_solo [of sz]) auto
qed

theorem link_ends_witness:
  "let s = linked_by 1 [''v''] [LkBegin 0]
   in \<not> lk_stopped s 0 \<and> lk_stopped (lk_run s (map (LkStep 0) (replicate 12 False))) 0"
proof -
  let ?s = "linked_by 1 [''v''] [LkBegin 0]"
  have 1: "size_ok 1" by (simp add: size_ok_def off_defs)
  have 2: "\<not> lk_stopped ?s 0" by (simp add: linked_by_def lk_init_def lk_stopped_def)
  show ?thesis
    using link_ends [OF 1 refl, of 0 "[''v'']" "replicate 12 False" "[LkBegin 0]"] 2 by (simp add: Let_def)
qed

section \<open>A creator that fails or dies\<close>

lemma creating_act:
  assumes inv: "lk_inv sz s" and j: "j < length (linkers s)"
    and c: "creating (linkers (lk_act s a) ! j) = Some ob"
  shows "creating (linkers s ! j) = Some ob \<or> ob = length (shm_objs s)"
proof (cases a)
  case (LkStep i err)
  show ?thesis
  proof (cases "i = j")
    case True
    note D = lk_invD [OF inv j]
    show ?thesis
    proof (cases "lk_pc (linkers s ! j)")
      case (LkInit k)
      then obtain o' where ob: "lk_p (linkers s ! j) = Mapped o'" "shm_objs s ! o' = stage (full_len sz) k" "k < 7"
        using D(1) by (auto simp: lk_thread_simps length_init_stores)
      show ?thesis
        using c j LkInit LkStep True
        by (simp add: init_one [OF j LkInit ob] creating_def del: lk_act.simps split: if_splits)
    qed (use c j LkStep True D(1) in
        \<open>auto simp: lk_thread_simps Let_def split: option.splits if_splits\<close>)
  next
    case False
    then have "linkers (lk_act s a) ! j = linkers s ! j"
      using LkStep lk_step_linkers [of err "lk_pc (linkers s ! i)" s "linkers s ! i"]
      by (cases "lk_step err (lk_pc (linkers s ! i)) s (linkers s ! i)") auto
    then show ?thesis using c by simp
  qed
next
  case (LkBegin i)
  then show ?thesis using c j by (cases "i = j") (auto simp: creating_def split: if_splits)
next
  case (LkUnlink i err)
  then show ?thesis
    using c j by (cases "i = j") (auto simp: creating_def split: if_splits lk_pc.splits shm_ptr.splits)
next
  case (LkUse i off b)
  then show ?thesis using c by (auto split: if_splits lk_pc.splits shm_ptr.splits)
qed

definition orphan :: "lk_sys \<Rightarrow> nat \<Rightarrow> bool" where
  "orphan s ob \<longleftrightarrow>
     ob < length (shm_objs s) \<and> lk_abs s ob = None \<and> (\<forall>th \<in> set (linkers s). creating th \<noteq> Some ob)"

definition polls :: "lk_sys \<Rightarrow> nat \<Rightarrow> nat \<Rightarrow> bool" where
  "polls s i ob \<longleftrightarrow>
     i < length (linkers s) \<and> lk_pc (linkers s ! i) = LkWait \<and> lk_fd (linkers s ! i) = Some ob"

lemma no_birth:
  assumes "lk_inv sz s" "orphan s ob"
  shows "lk_event s a \<noteq> LvBirth ob bs"
proof
  assume ev: "lk_event s a = LvBirth ob bs"
  then obtain i err k where i: "i < length (linkers s)" "lk_pc (linkers s ! i) = LkInit k" "lk_p (linkers s ! i) = Mapped ob"
    by (cases a) (auto split: if_splits lk_pc.splits shm_ptr.splits)
  then have "creating (linkers s ! i) = Some ob"
    using lk_invD(1) [OF assms(1) i(1)] by (auto simp: lk_thread_simps)
  then show False using assms(2) i(1) by (auto simp: orphan_def)
qed

lemma shm_objs_grow: "length (shm_objs s) \<le> length (shm_objs (lk_act s a))"
proof (cases a)
  case (LkStep i err)
  have "length (shm_objs s) \<le> length (shm_objs (fst (lk_step err pc s th)))" for pc th
    by (cases "(err, pc, s, th)" rule: lk_step.cases)
      (auto simp: Let_def split: option.split shm_ptr.split prod.split)
  from this [of "lk_pc (linkers s ! i)" "linkers s ! i"] show ?thesis
    using LkStep by (auto split: prod.split)
qed (auto split: lk_pc.split shm_ptr.split)

lemma orphan_act:
  assumes inv: "lk_inv sz s" and o: "orphan s ob"
  shows "orphan (lk_act s a) ob"
proof -
  have "lk_abs (lk_act s a) ob = None"
    using lk_act_sim [OF inv, of a] no_birth [OF inv o, of a] o
    by (cases "lk_event s a") (auto simp: orphan_def)
  moreover have "creating (linkers (lk_act s a) ! j) \<noteq> Some ob" if "j < length (linkers s)" for j
    using creating_act [OF inv that, of a ob] o that by (auto simp: orphan_def)
  ultimately show ?thesis
    using o shm_objs_grow [of s a] by (auto simp: orphan_def in_set_conv_nth lk_act_length simp del: lk_act.simps)
qed

lemma polls_act:
  assumes inv: "lk_inv sz s" and o: "orphan s ob" and p: "polls s i ob"
  shows "polls (lk_act s a) i ob"
proof (cases a)
  case (LkStep j err)
  show ?thesis
  proof (cases "i = j")
    case True
    have "lk_stopped s i" using o p by (auto simp: orphan_def polls_def lk_stopped_def)
    then show ?thesis
      using lk_stopped_step [OF inv] p LkStep True by (auto simp: polls_def simp del: lk_act.simps)
  next
    case False
    then have "linkers (lk_act s a) ! i = linkers s ! i"
      using LkStep lk_step_linkers [of err "lk_pc (linkers s ! j)" s "linkers s ! j"]
      by (cases "lk_step err (lk_pc (linkers s ! j)) s (linkers s ! j)") auto
    then show ?thesis using p by (simp add: polls_def lk_act_length del: lk_act.simps)
  qed
next
  case (LkBegin j)
  then show ?thesis using p by (cases "i = j") (auto simp: polls_def)
next
  case (LkUnlink j err)
  then show ?thesis using p by (cases "i = j") (auto simp: polls_def)
next
  case (LkUse j off b)
  then show ?thesis using p by (auto simp: polls_def split: lk_pc.split shm_ptr.split)
qed

lemma orphan_run:
  "lk_inv sz s \<Longrightarrow> orphan s ob \<Longrightarrow> polls s i ob \<Longrightarrow> polls (lk_run s bs) i ob"
  by (induction bs arbitrary: s) (auto simp: lk_act_inv orphan_act polls_act simp del: lk_act.simps)

text \<open>
  C20: the polling loop has no way out when the creator is gone. If a process polls an
  object that is not published and no process is creating it any more, then whatever all
  the processes do from then on, that process polls forever.
\<close>

theorem link_orphan_polls_forever:
  assumes "size_ok sz" and s: "s = linked_by sz xs as" and "orphan s ob" and "polls s i ob"
  shows "lk_pc (linkers (lk_run s bs) ! i) = LkWait"
proof -
  have "polls (lk_run s bs) i ob"
    using linked_by_inv [OF assms(1)] assms by (intro orphan_run) auto
  then show ?thesis by (simp add: polls_def)
qed

text \<open>
  In the witness process 0 creates the object, process 1 opens it and maps it, then
  \<open>mmap\<close> fails in process 0, which removes the name and returns a null pointer.
\<close>

definition orphan_schedule :: "lk_action list" where
  "orphan_schedule =
     [LkBegin 0, LkStep 0 False, LkBegin 1, LkStep 1 False, LkStep 1 False, LkStep 1 False, LkStep 1 False,
      LkStep 0 False, LkStep 0 True, LkStep 0 False, LkStep 0 False, LkStep 0 False]"

theorem link_orphan_polls_forever_witness:
  "let s = linked_by 1 [''v'', ''v''] orphan_schedule
   in lk_pc (linkers s ! 0) = LkRet NULL \<and> lk_pc (linkers (lk_run s [LkStep 1 False]) ! 1) = LkWait"
proof -
  let ?s = "linked_by 1 [''v'', ''v''] orphan_schedule"
  have 1: "size_ok 1" by (simp add: size_ok_def off_defs)
  have f: "ftruncate (full_len 1) (stage (full_len 1) 0) = stage (full_len 1) 0"
    by (simp add: ftruncate_def)
  have s: "?s = \<lparr>shm_names = Map.empty, shm_objs = [stage (full_len 1) 0],
     linkers = [\<lparr>lk_name = ''v'', lk_size = 1, lk_pc = LkRet NULL, lk_fd = Some 0, lk_create = True,
        lk_p = MAP_FAILED, lk_fds = [], lk_maps = []\<rparr>,
       \<lparr>lk_name = ''v'', lk_size = 1, lk_pc = LkWait, lk_fd = Some 0, lk_create = False,
        lk_p = Mapped 0, lk_fds = [0], lk_maps = [0]\<rparr>]\<rparr>"
    using full_size_ok [OF 1]
    by (simp add: linked_by_def orphan_schedule_def lk_init_def Let_def ftruncate_fresh f)
  have 2: "orphan ?s 0" "polls ?s 1 0"
    unfolding s by (auto simp: orphan_def polls_def lk_abs_def creating_def)
  show ?thesis
    using link_orphan_polls_forever [OF 1 refl 2, of "[LkStep 1 False]"] by (simp add: Let_def s)
qed

section \<open>A link that fails later, and other sizes\<close>

text \<open>
  A link that fails separates processes that share a variable. Process 0 is linked;
  process 1 opens the same name, its \<open>mmap\<close> fails, and the failure path removes the name.
  Process 2 then links the same name and gets another object, although process 0 still
  uses the first one.
\<close>

definition failing_link :: "nat \<Rightarrow> lk_action list" where
  "failing_link i = LkBegin i # map (LkStep i) [False, False, False, True, False, False, False]"

lemma link_failure_splits:
  "let s = linked_by 1 [''v'', ''v'', ''v''] (link_steps 0 11 @ failing_link 1 @ link_steps 2 11)
   in map lk_pc (linkers s) = [LkRet (Mapped 0), LkRet NULL, LkRet (Mapped 1)]"
proof -
  have 1: "size_ok 1" by (simp add: size_ok_def off_defs)
  let ?s0 = "\<lparr>shm_names = [''v'' \<mapsto> 0], shm_objs = [linked_object (full_len 1)],
     linkers = lk_done ''v'' 1 True # linkers (lk_init (map (\<lambda>x. (x, 1)) [''v'', ''v'']))\<rparr>"
  let ?p = "LkBegin 2 # replicate 3 (LkStep 2 False)"
  have r0: "lk_run (lk_init (map (\<lambda>x. (x, 1)) [''v'', ''v'', ''v''])) (link_steps 0 11) = ?s0"
    using create_alone [OF 1, of "''v''" "[''v'', ''v'']"] by (simp only: linked_by_def)
  have sp: "link_steps 2 11 = ?p @ replicate 7 (LkStep 2 False) @ [LkStep 2 False]"
    by (simp add: link_steps_def numeral_eq_Suc)
  let ?s1 = "lk_run (lk_run ?s0 (failing_link 1)) ?p"
  have s1: "?s1 = \<lparr>shm_names = [''v'' \<mapsto> 1], shm_objs = [linked_object (full_len 1), stage (full_len 1) 0],
     linkers = [lk_done ''v'' 1 True,
       \<lparr>lk_name = ''v'', lk_size = 1, lk_pc = LkRet NULL, lk_fd = Some 0, lk_create = False,
        lk_p = MAP_FAILED, lk_fds = [], lk_maps = []\<rparr>,
       \<lparr>lk_name = ''v'', lk_size = 1, lk_pc = LkInit 0, lk_fd = Some 1, lk_create = True,
        lk_p = Mapped 1, lk_fds = [1], lk_maps = [1]\<rparr>]\<rparr>"
    using full_size_ok [OF 1]
    by (simp add: failing_link_def lk_init_def Let_def ftruncate_linked ftruncate_fresh numeral_eq_Suc)
  show ?thesis
    using init_all [where i = 2 and s = ?s1 and ob = 1 and sz = 1 and err = False]
    by (simp only: linked_by_def run_append r0 sp s1) (simp add: Let_def lk_done_def)
qed

text \<open>
  A link with a smaller size cuts a live variable. Process 0 uses slots of 8 bytes,
  then process 1 links the same name with slots of 1 byte: both calls return the object,
  and it no longer has the bytes that process 0 reads and writes.
\<close>

lemma link_smaller_size_cuts:
  "let s = lk_run (lk_init [(''v'', 8), (''v'', 1)]) (link_steps 0 11);
       s' = lk_run s (link_steps 1 6)
   in map lk_pc (linkers s') = [LkRet (Mapped 0), LkRet (Mapped 0)] \<and>
      length (shm_objs s ! 0) = OFF_DATA + 8 * SHM_BUFFER_CNT \<and>
      length (shm_objs s' ! 0) = OFF_DATA + 1 * SHM_BUFFER_CNT"
proof -
  have 8: "size_ok 8" and 1: "size_ok 1" by (simp_all add: size_ok_def off_defs)
  let ?t = "\<lambda>pc fd p maps. \<lparr>lk_name = ''v'', lk_size = 1, lk_pc = pc, lk_fd = fd, lk_create = False,
     lk_p = p, lk_fds = [], lk_maps = maps\<rparr>"
  let ?l1 = "\<lparr>lk_name = ''v'', lk_size = 1, lk_pc = LkIdle, lk_fd = None, lk_create = True,
     lk_p = NULL, lk_fds = [], lk_maps = []\<rparr>"
  let ?o = "linked_object (full_len 8)"
  let ?p = "LkBegin 0 # replicate 3 (LkStep 0 False)"
  let ?s0 = "lk_run (lk_init [(''v'', 8), (''v'', 1)]) ?p"
  have s0: "?s0 = \<lparr>shm_names = [''v'' \<mapsto> 0], shm_objs = [stage (full_len 8) 0],
     linkers = [\<lparr>lk_name = ''v'', lk_size = 8, lk_pc = LkInit 0, lk_fd = Some 0, lk_create = True,
        lk_p = Mapped 0, lk_fds = [0], lk_maps = [0]\<rparr>, ?l1]\<rparr>"
    using full_size_ok [OF 8] by (simp add: lk_init_def Let_def ftruncate_fresh numeral_eq_Suc)
  have "link_steps 0 11 = ?p @ replicate 7 (LkStep 0 False) @ [LkStep 0 False]"
    by (simp add: link_steps_def numeral_eq_Suc)
  then have s: "lk_run (lk_init [(''v'', 8), (''v'', 1)]) (link_steps 0 11) =
      \<lparr>shm_names = [''v'' \<mapsto> 0], shm_objs = [?o], linkers = [lk_done ''v'' 8 True, ?l1]\<rparr>"
    using init_all [where i = 0 and s = ?s0 and ob = 0 and sz = 8 and err = False]
    by (simp only: run_append s0) (simp add: lk_done_def)
  let ?o' = "ftruncate (full_len 1) ?o"
  have full: "full_len 8 = 328" "full_len 1 = 300" by (simp_all add: full_len_def off_defs)
  have len: "length ?o = 328" using length_objects(3) [OF full_len_data, of 8] full by simp
  then have o': "?o' = take 300 ?o" by (simp add: ftruncate_def full)
  have "created_of ?o' = created_of ?o"
    unfolding o' created_of_def load_def by (simp add: off_defs)
  then have "created_of ?o' \<noteq> 0" "length ?o' = 300"
    using created_fresh(3) [OF full_len_data, of 8] len o' by auto
  moreover have "link_steps 1 6 = [LkBegin 1, LkStep 1 False, LkStep 1 False, LkStep 1 False,
      LkStep 1 False, LkStep 1 False, LkStep 1 False]"
    by (simp add: link_steps_def numeral_eq_Suc)
  ultimately have "lk_run (lk_run (lk_init [(''v'', 8), (''v'', 1)]) (link_steps 0 11)) (link_steps 1 6) =
      \<lparr>shm_names = [''v'' \<mapsto> 0], shm_objs = [?o'],
       linkers = [lk_done ''v'' 8 True, ?t (LkRet (Mapped 0)) (Some 0) (Mapped 0) [0]]\<rparr>"
    unfolding s using full_size_ok [OF 1] by (simp add: Let_def off_defs full)
  then show ?thesis
    using s len \<open>length ?o' = 300\<close> by (simp add: Let_def lk_done_def off_defs)
qed

text \<open>
  The size arithmetic wraps. A link with \<open>size = 2^62\<close> succeeds and returns an object
  that has no byte of data at all.
\<close>

lemma full_size_overflow:
  "let s = lk_run (lk_init [(''v'', 2 ^ 62)]) (link_steps 0 11)
   in FULL_SIZE (2 ^ 62) = of_nat OFF_DATA \<and> lk_pc (linkers s ! 0) = LkRet (Mapped 0) \<and>
      data_of (shm_objs s ! 0) = []"
proof -
  define sz :: u64 where "sz = 2 ^ 62"
  have f: "FULL_SIZE sz = 296" by (simp add: sz_def FULL_SIZE_def off_defs)
  have n: "full_len 0 = 296" by (simp add: full_len_def off_defs)
  have g: "unat (FULL_SIZE sz) = full_len 0" "FULL_SIZE sz \<noteq> 0" "\<not> bit (FULL_SIZE sz) 63"
    unfolding f n by (simp_all add: bit_numeral_rec)
  let ?p = "[LkBegin 0, LkStep 0 False, LkStep 0 False, LkStep 0 False]"
  let ?s0 = "lk_run (lk_init [(''v'', sz)]) ?p"
  have s0: "?s0 = \<lparr>shm_names = [''v'' \<mapsto> 0], shm_objs = [stage (full_len 0) 0],
     linkers = [\<lparr>lk_name = ''v'', lk_size = sz, lk_pc = LkInit 0, lk_fd = Some 0, lk_create = True,
        lk_p = Mapped 0, lk_fds = [0], lk_maps = [0]\<rparr>]\<rparr>"
    using g by (simp add: lk_init_def Let_def ftruncate_fresh)
  have "link_steps 0 11 = ?p @ replicate 7 (LkStep 0 False) @ [LkStep 0 False]"
    by (simp add: link_steps_def numeral_eq_Suc)
  then have "lk_run (lk_init [(''v'', sz)]) (link_steps 0 11) =
      \<lparr>shm_names = [''v'' \<mapsto> 0], shm_objs = [linked_object (full_len 0)], linkers = [lk_done ''v'' sz True]\<rparr>"
    using init_all [where i = 0 and s = ?s0 and ob = 0 and sz = 0 and err = False]
    by (simp only: run_append s0) (simp add: lk_done_def)
  then show ?thesis
    using f n length_objects(3) [OF full_len_data, of 0] unfolding sz_def [symmetric]
    by (simp add: Let_def lk_done_def data_of_def off_defs)
qed


end
