(* ===== verification/Signal_Guard.thy ===== *)
theory Signal_Guard
  imports Host_Variable_Progress
begin

text \<open>
  The SIGINT guard of debug builds (src/host_variable.c, without \<open>NDEBUG\<close>): linking a
  variable puts \<open>__handler_wrap\<close> in front of the handler the process had, and reads and
  writes raise \<open>_host_variable_should_wait\<close> so that a SIGINT is dropped while a lock is held.
  The flag itself is part of the machine of reads and writes; this theory adds the handler
  chain and relates the two.
\<close>

section \<open>The handler chain\<close>

text \<open>
  What a process may have installed for SIGINT, and what a delivered signal does: nothing,
  a call of one of the program's own handlers, the end of the process by \<open>exit\<close>, or its
  end by the signal.
\<close>

datatype handler = SIG_DFL | SIG_IGN | Handler_wrap | User nat

datatype sig_effect = Dropped | Called nat int | Exited int | Killed int

text \<open>
  The globals \<open>_host_variable_should_wait\<close> and \<open>_host_variable_next_handler\<close> of a process,
  and the handler the kernel has for SIGINT.
\<close>

record sig_proc =
  sig_wait :: u8
  next_handler :: handler
  sigint_action :: handler

definition SIGINT :: int where "SIGINT = 2"

text \<open>\<open>__handler_wrap\<close>; the value \<open>None\<close> is a call that does not return.\<close>

partial_function (option) handler_wrap :: "sig_proc \<Rightarrow> int \<Rightarrow> sig_effect option" where
  "handler_wrap p signum =
     (if sig_wait p \<noteq> 0 then Some Dropped
      else case next_handler p of
        SIG_IGN \<Rightarrow> Some Dropped
      | SIG_DFL \<Rightarrow> if signum \<in> {1, 2, 9, 13, 14, 15} then Some (Exited 0) else Some Dropped
      | Handler_wrap \<Rightarrow> handler_wrap p signum
      | User u \<Rightarrow> Some (Called u signum))"

text \<open>\<open>_set_handler_wrap\<close>; \<open>err\<close> says that the query of the old handler fails.\<close>

definition set_handler_wrap :: "bool \<Rightarrow> sig_proc \<Rightarrow> sig_proc" where
  "set_handler_wrap err p =
     (if err then p else p\<lparr>next_handler := sigint_action p, sigint_action := Handler_wrap\<rparr>)"

text \<open>The kernel delivers a SIGINT.\<close>

definition deliver_sigint :: "sig_proc \<Rightarrow> sig_effect option" where
  "deliver_sigint p =
     (case sigint_action p of
        SIG_DFL \<Rightarrow> Some (Killed SIGINT)
      | SIG_IGN \<Rightarrow> Some Dropped
      | Handler_wrap \<Rightarrow> handler_wrap p SIGINT
      | User u \<Rightarrow> Some (Called u SIGINT))"

lemma handler_wrap_unguarded:
  "sig_wait p = 0 \<Longrightarrow> next_handler p \<noteq> Handler_wrap \<Longrightarrow> handler_wrap p signum =
    (case next_handler p of
        SIG_IGN \<Rightarrow> Some Dropped
      | SIG_DFL \<Rightarrow> if signum \<in> {1, 2, 9, 13, 14, 15} then Some (Exited 0) else Some Dropped
      | User u \<Rightarrow> Some (Called u signum) | Handler_wrap \<Rightarrow> None)"
  by (subst handler_wrap.simps) (auto split: handler.split)

lemma handler_wrap_guarded: "sig_wait p \<noteq> 0 \<Longrightarrow> handler_wrap p signum = Some Dropped"
  by (subst handler_wrap.simps) simp

text \<open>A wrapper that is its own next handler calls itself for ever.\<close>

lemma handler_wrap_diverges:
  assumes "sig_wait p = 0" "next_handler p = Handler_wrap"
  shows "handler_wrap p signum = None"
proof (cases "handler_wrap p signum")
  case (Some r)
  have "sig_wait p = 0 \<longrightarrow> next_handler p \<noteq> Handler_wrap"
    by (rule handler_wrap.raw_induct [OF _ Some]) (auto split: if_splits handler.splits)
  with assms show ?thesis by simp
qed

section \<open>The chain after linking\<close>

text \<open>
  The first link of a process keeps the behaviour of Ctrl-C outside reads and writes,
  and suspends it inside. With the flag raised the signal is dropped; otherwise the
  program's own handler still runs, and an ignored signal stays ignored. Only the default
  action changes: the process leaves by \<open>exit(0)\<close> instead of being killed by the signal.
\<close>

lemma first_link_guards:
  assumes "sigint_action p \<noteq> Handler_wrap"
  shows "deliver_sigint (set_handler_wrap False p) =
    (if sig_wait p \<noteq> 0 then Some Dropped
     else if sigint_action p = SIG_DFL then Some (Exited 0) else deliver_sigint p)"
  using assms
  by (cases "sigint_action p")
    (auto simp: deliver_sigint_def set_handler_wrap_def handler_wrap_guarded handler_wrap_unguarded SIGINT_def)

lemma first_link_guards_witness:
  "deliver_sigint (set_handler_wrap False \<lparr>sig_wait = 0, next_handler = SIG_DFL, sigint_action = User 7\<rparr>) =
     Some (Called 7 2)"
  using first_link_guards [of "\<lparr>sig_wait = 0, next_handler = SIG_DFL, sigint_action = User 7\<rparr>"]
  by (simp add: deliver_sigint_def SIGINT_def)

text \<open>
  C22: the second link of a process breaks Ctrl-C. After two links the wrapper is its own
  next handler, and a SIGINT outside reads and writes calls it without end, whatever
  handler the program had installed before.
\<close>

theorem second_link_never_returns:
  assumes "sig_wait p = 0"
  shows "deliver_sigint (set_handler_wrap False (set_handler_wrap False p)) = None"
  using assms by (simp add: deliver_sigint_def set_handler_wrap_def handler_wrap_diverges)

theorem second_link_never_returns_witness:
  "deliver_sigint (set_handler_wrap False (set_handler_wrap False
     \<lparr>sig_wait = 0, next_handler = SIG_DFL, sigint_action = User 7\<rparr>)) = None"
  using second_link_never_returns [of "\<lparr>sig_wait = 0, next_handler = SIG_DFL, sigint_action = User 7\<rparr>"]
  by simp

section \<open>The flag during reads and writes\<close>

text \<open>The points of a call between raising the flag and clearing it.\<close>

fun guarded_pc :: "hv_pc \<Rightarrow> bool" where
  "guarded_pc Idle = False"
| "guarded_pc (Ret _) = False"
| "guarded_pc Fault = False"
| "guarded_pc RdEnter = False"
| "guarded_pc WrClock = False"
| "guarded_pc (WrEnter _) = False"
| "guarded_pc (RelLoad _) = False"
| "guarded_pc (RelTry _ _) = False"
| "guarded_pc _ = True"

definition guard_inv :: "hv_sys \<Rightarrow> bool" where
  "guard_inv s \<longleftrightarrow>
     \<not> ndebug s \<and> distinct (map th_proc (threads s)) \<and>
     (\<forall>th \<in> set (threads s). guarded_pc (th_pc th) \<longrightarrow> should_wait s (th_proc th) \<noteq> 0)"

definition guard_start :: "hv_sys \<Rightarrow> bool" where
  "guard_start s \<longleftrightarrow> (\<exists>sz procs. distinct procs \<and> s = hv_init False sz procs)"

text \<open>One process per thread: nobody else touches the flag of the process.\<close>

lemma guard_update:
  assumes g: "guard_inv s" and i: "i < length (threads s)"
    and th': "th_proc th' = th_proc (threads s ! i)" "guarded_pc (th_pc th') \<longrightarrow> w (th_proc th') \<noteq> 0"
    and w: "\<And>p. p \<noteq> th_proc th' \<Longrightarrow> w p = should_wait s p"
    and s': "\<not> ndebug s'" "should_wait s' = w" "threads s' = (threads s)[i := th']"
  shows "guard_inv s'"
proof -
  have "map th_proc ((threads s)[i := th']) = map th_proc (threads s)"
    using th'(1) i by (simp add: map_update list_update_same_conv)
  then have d: "distinct (map th_proc ((threads s)[i := th']))"
    using g by (simp add: guard_inv_def)
  have "w (th_proc th) \<noteq> 0" if th: "th \<in> set ((threads s)[i := th'])" "guarded_pc (th_pc th)" for th
  proof -
    from th obtain j where j: "j < length (threads s)" "th = (threads s)[i := th'] ! j"
      by (auto simp: in_set_conv_nth)
    show ?thesis
    proof (cases "j = i")
      case True
      then show ?thesis using j th th'(2) by simp
    next
      case False
      have "map th_proc (threads s) ! j \<noteq> map th_proc (threads s) ! i"
        using g False i j by (subst nth_eq_iff_index_eq) (auto simp: guard_inv_def)
      then have "th_proc th \<noteq> th_proc th'"
        using False i j th'(1) by simp
      then show ?thesis
        using g False j th w by (auto simp: guard_inv_def)
    qed
  qed
  then show ?thesis using d s' by (simp add: guard_inv_def)
qed

lemma guard_keep:
  assumes g: "guard_inv s" "i < length (threads s)" and s': "threads s' = (threads s)[i := th']"
    "ndebug s' = ndebug s" "should_wait s' = should_wait s"
    and th: "th_proc th' = th_proc (threads s ! i)"
    "guarded_pc (th_pc th') \<Longrightarrow> guarded_pc (th_pc (threads s ! i))"
  shows "guard_inv s'"
proof (rule guard_update [OF g th(1), where w = "should_wait s" and s' = s'])
  have up: "guarded_pc (th_pc (threads s ! i)) \<Longrightarrow> should_wait s (th_proc (threads s ! i)) \<noteq> 0"
    using g by (simp add: guard_inv_def)
  show "guarded_pc (th_pc th') \<longrightarrow> should_wait s (th_proc th') \<noteq> 0"
    using up th by simp
  show "\<not> ndebug s'" using g(1) s' by (simp add: guard_inv_def)
qed (simp_all add: s')

lemma guard_mark:
  assumes g: "guard_inv s" "i < length (threads s)"
    and th: "th_proc th' = th_proc (threads s ! i)" "guarded_pc (th_pc th') \<longrightarrow> v \<noteq> 0"
  shows "guard_inv ((hv_mark s (threads s ! i) v)\<lparr>threads := (threads s)[i := th']\<rparr>)"
proof (rule guard_update [OF g th(1), where w = "(should_wait s)(th_proc (threads s ! i) := v)"])
qed (use g(1) th in \<open>simp_all add: guard_inv_def hv_mark_def\<close>)

lemma guard_step:
  assumes g: "guard_inv s" and i: "i < length (threads s)"
  shows "guard_inv (hv_step s i)"
proof (cases "th_pc (threads s ! i)")
  case RdEnter
  then show ?thesis using i by (auto simp: hv_step_unfold intro!: guard_mark [OF g i])
next
  case (RdLeave t)
  then show ?thesis using i by (auto simp: hv_step_unfold intro!: guard_mark [OF g i])
next
  case (WrEnter ts)
  then show ?thesis using i by (auto simp: hv_step_unfold intro!: guard_mark [OF g i])
next
  case WrLeave
  then show ?thesis using i by (auto simp: hv_step_unfold intro!: guard_mark [OF g i])
qed (use i in \<open>auto simp: hv_step_unfold intro!: guard_keep [OF g i]\<close>)

lemma guard_begin:
  assumes g: "guard_inv s"
  shows "guard_inv (hv_act s (BeginRead i op_size buf))" "guard_inv (hv_act s (BeginWrite i op_size bytes))"
proof -
  show "guard_inv (hv_act s (BeginRead i op_size buf))"
  proof (cases "may_begin s i op_size buf")
    case True
    then have i: "i < length (threads s)" by (simp add: may_begin_def)
    show ?thesis
      using True by (simp only: hv_act.simps if_True)
        (rule guard_keep [OF g i, where th' = "(threads s ! i)\<lparr>th_pc := RdEnter, th_op := op_size, th_buf := buf\<rparr>"],
          simp_all)
  qed (use g in simp)
  show "guard_inv (hv_act s (BeginWrite i op_size bytes))"
  proof (cases "may_begin s i op_size bytes")
    case True
    then have i: "i < length (threads s)" by (simp add: may_begin_def)
    show ?thesis
      using True by (simp only: hv_act.simps if_True)
        (rule guard_keep [OF g i, where th' = "(threads s ! i)\<lparr>th_pc := WrClock, th_op := op_size, th_data := bytes\<rparr>"],
          simp_all)
  qed (use g in simp)
qed

lemma guard_act: "guard_inv s \<Longrightarrow> guard_inv (hv_act s a)"
proof (cases a)
  case (Tick now)
  assume "guard_inv s"
  then show ?thesis using Tick by (auto simp: guard_inv_def)
next
  case (Step i)
  assume "guard_inv s"
  then show ?thesis
    using Step guard_step [of s i] by (cases "i < length (threads s)") (auto simp: hv_step_def)
qed (simp_all only: guard_begin)

lemma guard_start_inv: "guard_start s \<Longrightarrow> guard_inv s"
  by (auto simp: guard_start_def guard_inv_def hv_init_def comp_def)

interpretation guard: machine hv_act guard_start guard_inv
  by unfold_locales (rule guard_start_inv guard_act, assumption)+

text \<open>The signal state of a process of the machine, linked once over the handler \<open>h\<close>.\<close>

definition sig_state :: "hv_sys \<Rightarrow> handler \<Rightarrow> nat \<Rightarrow> sig_proc" where
  "sig_state s h p =
     set_handler_wrap False \<lparr>sig_wait = should_wait s p, next_handler = SIG_DFL, sigint_action = h\<rparr>"

fun releasing :: "hv_pc \<Rightarrow> bool" where
  "releasing (RelLoad _) = True"
| "releasing (RelTry _ _) = True"
| "releasing _ = False"

lemma held_guarded: "held p \<noteq> None \<Longrightarrow> \<not> releasing p \<Longrightarrow> guarded_pc p"
  by (cases p) (auto simp: held_def)

lemma copies_covered:
  assumes "distinct procs" and s: "s = hv_run (hv_init False sz procs) as"
    and th: "th \<in> set (threads s)" "held (th_pc th) \<noteq> None" "\<not> releasing (th_pc th)"
  shows "deliver_sigint (sig_state s h (th_proc th)) = Some Dropped"
proof -
  have "guard_inv s"
    unfolding s using assms(1) by (intro guard.inv_reach) (auto simp: guard_start_def)
  then have "should_wait s (th_proc th) \<noteq> 0"
    using th held_guarded by (auto simp: guard_inv_def)
  then show ?thesis
    by (simp add: sig_state_def set_handler_wrap_def deliver_sigint_def handler_wrap_guarded)
qed

text \<open>
  Where the guard fails. A read clears the flag before it gives its lock back, so a
  SIGINT in between ends the process with the lock held. A second thread of the process
  that finishes a read clears the flag under a thread that is filling a slot. And a write
  that is refused never clears it, so that the process ignores every later SIGINT although
  it is in no call.
\<close>

lemma guard_gaps:
  "let s1 = hv_run (hv_init False 1 [5]) (read_call 0 6);
       s2 = hv_run (hv_init False 1 [5, 5]) ([clock_at 1] @ write_call 0 7 6 @ read_call 1 13);
       s3 = hv_run (hv_init False 1 [1, 2, 3, 5])
              (write_call 0 5 6 @ write_call 1 6 6 @ write_call 2 7 6 @ write_call 3 8 4)
   in held (th_pc (threads s1 ! 0)) = Some 0 \<and> sig_wait (sig_state s1 SIG_DFL 5) = 0 \<and>
      held (th_pc (threads s2 ! 0)) = Some 1 \<and> sig_wait (sig_state s2 SIG_DFL 5) = 0 \<and>
      th_pc (threads s3 ! 3) = Ret (-1) \<and> sig_wait (sig_state s3 SIG_DFL 5) = 2"
  by code_simp



end
