(* ===== verification/Ipc_Logger.thy ===== *)
theory Ipc_Logger
  imports Ipc_Prelude
begin

text \<open>
  The logger (src/robot_ipc_logger.c) and the codes it is called with
  (include/robot_ipc_constant.h). Output is the string that goes to stdout; the broken-down
  local time and the text \<open>vprintf\<close> makes of the user's message are arguments.
\<close>

section \<open>Codes and levels\<close>

definition ROBOT_OK :: int where "ROBOT_OK = 0"
definition WARN_SHM_NOREAD :: int where "WARN_SHM_NOREAD = 100"
definition WARN_SHM_QUFULL :: int where "WARN_SHM_QUFULL = 101"
definition ERR_SHM_AQMETALOCK :: int where "ERR_SHM_AQMETALOCK = 200"
definition ERR_SHM_NOWRITETIME :: int where "ERR_SHM_NOWRITETIME = 201"
definition ERR_PIPE_REQ :: int where "ERR_PIPE_REQ = 202"
definition ERR_PIPE_CLOSE :: int where "ERR_PIPE_CLOSE = 203"
definition FATAL_SHM_CORRUPT :: int where "FATAL_SHM_CORRUPT = 300"

lemmas code_defs =
  ROBOT_OK_def WARN_SHM_NOREAD_def WARN_SHM_QUFULL_def ERR_SHM_AQMETALOCK_def
  ERR_SHM_NOWRITETIME_def ERR_PIPE_REQ_def ERR_PIPE_CLOSE_def FATAL_SHM_CORRUPT_def

datatype LogLevel = LOG_LEVEL_INFO | LOG_LEVEL_WARN | LOG_LEVEL_ERROR | LOG_LEVEL_FATAL

definition code_to_level :: "int \<Rightarrow> LogLevel" where
  "code_to_level code =
     (if code \<ge> 1 \<and> code < 100 then LOG_LEVEL_INFO
      else if code \<ge> 100 \<and> code < 200 then LOG_LEVEL_WARN
      else if code \<ge> 200 \<and> code < 300 then LOG_LEVEL_ERROR
      else if code \<ge> 300 then LOG_LEVEL_FATAL
      else LOG_LEVEL_WARN)"

text \<open>The \<open>default\<close> of the code's \<open>switch\<close> has no value of the enumeration.\<close>

fun log_level_str :: "LogLevel \<Rightarrow> string" where
  "log_level_str LOG_LEVEL_INFO = ''INFO''"
| "log_level_str LOG_LEVEL_WARN = ''WARN''"
| "log_level_str LOG_LEVEL_ERROR = ''ERROR''"
| "log_level_str LOG_LEVEL_FATAL = ''FATAL''"

section \<open>Output\<close>

text \<open>The conversions \<open>%d\<close> and \<open>%0wd\<close> of \<open>printf\<close>; the width counts the sign.\<close>

fun digits :: "nat \<Rightarrow> string" where
  "digits n = (if n < 10 then [char_of (48 + n)] else digits (n div 10) @ [char_of (48 + n mod 10)])"

declare digits.simps [simp del]

definition fmt_d :: "int \<Rightarrow> string" where
  "fmt_d i = (if i < 0 then CHR ''-'' # digits (nat (- i)) else digits (nat i))"

definition fmt_0d :: "nat \<Rightarrow> int \<Rightarrow> string" where
  "fmt_0d w i =
     (if i < 0 then CHR ''-'' # replicate (w - 1 - length (digits (nat (- i)))) CHR ''0'' @ digits (nat (- i))
      else replicate (w - length (digits (nat i))) CHR ''0'' @ digits (nat i))"

record tm =
  tm_year :: int
  tm_mon :: int
  tm_mday :: int
  tm_hour :: int
  tm_min :: int
  tm_sec :: int

text \<open>
  \<open>robot_log\<close>: what it prints. \<open>timenow\<close> is what \<open>localtime\<close> returned; a null pointer is
  dereferenced without a check, and the result \<open>None\<close> is that crash.
\<close>

definition robot_log :: "int \<Rightarrow> tm option \<Rightarrow> string \<Rightarrow> string option" where
  "robot_log code timenow message =
     (if code = ROBOT_OK then Some []
      else case timenow of
        None \<Rightarrow> None
      | Some t \<Rightarrow>
          let level = code_to_level code in
          Some (''['' @ fmt_0d 4 (tm_year t + 1900) @ ''-'' @ fmt_0d 2 (tm_mon t + 1) @ ''-'' @
                fmt_0d 2 (tm_mday t) @ '' '' @ fmt_0d 2 (tm_hour t) @ '':'' @ fmt_0d 2 (tm_min t) @
                '':'' @ fmt_0d 2 (tm_sec t) @ ''] ['' @ log_level_str level @ ''] (code='' @
                fmt_d code @ '') '' @ message @ [CHR 10]))"

section \<open>Reading a line back\<close>

text \<open>The number that decimal digits stand for, with and without a sign.\<close>

definition num :: "string \<Rightarrow> nat" where
  "num = foldl (\<lambda>a c. 10 * a + (of_char c - 48)) 0"

definition signed_num :: "string \<Rightarrow> int" where
  "signed_num cs = (if cs \<noteq> [] \<and> hd cs = CHR ''-'' then - int (num (tl cs)) else int (num cs))"

lemma num_Nil [simp]: "num [] = 0"
  by (simp add: num_def)

lemma num_snoc [simp]: "num (cs @ [c]) = 10 * num cs + (of_char c - 48)"
  by (simp add: num_def)

lemma of_char_digit: "n < 10 \<Longrightarrow> of_char (char_of (48 + n :: nat) :: char) = (48 + n :: nat)"
  by (simp add: of_char_of)

lemma num_digits [simp]: "num (digits n) = n"
proof (induction n rule: digits.induct)
  case (1 n)
  show ?case
  proof (cases "n < 10")
    case True
    then have "digits n = [] @ [char_of (48 + n)]" by (simp add: digits.simps)
    then have "num (digits n) = of_char (char_of (48 + n) :: char) - 48"
      by (simp only: num_snoc num_Nil)
    then show ?thesis unfolding of_char_digit [OF True] by simp
  next
    case False
    then have "digits n = digits (n div 10) @ [char_of (48 + n mod 10)]"
      by (subst digits.simps) simp
    then have "num (digits n) = 10 * (n div 10) + (of_char (char_of (48 + n mod 10) :: char) - 48)"
      by (simp only: num_snoc 1 [OF False])
    then show ?thesis using of_char_digit [of "n mod 10"] by simp
  qed
qed

definition is_digit :: "char \<Rightarrow> bool" where
  "is_digit c \<longleftrightarrow> 48 \<le> (of_char c :: nat) \<and> (of_char c :: nat) < 58"

lemma is_digit_set: "c \<in> set (digits n) \<Longrightarrow> is_digit c"
proof (induction n rule: digits.induct)
  case (1 n)
  then show ?case
    by (subst (asm) (2) digits.simps) (auto simp: is_digit_def of_char_digit split: if_splits)
qed

lemma digits_not_Nil [simp]: "digits n \<noteq> []"
  by (subst digits.simps) simp

lemma length_digits: "n < 10 ^ w \<Longrightarrow> 0 < w \<Longrightarrow> length (digits n) \<le> w"
proof (induction w arbitrary: n)
  case (Suc w)
  show ?case
  proof (cases "n < 10")
    case False
    with Suc.prems have "n div 10 < 10 ^ w" and "0 < w"
      by (simp add: less_mult_imp_div_less mult.commute, cases w) auto
    with Suc.IH have "length (digits (n div 10)) \<le> w" by blast
    with False show ?thesis by (subst digits.simps) simp
  qed (simp add: digits.simps)
qed simp

lemma num_zeros [simp]: "num (replicate k CHR ''0'' @ cs) = num cs"
proof -
  have "foldl (\<lambda>a c. 10 * a + (of_char c - 48)) (0 :: nat) (replicate k CHR ''0'') = 0"
    by (induction k) simp_all
  then show ?thesis by (simp add: num_def)
qed

text \<open>A field of fixed width: its length, and its value.\<close>

lemma field_0d:
  assumes "0 \<le> i" "i < 10 ^ w" "0 < w"
  shows "length (fmt_0d w i) = w" "int (num (fmt_0d w i)) = i"
proof -
  have "nat i < nat (10 ^ w)"
    using assms by (simp add: nat_less_eq_zless)
  then have "nat i < 10 ^ w"
    by (simp add: nat_power_eq)
  then show "length (fmt_0d w i) = w" "int (num (fmt_0d w i)) = i"
    using assms length_digits [of "nat i" w] by (simp_all add: fmt_0d_def)
qed

definition tm_ok :: "tm \<Rightarrow> bool" where
  "tm_ok t \<longleftrightarrow> 0 \<le> tm_year t + 1900 \<and> tm_year t + 1900 < 10000 \<and> 0 \<le> tm_mon t \<and> tm_mon t < 12 \<and>
     1 \<le> tm_mday t \<and> tm_mday t \<le> 31 \<and> 0 \<le> tm_hour t \<and> tm_hour t < 24 \<and>
     0 \<le> tm_min t \<and> tm_min t < 60 \<and> 0 \<le> tm_sec t \<and> tm_sec t \<le> 60"

lemma tm_fields:
  assumes "tm_ok t"
  shows "length (fmt_0d 4 (tm_year t + 1900)) = 4" "length (fmt_0d 2 (tm_mon t + 1)) = 2"
    "length (fmt_0d 2 (tm_mday t)) = 2" "length (fmt_0d 2 (tm_hour t)) = 2"
    "length (fmt_0d 2 (tm_min t)) = 2" "length (fmt_0d 2 (tm_sec t)) = 2"
    and "int (num (fmt_0d 4 (tm_year t + 1900))) = tm_year t + 1900"
    "int (num (fmt_0d 2 (tm_mon t + 1))) = tm_mon t + 1"
    "int (num (fmt_0d 2 (tm_mday t))) = tm_mday t" "int (num (fmt_0d 2 (tm_hour t))) = tm_hour t"
    "int (num (fmt_0d 2 (tm_min t))) = tm_min t" "int (num (fmt_0d 2 (tm_sec t))) = tm_sec t"
  using assms by (auto intro!: field_0d simp: tm_ok_def)

lemma minus_no_digit: "\<not> is_digit CHR ''-''"
  by (simp add: is_digit_def)

lemma signed_num_fmt_d [simp]: "signed_num (fmt_d i) = i"
proof -
  have "hd (digits n) \<noteq> CHR ''-''" for n
    using is_digit_set [of "hd (digits n)" n] minus_no_digit by auto
  then show ?thesis by (simp add: signed_num_def fmt_d_def)
qed

lemma close_not_in_fmt_d: "CHR '')'' \<notin> set (fmt_d i)"
  using is_digit_set [of "CHR '')''"] by (auto simp: fmt_d_def is_digit_def)

lemma close_not_in_level: "CHR '']'' \<notin> set (log_level_str l)"
  by (cases l) auto

lemma takeWhile_until: "c \<notin> set xs \<Longrightarrow> takeWhile (\<lambda>x. x \<noteq> c) (xs @ c # ys) = xs"
  by (induction xs) auto

lemma dropWhile_until: "c \<notin> set xs \<Longrightarrow> dropWhile (\<lambda>x. x \<noteq> c) (xs @ c # ys) = c # ys"
  by (induction xs) auto

text \<open>The fields of a line, by position up to the level and by delimiter after it.\<close>

definition log_time :: "string \<Rightarrow> tm" where
  "log_time l =
     \<lparr>tm_year = int (num (take 4 (drop 1 l))) - 1900, tm_mon = int (num (take 2 (drop 6 l))) - 1,
      tm_mday = int (num (take 2 (drop 9 l))), tm_hour = int (num (take 2 (drop 12 l))),
      tm_min = int (num (take 2 (drop 15 l))), tm_sec = int (num (take 2 (drop 18 l)))\<rparr>"

definition log_rest :: "string \<Rightarrow> string \<times> int \<times> string" where
  "log_rest l =
     (let r = drop 23 l; level = takeWhile (\<lambda>c. c \<noteq> CHR '']'') r;
          r' = drop (length level + 8) r; code = takeWhile (\<lambda>c. c \<noteq> CHR '')'') r'
      in (level, signed_num code, butlast (drop (length code + 2) r')))"

lemma log_fields:
  fixes y mo d h mi s msg :: string
  assumes "length y = 4" "length mo = 2" "length d = 2" "length h = 2" "length mi = 2" "length s = 2"
    and "CHR '']'' \<notin> set lev" "CHR '')'' \<notin> set code"
  defines "l \<equiv> ''['' @ y @ ''-'' @ mo @ ''-'' @ d @ '' '' @ h @ '':'' @ mi @ '':'' @ s @ ''] ['' @
                lev @ ''] (code='' @ code @ '') '' @ msg @ [CHR 10]"
  shows "log_time l = \<lparr>tm_year = int (num y) - 1900, tm_mon = int (num mo) - 1, tm_mday = int (num d),
           tm_hour = int (num h), tm_min = int (num mi), tm_sec = int (num s)\<rparr>"
    and "log_rest l = (lev, signed_num code, msg)"
proof -
  show "log_time l = \<lparr>tm_year = int (num y) - 1900, tm_mon = int (num mo) - 1, tm_mday = int (num d),
           tm_hour = int (num h), tm_min = int (num mi), tm_sec = int (num s)\<rparr>"
    using assms(1-6) by (simp add: log_time_def l_def)
  have r: "drop 23 l = lev @ CHR '']'' # '' (code='' @ code @ CHR '')'' # '' '' @ msg @ [CHR 10]"
    using assms(1-6) by (simp add: l_def)
  show "log_rest l = (lev, signed_num code, msg)"
    unfolding log_rest_def Let_def r takeWhile_until [OF assms(7)]
    using takeWhile_until [OF assms(8)] by (simp add: butlast_append)
qed

section \<open>Properties\<close>

text \<open>
  A log line is unambiguous. The line that \<open>robot_log\<close> prints for a code other than
  \<open>ROBOT_OK\<close> gives back the local time, the name of the level, the code with its sign and
  the user's message, whatever characters the message has.
\<close>

lemma robot_log_roundtrip:
  assumes "tm_ok t" and "code \<noteq> ROBOT_OK" and "robot_log code (Some t) msg = Some line"
  shows "log_time line = t \<and> log_rest line = (log_level_str (code_to_level code), code, msg)"
proof -
  note F = tm_fields [OF assms(1)]
  show ?thesis
    using assms(2,3) log_fields [OF F(1-6) close_not_in_level close_not_in_fmt_d, of "code_to_level code" code msg]
    by (auto simp: robot_log_def Let_def F)
qed

lemma robot_log_roundtrip_witness:
  "let t = \<lparr>tm_year = 125, tm_mon = 0, tm_mday = 2, tm_hour = 3, tm_min = 4, tm_sec = 5\<rparr>;
       line = ''[2025-01-02 03:04:05] [WARN] (code=-5) a) b'' @ [CHR 10]
   in robot_log (- 5) (Some t) ''a) b'' = Some line \<and> log_time line = t \<and>
      log_rest line = (''WARN'', - 5, ''a) b'')"
proof -
  let ?t = "\<lparr>tm_year = 125, tm_mon = 0, tm_mday = 2, tm_hour = 3, tm_min = 4, tm_sec = 5\<rparr>"
  let ?l = "''[2025-01-02 03:04:05] [WARN] (code=-5) a) b'' @ [CHR 10]"
  have 1: "robot_log (- 5) (Some ?t) ''a) b'' = Some ?l" by code_simp
  have 2: "log_level_str (code_to_level (- 5)) = ''WARN''" by code_simp
  show ?thesis
    using robot_log_roundtrip [of ?t "- 5" "''a) b''" ?l] 1 2 by (simp add: Let_def tm_ok_def ROBOT_OK_def)
qed

text \<open>
  The constants are logged at the level their names say, and every negative code, the
  ones that the library's functions return for an error, is logged as a warning only.
\<close>

lemma log_levels_of_codes:
  "map code_to_level [WARN_SHM_NOREAD, WARN_SHM_QUFULL] = [LOG_LEVEL_WARN, LOG_LEVEL_WARN] \<and>
   map code_to_level [ERR_SHM_AQMETALOCK, ERR_SHM_NOWRITETIME, ERR_PIPE_REQ, ERR_PIPE_CLOSE] =
     replicate 4 LOG_LEVEL_ERROR \<and>
   code_to_level FATAL_SHM_CORRUPT = LOG_LEVEL_FATAL \<and>
   {code. code_to_level code = LOG_LEVEL_WARN} = {..0} \<union> {100..199}"
  by (auto simp: code_to_level_def code_defs numeral_eq_Suc split: if_splits)

end
