(* ===== verification/Ipc_Posix.thy ===== *)
theory Ipc_Posix
  imports Ipc_Logger
begin

text \<open>
  What the host functions use of the operating system: descriptors, directories, FIFOs,
  pipes, \<open>epoll\<close> and allocation. The state \<open>world\<close> is shared by all processes; every
  system call has the number of the calling process as its first argument. A plan says
  which of the coming calls fail, and with which error; \<open>errno\<close> is kept per process. A
  call that would block is a value of its own. Pipes hold bytes up to a capacity, and a
  write of at most \<open>PIPE_BUF\<close> bytes is all or nothing, as POSIX demands (the library
  makes no longer ones).
\<close>

section \<open>Descriptor tables\<close>

text \<open>
  The interface: a lookup, and two operations that change one descriptor each. A new
  descriptor is one that was not in use.
\<close>

locale fd_table =
  fixes look :: "'t \<Rightarrow> nat \<Rightarrow> 'f option"
    and new_fd :: "'t \<Rightarrow> nat"
    and install :: "nat \<Rightarrow> 'f \<Rightarrow> 't \<Rightarrow> 't"
    and remove_fd :: "nat \<Rightarrow> 't \<Rightarrow> 't"
  assumes new_unused: "look t (new_fd t) = None"
    and look_install: "look t n = None \<Longrightarrow> n = new_fd t \<Longrightarrow>
      look (install n f t) m = (if m = n then Some f else look t m)"
    and look_remove: "look (remove_fd n t) m = (if m = n then None else look t m)"
begin

lemma look_new: "look (install (new_fd t) f t) m = (if m = new_fd t then Some f else look t m)"
  by (rule look_install [OF new_unused refl])

lemma new_fd_fresh: "look t m = Some g \<Longrightarrow> m \<noteq> new_fd t"
  using new_unused by auto

lemma open_close: "look (remove_fd (new_fd t) (install (new_fd t) f t)) m = look t m"
  using new_unused by (simp add: look_remove look_new)

lemma open_keeps: "look t m = Some g \<Longrightarrow> look (install (new_fd t) f t) m = Some g"
  using new_unused by (auto simp: look_new)

end

text \<open>The tables of the model: a list of slots, and the lowest free one is taken.\<close>

definition fd_look :: "'f option list \<Rightarrow> nat \<Rightarrow> 'f option" where
  "fd_look t n = (if n < length t then t ! n else None)"

definition fd_new :: "'f option list \<Rightarrow> nat" where
  "fd_new t = length (takeWhile (\<lambda>e. e \<noteq> None) t)"

definition fd_install :: "nat \<Rightarrow> 'f \<Rightarrow> 'f option list \<Rightarrow> 'f option list" where
  "fd_install n f t = (if n < length t then t[n := Some f] else t @ [Some f])"

definition fd_remove :: "nat \<Rightarrow> 'f option list \<Rightarrow> 'f option list" where
  "fd_remove n t = t[n := None]"

lemma fd_new_unused: "fd_look t (fd_new t) = None"
  unfolding fd_look_def fd_new_def using nth_length_takeWhile [of "\<lambda>e. e \<noteq> None" t] by auto

lemma fd_new_lowest: "fd_look t n = None \<Longrightarrow> fd_new t \<le> n"
proof (rule ccontr)
  assume none: "fd_look t n = None" and "\<not> fd_new t \<le> n"
  then have n: "n < length (takeWhile (\<lambda>e. e \<noteq> None) t)" by (simp add: fd_new_def)
  have "takeWhile (\<lambda>e. e \<noteq> None) t ! n \<noteq> None" using set_takeWhileD [OF nth_mem [OF n]] by simp
  then show False
    using none n length_takeWhile_le [of "\<lambda>e. e \<noteq> None" t] by (simp add: fd_look_def takeWhile_nth)
qed

lemma fd_new_le: "fd_new t \<le> length t"
  unfolding fd_new_def by (rule length_takeWhile_le)

interpretation fds: fd_table fd_look fd_new fd_install fd_remove
proof unfold_locales
  fix t :: "'a option list" and n m and f :: 'a
  show "fd_look t (fd_new t) = None" by (rule fd_new_unused)
  show "fd_look (fd_remove n t) m = (if m = n then None else fd_look t m)"
    by (auto simp: fd_look_def fd_remove_def nth_list_update)
  assume "n = fd_new t"
  then have "n \<le> length t" using fd_new_le by simp
  then show "fd_look (fd_install n f t) m = (if m = n then Some f else fd_look t m)"
    by (auto simp: fd_look_def fd_install_def nth_list_update nth_append)
qed

section \<open>The state of the system\<close>

text \<open>Only the errors that the library looks at have names.\<close>

datatype errno = EEXIST | ENOENT | EBADF | EMSGSIZE | EOTHER

text \<open>What a descriptor is open on: a FIFO for reading and writing, an end of a pipe, an epoll.\<close>

datatype descr = Fifo nat | PipeRead nat | PipeWrite nat | Epoll nat

text \<open>
  \<open>w_pipes\<close> holds the bytes of every pipe and FIFO; an epoll object is the list of the pipes
  it watches for input, each with the \<open>data\<close> that was registered; \<open>w_heap\<close> counts the
  allocations that were not freed.
\<close>

record world =
  w_dirs :: "string list"
  w_fifos :: "string \<Rightarrow> nat option"
  w_pipes :: "u8 list list"
  w_cap :: nat
  w_epolls :: "(nat \<times> int) list list"
  w_fds :: "nat \<Rightarrow> descr option list"
  w_errno :: "nat \<Rightarrow> errno"
  w_heap :: nat
  w_plan :: "errno option list"

definition PIPE_BUF :: nat where
  "PIPE_BUF = 4096"

text \<open>The outcome of a call that may block.\<close>

datatype 'a io = Blocked | Done 'a

definition file_of :: "world \<Rightarrow> nat \<Rightarrow> int \<Rightarrow> descr option" where
  "file_of w pid fd = (if fd < 0 then None else fd_look (w_fds w pid) (nat fd))"

fun read_end :: "descr \<Rightarrow> nat option" where
  "read_end (Fifo q) = Some q"
| "read_end (PipeRead q) = Some q"
| "read_end _ = None"

fun write_end :: "descr \<Rightarrow> nat option" where
  "write_end (Fifo q) = Some q"
| "write_end (PipeWrite q) = Some q"
| "write_end _ = None"

section \<open>System calls\<close>

text \<open>The next call of the plan; a failing call sets \<open>errno\<close> and returns -1.\<close>

definition next_fault :: "world \<Rightarrow> errno option \<times> world" where
  "next_fault w = (case w_plan w of [] \<Rightarrow> (None, w) | e # es \<Rightarrow> (e, w\<lparr>w_plan := es\<rparr>))"

definition fail_with :: "nat \<Rightarrow> errno \<Rightarrow> world \<Rightarrow> int \<times> world" where
  "fail_with pid e w = (-1, w\<lparr>w_errno := (w_errno w)(pid := e)\<rparr>)"

definition faulty :: "nat \<Rightarrow> (world \<Rightarrow> int \<times> world) \<Rightarrow> world \<Rightarrow> int \<times> world" where
  "faulty pid call w =
     (case next_fault w of (Some e, w) \<Rightarrow> fail_with pid e w | (None, w) \<Rightarrow> call w)"

definition install_file :: "nat \<Rightarrow> descr \<Rightarrow> world \<Rightarrow> int \<times> world" where
  "install_file pid f w =
     (let n = fd_new (w_fds w pid)
      in (int n, w\<lparr>w_fds := (w_fds w)(pid := fd_install n f (w_fds w pid))\<rparr>))"

text \<open>The directory of a path is everything up to its last slash.\<close>

definition dirname :: "string \<Rightarrow> string" where
  "dirname path = rev (dropWhile (\<lambda>c. c \<noteq> CHR ''/'') (rev path))"

definition sys_mkdir :: "nat \<Rightarrow> string \<Rightarrow> world \<Rightarrow> int \<times> world" where
  "sys_mkdir pid path =
     faulty pid (\<lambda>w. if path \<in> set (w_dirs w) then fail_with pid EEXIST w
                     else (0, w\<lparr>w_dirs := path # w_dirs w\<rparr>))"

definition sys_mkfifo :: "nat \<Rightarrow> string \<Rightarrow> world \<Rightarrow> int \<times> world" where
  "sys_mkfifo pid path =
     faulty pid (\<lambda>w. if dirname path \<notin> set (w_dirs w) then fail_with pid ENOENT w
                     else if w_fifos w path \<noteq> None then fail_with pid EEXIST w
                     else (0, w\<lparr>w_fifos := (w_fifos w)(path \<mapsto> length (w_pipes w)),
                                w_pipes := w_pipes w @ [[]]\<rparr>))"

text \<open>\<open>open(path, O_RDWR)\<close>\<close>

definition sys_open :: "nat \<Rightarrow> string \<Rightarrow> world \<Rightarrow> int \<times> world" where
  "sys_open pid path =
     faulty pid (\<lambda>w. case w_fifos w path of
         None \<Rightarrow> fail_with pid ENOENT w
       | Some q \<Rightarrow> install_file pid (Fifo q) w)"

text \<open>\<open>close\<close> gives the descriptor back even when it reports an error.\<close>

definition sys_close :: "nat \<Rightarrow> int \<Rightarrow> world \<Rightarrow> int \<times> world" where
  "sys_close pid fd w =
     (if file_of w pid fd = None then fail_with pid EBADF w
      else faulty pid (\<lambda>w. (0, w)) (w\<lparr>w_fds := (w_fds w)(pid := fd_remove (nat fd) (w_fds w pid))\<rparr>))"

text \<open>\<open>pipe\<close> returns the two descriptors, \<open>epoll_create1\<close> one.\<close>

definition sys_pipe :: "nat \<Rightarrow> world \<Rightarrow> (int \<times> int) option \<times> world" where
  "sys_pipe pid w =
     (case next_fault w of
        (Some e, w) \<Rightarrow> (None, snd (fail_with pid e w))
      | (None, w) \<Rightarrow>
          let q = length (w_pipes w);
              (r, w) = install_file pid (PipeRead q) (w\<lparr>w_pipes := w_pipes w @ [[]]\<rparr>);
              (s, w) = install_file pid (PipeWrite q) w
          in (Some (r, s), w))"

definition sys_epoll_create :: "nat \<Rightarrow> world \<Rightarrow> int \<times> world" where
  "sys_epoll_create pid =
     faulty pid (\<lambda>w. install_file pid (Epoll (length (w_epolls w))) (w\<lparr>w_epolls := w_epolls w @ [[]]\<rparr>))"

definition sys_epoll_add :: "nat \<Rightarrow> int \<Rightarrow> int \<Rightarrow> int \<Rightarrow> world \<Rightarrow> int \<times> world" where
  "sys_epoll_add pid ep fd dat =
     faulty pid (\<lambda>w. case (file_of w pid ep, file_of w pid fd) of
         (Some (Epoll e), Some f) \<Rightarrow>
           (case read_end f of
              Some q \<Rightarrow> (0, w\<lparr>w_epolls := (w_epolls w)[e := w_epolls w ! e @ [(q, dat)]]\<rparr>)
            | None \<Rightarrow> fail_with pid EOTHER w)
       | _ \<Rightarrow> fail_with pid EBADF w)"

text \<open>Reading waits for a first byte, writing for room for all bytes.\<close>

definition sys_read :: "nat \<Rightarrow> int \<Rightarrow> nat \<Rightarrow> world \<Rightarrow> (int \<times> u8 list \<times> world) io" where
  "sys_read pid fd n w =
     (case next_fault w of
        (Some e, w) \<Rightarrow> Done (-1, [], snd (fail_with pid e w))
      | (None, w) \<Rightarrow>
          (case Option.bind (file_of w pid fd) read_end of
             None \<Rightarrow> Done (-1, [], snd (fail_with pid EBADF w))
           | Some q \<Rightarrow>
               let bs = w_pipes w ! q in
               if n = 0 then Done (0, [], w)
               else if bs = [] then Blocked
               else Done (int (min n (length bs)), take n bs,
                          w\<lparr>w_pipes := (w_pipes w)[q := drop n bs]\<rparr>)))"

definition sys_write :: "nat \<Rightarrow> int \<Rightarrow> u8 list \<Rightarrow> world \<Rightarrow> (int \<times> world) io" where
  "sys_write pid fd bytes w =
     (case next_fault w of
        (Some e, w) \<Rightarrow> Done (fail_with pid e w)
      | (None, w) \<Rightarrow>
          (case Option.bind (file_of w pid fd) write_end of
             None \<Rightarrow> Done (fail_with pid EBADF w)
           | Some q \<Rightarrow>
               let bs = w_pipes w ! q in
               if length bs + length bytes \<le> w_cap w
               then Done (int (length bytes), w\<lparr>w_pipes := (w_pipes w)[q := bs @ bytes]\<rparr>)
               else Blocked))"

text \<open>Allocation: whether it succeeded; \<open>free\<close> of a block.\<close>

definition sys_alloc :: "world \<Rightarrow> bool \<times> world" where
  "sys_alloc w =
     (case next_fault w of (Some e, w) \<Rightarrow> (False, w) | (None, w) \<Rightarrow> (True, w\<lparr>w_heap := w_heap w + 1\<rparr>))"

definition sys_free :: "world \<Rightarrow> world" where
  "sys_free w = w\<lparr>w_heap := w_heap w - 1\<rparr>"

section \<open>Frames\<close>

text \<open>
  What the descriptors of all processes are open on; and the growth of everything else:
  FIFOs stay where they are, pipes keep their bytes, epoll objects what they watch, and
  new pipes are empty.
\<close>

definition looks :: "world \<Rightarrow> nat \<Rightarrow> nat \<Rightarrow> descr option" where
  "looks w pid n = fd_look (w_fds w pid) n"

definition grows :: "world \<Rightarrow> world \<Rightarrow> bool" where
  "grows w w' \<longleftrightarrow>
     w_fifos w \<subseteq>\<^sub>m w_fifos w' \<and> w_cap w' = w_cap w \<and>
     (\<exists>k. w_pipes w' = w_pipes w @ replicate k []) \<and>
     (\<exists>es. w_epolls w' = w_epolls w @ es) \<and>
     (\<forall>p q. w_fifos w p = None \<longrightarrow> w_fifos w' p = Some q \<longrightarrow> length (w_pipes w) \<le> q)"

lemma grows_refl [simp]: "grows w w"
  by (auto simp: grows_def intro: exI [of _ 0])

lemma grows_trans:
  assumes "grows u v" "grows v w" shows "grows u w"
proof -
  obtain k l where p: "w_pipes v = w_pipes u @ replicate k []" "w_pipes w = w_pipes v @ replicate l []"
    using assms by (auto simp: grows_def)
  obtain es fs where e: "w_epolls v = w_epolls u @ es" "w_epolls w = w_epolls v @ fs"
    using assms by (auto simp: grows_def)
  have new: "length (w_pipes u) \<le> q" if "w_fifos u p = None" "w_fifos w p = Some q" for p q
  proof (cases "w_fifos v p")
    case None
    then have "length (w_pipes v) \<le> q" using assms(2) that by (simp add: grows_def)
    then show ?thesis using p(1) by simp
  next
    case (Some q')
    then have "w_fifos w p = Some q'" using assms(2) by (auto simp: grows_def map_le_def dom_def)
    then show ?thesis using assms(1) that Some by (auto simp: grows_def)
  qed
  show ?thesis
    unfolding grows_def
  proof (intro conjI)
    show "w_fifos u \<subseteq>\<^sub>m w_fifos w" "w_cap w = w_cap u"
      using assms by (auto simp: grows_def intro: map_le_trans)
    show "\<exists>k. w_pipes w = w_pipes u @ replicate k []"
      using p by (auto simp: replicate_add [symmetric] simp del: replicate_add intro: exI [of _ "k + l"])
    show "\<exists>es. w_epolls w = w_epolls u @ es" using e by auto
    show "\<forall>p q. w_fifos u p = None \<longrightarrow> w_fifos w p = Some q \<longrightarrow> length (w_pipes u) \<le> q"
      using new by blast
  qed
qed

lemma grows_pipe: "grows w w' \<Longrightarrow> q < length (w_pipes w) \<Longrightarrow> w_pipes w' ! q = w_pipes w ! q"
  by (auto simp: grows_def nth_append)

lemma grows_new_pipe:
  "grows w w' \<Longrightarrow> length (w_pipes w) \<le> q \<Longrightarrow> q < length (w_pipes w') \<Longrightarrow> w_pipes w' ! q = []"
  by (auto simp: grows_def nth_append)

lemma grows_length: "grows w w' \<Longrightarrow> length (w_pipes w) \<le> length (w_pipes w')"
  by (auto simp: grows_def)

lemma grows_fifo: "grows w w' \<Longrightarrow> w_fifos w path = Some q \<Longrightarrow> w_fifos w' path = Some q"
  by (auto simp: grows_def map_le_def dom_def)

lemma grows_epoll: "grows w w' \<Longrightarrow> e < length (w_epolls w) \<Longrightarrow> w_epolls w' ! e = w_epolls w ! e"
  by (auto simp: grows_def nth_append)

text \<open>Every FIFO has a pipe of its own.\<close>

definition fifos_ok :: "world \<Rightarrow> bool" where
  "fifos_ok w \<longleftrightarrow>
     (\<forall>p q. w_fifos w p = Some q \<longrightarrow> q < length (w_pipes w)) \<and>
     (\<forall>p p' q. w_fifos w p = Some q \<longrightarrow> w_fifos w p' = Some q \<longrightarrow> p = p')"

text \<open>A call that leaves everything as it is, but for \<open>errno\<close> and the plan.\<close>

definition same_files :: "world \<Rightarrow> world \<Rightarrow> bool" where
  "same_files w w' \<longleftrightarrow>
     w_dirs w' = w_dirs w \<and> w_fifos w' = w_fifos w \<and> w_pipes w' = w_pipes w \<and> w_cap w' = w_cap w \<and>
     w_epolls w' = w_epolls w \<and> w_fds w' = w_fds w \<and> w_heap w' = w_heap w"

lemma same_files_refl [simp]: "same_files w w"
  by (simp add: same_files_def)

lemma same_filesD:
  assumes "same_files w w'"
  shows "grows w w'" "looks w' = looks w" "fifos_ok w' = fifos_ok w" "w_heap w' = w_heap w"
  using assms by (auto simp: same_files_def grows_def looks_def fifos_ok_def intro!: ext intro: exI [of _ 0])

lemma next_fault_same: "next_fault w = (e, w') \<Longrightarrow> same_files w w'"
  by (auto simp: next_fault_def same_files_def split: list.splits)

lemma fail_with_simps [simp]:
  "fst (fail_with pid e w) = -1" "same_files w (snd (fail_with pid e w))"
  by (simp_all add: fail_with_def same_files_def)

lemma fail_with_eq: "fail_with pid e w = (r, w') \<longleftrightarrow> r = -1 \<and> w' = w\<lparr>w_errno := (w_errno w)(pid := e)\<rparr>"
  by (auto simp: fail_with_def)

lemma same_files_trans: "same_files u v \<Longrightarrow> same_files v w \<Longrightarrow> same_files u w"
  by (simp add: same_files_def)

text \<open>A call of the plan fails without an effect, or runs on a state with the same files.\<close>

lemma faulty_cases:
  assumes "faulty pid call w = (r, w')"
  obtains (failed) "r = -1" "same_files w w'"
    | (ran) v where "same_files w v" "call v = (r, w')"
proof (cases "next_fault w")
  case (Pair e v)
  note v = next_fault_same [OF Pair]
  show thesis
  proof (cases e)
    case None
    then show thesis using assms Pair v ran by (simp add: faulty_def)
  next
    case (Some x)
    then have "(r, w') = fail_with pid x v" using assms Pair by (simp add: faulty_def)
    then show thesis
      using failed same_files_trans [OF v, of w'] fail_with_simps(1) [of pid x v] fail_with_simps(2) [of v pid x]
      by (metis fst_conv snd_conv)
  qed
qed

lemma looks_install:
  "looks (w\<lparr>w_fds := (w_fds w)(pid := fd_install (fd_new (w_fds w pid)) f (w_fds w pid))\<rparr>) =
   (looks w)(pid := (looks w pid)(fd_new (w_fds w pid) \<mapsto> f))"
  by (auto simp: looks_def fun_eq_iff fds.look_new)

lemma looks_remove:
  "looks (w\<lparr>w_fds := (w_fds w)(pid := fd_remove n (w_fds w pid))\<rparr>) =
   (looks w)(pid := (looks w pid)(n := None))"
  by (auto simp: looks_def fun_eq_iff fds.look_remove)

lemma looks_new: "looks w pid (fd_new (w_fds w pid)) = None"
  by (simp add: looks_def fds.new_unused)

lemma file_of_looks: "file_of w pid fd = (if fd < 0 then None else looks w pid (nat fd))"
  by (simp add: file_of_def looks_def)

lemma fifos_ok_grow:
  assumes "fifos_ok w" "w_fifos w path = None"
  shows "fifos_ok (w\<lparr>w_fifos := (w_fifos w)(path \<mapsto> length (w_pipes w)), w_pipes := w_pipes w @ [[]]\<rparr>)"
  using assms by (fastforce simp: fifos_ok_def less_Suc_eq)

section \<open>What the calls do\<close>

lemma sys_mkdir_spec:
  assumes "sys_mkdir pid path w = (r, w')"
  shows "grows w w' \<and> looks w' = looks w \<and> (fifos_ok w \<longrightarrow> fifos_ok w') \<and> w_heap w' = w_heap w"
  using assms unfolding sys_mkdir_def
proof (cases rule: faulty_cases)
  case failed
  then show ?thesis using same_filesD by blast
next
  case (ran v)
  note S = same_filesD [OF ran(1)]
  have "grows v w'" "looks w' = looks v" "fifos_ok w' = fifos_ok v" "w_heap w' = w_heap v"
    using ran(2) by (auto simp: fail_with_eq grows_def looks_def fifos_ok_def fun_eq_iff
        intro: exI [of _ 0] split: if_splits)
  then show ?thesis using S grows_trans by metis
qed

lemma sys_mkfifo_spec:
  assumes "sys_mkfifo pid path w = (r, w')"
  shows "grows w w' \<and> looks w' = looks w \<and> (fifos_ok w \<longrightarrow> fifos_ok w') \<and> w_heap w' = w_heap w"
  using assms unfolding sys_mkfifo_def
proof (cases rule: faulty_cases)
  case failed
  then show ?thesis using same_filesD by blast
next
  case (ran v)
  note S = same_filesD [OF ran(1)]
  have "grows v w' \<and> looks w' = looks v \<and> (fifos_ok v \<longrightarrow> fifos_ok w') \<and> w_heap w' = w_heap v"
  proof (cases "dirname path \<in> set (w_dirs v) \<and> w_fifos v path = None")
    case True
    then have w': "w' = v\<lparr>w_fifos := (w_fifos v)(path \<mapsto> length (w_pipes v)), w_pipes := w_pipes v @ [[]]\<rparr>"
      using ran(2) by auto
    have "grows v w'"
      using True w' by (auto simp: grows_def map_le_def intro: exI [of _ 1])
    then show ?thesis
      using True fifos_ok_grow [of v path] w' by (auto simp: looks_def fun_eq_iff)
  qed (use ran(2) in \<open>auto simp: fail_with_eq grows_def looks_def fifos_ok_def fun_eq_iff
        intro: exI [of _ 0] split: if_splits\<close>)
  then show ?thesis using S grows_trans by metis
qed

lemma sys_open_spec:
  assumes "sys_open pid path w = (r, w')"
  shows "grows w w' \<and> (fifos_ok w \<longrightarrow> fifos_ok w') \<and> w_heap w' = w_heap w \<and>
    (r = -1 \<and> looks w' = looks w \<or>
     (\<exists>n q. r = int n \<and> looks w pid n = None \<and> w_fifos w' path = Some q \<and>
        looks w' = (looks w)(pid := (looks w pid)(n \<mapsto> Fifo q))))"
  using assms unfolding sys_open_def
proof (cases rule: faulty_cases)
  case failed
  then show ?thesis using same_filesD by blast
next
  case (ran v)
  note S = same_filesD [OF ran(1)]
  show ?thesis
  proof (cases "w_fifos v path")
    case None
    then have "r = -1" "same_files v w'" using ran(2) by (auto simp: fail_with_eq same_files_def)
    then show ?thesis using S same_filesD [of v w'] grows_trans [OF S(1), of w'] by auto
  next
    case (Some q)
    let ?n = "fd_new (w_fds v pid)"
    have w': "r = int ?n" "w' = v\<lparr>w_fds := (w_fds v)(pid := fd_install ?n (Fifo q) (w_fds v pid))\<rparr>"
      using ran(2) Some by (auto simp: install_file_def Let_def)
    have "grows v w'" "fifos_ok w' = fifos_ok v" "w_fifos w' path = Some q" "w_heap w' = w_heap v"
      using w'(2) Some by (auto simp: grows_def fifos_ok_def intro: exI [of _ 0])
    moreover have "looks w' = (looks w)(pid := (looks w pid)(?n \<mapsto> Fifo q))"
      unfolding w'(2) looks_install using S(2) by simp
    moreover have "looks w pid ?n = None"
      using looks_new [of v pid] S(2) by simp
    ultimately show ?thesis using S w'(1) grows_trans [OF S(1), of w'] by auto
  qed
qed

text \<open>\<open>open\<close> returns the lowest descriptor that is free.\<close>

lemma sys_open_lowest:
  assumes "sys_open pid path w = (r, w')" "looks w pid a = None"
  shows "r \<le> int a"
  using assms(1) unfolding sys_open_def
proof (cases rule: faulty_cases)
  case (ran v)
  have "fd_new (w_fds v pid) \<le> a"
    using assms(2) same_filesD(2) [OF ran(1)] by (intro fd_new_lowest) (simp add: looks_def fun_eq_iff)
  then show ?thesis
    using ran(2) by (auto simp: fail_with_eq install_file_def Let_def split: option.splits)
qed simp

lemma sys_close_spec:
  assumes "sys_close pid (int n) w = (r, w')" "looks w pid n \<noteq> None"
  shows "grows w w' \<and> (fifos_ok w \<longrightarrow> fifos_ok w') \<and> w_heap w' = w_heap w \<and>
    looks w' = (looks w)(pid := (looks w pid)(n := None))"
proof -
  let ?v = "w\<lparr>w_fds := (w_fds w)(pid := fd_remove n (w_fds w pid))\<rparr>"
  have "faulty pid (\<lambda>w. (0, w)) ?v = (r, w')"
    using assms by (simp add: sys_close_def file_of_looks)
  then have "same_files ?v w'"
    by (cases rule: faulty_cases) auto
  moreover have "grows w ?v" "fifos_ok ?v = fifos_ok w"
    by (auto simp: grows_def fifos_ok_def intro: exI [of _ 0])
  ultimately show ?thesis
    using same_filesD [of ?v w'] looks_remove [of w pid n] grows_trans [of w ?v w'] by simp
qed

text \<open>A descriptor that is not open: \<open>close\<close> only sets \<open>errno\<close>.\<close>

lemma sys_close_bad:
  assumes "sys_close pid fd w = (r, w')" "file_of w pid fd = None"
  shows "same_files w w'" "r = -1"
  using assms by (auto simp: sys_close_def fail_with_eq same_files_def)

text \<open>
  \<open>mkfifo\<close>, and \<open>open\<close> unless it failed with an error other than \<open>EEXIST\<close>: what the two
  copies of \<open>_try_to_open_pipe\<close> have in common.
\<close>

lemma mkfifo_open_spec:
  assumes "(let (r, v) = sys_mkfifo pid path w
            in if r = -1 \<and> w_errno v pid \<noteq> EEXIST then (bad, v) else sys_open pid path v) = (fd, w')"
  shows "grows w w' \<and> (fifos_ok w \<longrightarrow> fifos_ok w') \<and> w_heap w' = w_heap w \<and>
    (fd \<in> {bad, -1} \<and> looks w' = looks w \<or>
     (\<exists>n q. fd = int n \<and> looks w pid n = None \<and> w_fifos w' path = Some q \<and>
        looks w' = (looks w)(pid := (looks w pid)(n \<mapsto> Fifo q))))"
proof (cases "sys_mkfifo pid path w")
  case (Pair r v)
  note M = sys_mkfifo_spec [OF Pair]
  show ?thesis
  proof (cases "r = -1 \<and> w_errno v pid \<noteq> EEXIST")
    case True
    then show ?thesis using assms Pair M by auto
  next
    case False
    then have "sys_open pid path v = (fd, w')" using assms Pair by (simp add: Let_def split: if_splits)
    note O = sys_open_spec [OF this]
    then show ?thesis using M grows_trans [of w v w'] by auto
  qed
qed

section \<open>When nothing fails\<close>

lemma faulty_ok: "w_plan w = [] \<Longrightarrow> faulty pid call w = call w"
  by (simp add: faulty_def next_fault_def)

lemma sys_mkdir_ok:
  assumes "w_plan w = []" "sys_mkdir pid path w = (r, w')"
  shows "w_plan w' = []" "path \<in> set (w_dirs w')" "r \<noteq> 0 \<Longrightarrow> w_errno w' pid = EEXIST"
    "set (w_dirs w) \<subseteq> set (w_dirs w')"
  using assms by (auto simp: sys_mkdir_def faulty_ok fail_with_eq split: if_splits)

text \<open>In a directory that exists, the FIFO is there after the call, and it is opened.\<close>

lemma mkfifo_open_ok:
  assumes "w_plan w = []" "dirname path \<in> set (w_dirs w)"
    and "(let (r, v) = sys_mkfifo pid path w
          in if r = -1 \<and> w_errno v pid \<noteq> EEXIST then (bad, v) else sys_open pid path v) = (fd, w')"
  shows "0 \<le> fd \<and> w_plan w' = [] \<and> w_dirs w' = w_dirs w \<and> looks w pid (nat fd) = None \<and>
    (\<exists>q. w_fifos w' path = Some q \<and> looks w' = (looks w)(pid := (looks w pid)(nat fd \<mapsto> Fifo q))) \<and>
    (\<forall>a. looks w pid a = None \<longrightarrow> fd \<le> int a)"
proof -
  obtain v q where v: "sys_mkfifo pid path w = (if w_fifos w path = None then 0 else -1, v)"
      "w_plan v = []" "w_fifos v path = Some q" "w_dirs v = w_dirs w" "w_fds v = w_fds w"
      "w_fifos w path \<noteq> None \<longrightarrow> w_errno v pid = EEXIST"
    using assms(1,2) by (cases "w_fifos w path") (auto simp: sys_mkfifo_def faulty_ok fail_with_def)
  have "sys_open pid path v = (fd, w')"
    using assms(3) v by (auto simp: Let_def split: if_splits)
  note low = sys_open_lowest [OF this]
  from \<open>sys_open pid path v = (fd, w')\<close> have "fd = int (fd_new (w_fds v pid))"
      "w' = v\<lparr>w_fds := (w_fds v)(pid := fd_install (fd_new (w_fds v pid)) (Fifo q) (w_fds v pid))\<rparr>"
    using v by (auto simp: sys_open_def faulty_ok install_file_def Let_def)
  moreover have "looks v = looks w" using v(5) by (simp add: looks_def fun_eq_iff)
  ultimately show ?thesis
    using v looks_install [of v pid "Fifo q"] looks_new [of v pid] low by simp
qed

end
