(* ===== verification/Function_Caller.thy ===== *)
theory Function_Caller
  imports Ipc_Posix
begin

text \<open>
  The caller of host functions (src/host_function_caller.c): a pair of FIFOs, one for
  requests and one for responses, found by name. A function that runs into undefined
  behaviour (a write past \<open>name_buf\<close>) has the value \<open>None\<close>.
\<close>

section \<open>The functions\<close>

definition PIPE_NAME_PREFIX :: string where
  "PIPE_NAME_PREFIX = ''/tmp/robot_ipc/''"

text \<open>\<open>sprintf(name_buf, PIPE_NAME_PREFIX "%s_req", name)\<close>, and whether it fits the buffer.\<close>

definition pipe_name :: "string \<Rightarrow> string \<Rightarrow> string" where
  "pipe_name name suffix = PIPE_NAME_PREFIX @ name @ suffix"

definition fits_name_buf :: "nat \<Rightarrow> string \<Rightarrow> bool" where
  "fits_name_buf buf_size path \<longleftrightarrow> length path + 1 \<le> buf_size"

record caller =
  c_req_fd :: int
  c_res_fd :: int
  c_sz_arg :: nat
  c_sz_ret :: nat

text \<open>\<open>_try_to_open_pipe\<close> of the caller: an error of \<open>mkfifo\<close> gives \<open>ERR_PIPE_REQ\<close>.\<close>

definition caller_open_pipe :: "nat \<Rightarrow> string \<Rightarrow> world \<Rightarrow> int \<times> world" where
  "caller_open_pipe pid path w =
     (let (r, w) = sys_mkfifo pid path w
      in if r = -1 \<and> w_errno w pid \<noteq> EEXIST then (ERR_PIPE_REQ, w) else sys_open pid path w)"

text \<open>The label \<open>FAILED\<close>.\<close>

definition close_if_open :: "nat \<Rightarrow> int \<Rightarrow> world \<Rightarrow> world" where
  "close_if_open pid fd w = (if fd \<ge> 0 then snd (sys_close pid fd w) else w)"

definition link_failed :: "nat \<Rightarrow> caller \<Rightarrow> world \<Rightarrow> world" where
  "link_failed pid p w =
     (let w = close_if_open pid (c_req_fd p) w;
          w = close_if_open pid (c_res_fd p) w
      in sys_free w)"

definition link_host_function ::
    "nat \<Rightarrow> string \<Rightarrow> nat \<Rightarrow> nat \<Rightarrow> world \<Rightarrow> (caller option \<times> world) option" where
  "link_host_function pid name sz_arg sz_ret w =
     (let (ok, w) = sys_alloc w in
      if \<not> ok then Some (None, w)
      else if sz_arg > PIPE_BUF \<or> sz_ret > PIPE_BUF
      then Some (None, snd (fail_with pid EMSGSIZE (sys_free w)))
      else
        let p = \<lparr>c_req_fd = -1, c_res_fd = -1, c_sz_arg = sz_arg, c_sz_ret = sz_ret\<rparr>;
            (r, w) = sys_mkdir pid PIPE_NAME_PREFIX w in
        if r \<noteq> 0 \<and> w_errno w pid \<noteq> EEXIST then Some (None, link_failed pid p w)
        else if \<not> fits_name_buf 256 (pipe_name name ''_req'') then None
        else
          let (fd, w) = caller_open_pipe pid (pipe_name name ''_req'') w;
              p = p\<lparr>c_req_fd := fd\<rparr> in
          if fd < 0 then Some (None, link_failed pid p w)
          else if \<not> fits_name_buf 256 (pipe_name name ''_res'') then None
          else
            let (fd, w) = caller_open_pipe pid (pipe_name name ''_res'') w;
                p = p\<lparr>c_res_fd := fd\<rparr> in
            if fd < 0 then Some (None, link_failed pid p w) else Some (Some p, w))"

text \<open>\<open>unlink_host_function\<close>: what it returns; a failing \<open>close\<close> ends it early.\<close>

definition unlink_host_function :: "nat \<Rightarrow> caller \<Rightarrow> world \<Rightarrow> int \<times> world" where
  "unlink_host_function pid p w =
     (let (ret, w) = sys_close pid (c_req_fd p) w in
      if ret \<noteq> 0 then (ERR_PIPE_CLOSE, w)
      else
        let (ret, w) = sys_close pid (c_res_fd p) w in
        if ret \<noteq> 0 then (ERR_PIPE_CLOSE, w) else (ROBOT_OK, sys_free w))"

text \<open>\<open>call_host_function\<close> writes \<open>sz_arg\<close> bytes of the argument.\<close>

definition call_host_function :: "nat \<Rightarrow> caller \<Rightarrow> u8 list \<Rightarrow> world \<Rightarrow> (int \<times> world) io" where
  "call_host_function pid p arg w =
     (case sys_write pid (c_req_fd p) (take (c_sz_arg p) arg) w of
        Blocked \<Rightarrow> Blocked
      | Done (written, w) \<Rightarrow>
          Done (if written < 0 \<or> nat written \<noteq> c_sz_arg p then -1 else 0, w))"

text \<open>\<open>get_response_host_function\<close>: also the bytes that are then in the caller's buffer.\<close>

definition get_response_host_function :: "nat \<Rightarrow> caller \<Rightarrow> world \<Rightarrow> (int \<times> u8 list \<times> world) io" where
  "get_response_host_function pid p w =
     (case sys_read pid (c_res_fd p) (c_sz_ret p) w of
        Blocked \<Rightarrow> Blocked
      | Done (nread, bytes, w) \<Rightarrow>
          Done (if nread < 0 \<or> nat nread \<noteq> c_sz_ret p then -1 else 0, bytes, w))"

section \<open>Names\<close>

lemma pipe_name_eq_iff:
  "pipe_name a ''_req'' = pipe_name b ''_req'' \<longleftrightarrow> a = b"
  "pipe_name a ''_res'' = pipe_name b ''_res'' \<longleftrightarrow> a = b"
  "pipe_name a ''_req'' \<noteq> pipe_name b ''_res''"
  "pipe_name a ''_res'' \<noteq> pipe_name b ''_req''"
proof -
  have "last (pipe_name c ''_req'') = CHR ''q''" "last (pipe_name c ''_res'') = CHR ''s''" for c
    by (simp_all add: pipe_name_def)
  then have "last (pipe_name c ''_req'') \<noteq> last (pipe_name d ''_res'')" for c d
    by simp
  then have apart: "pipe_name c ''_req'' \<noteq> pipe_name d ''_res''" for c d
    by (auto dest: arg_cong [of _ _ last])
  show "pipe_name a ''_req'' \<noteq> pipe_name b ''_res''" by (rule apart)
  show "pipe_name a ''_res'' \<noteq> pipe_name b ''_req''" using apart [of b a] by simp
qed (simp_all add: pipe_name_def)

lemma dirname_pipe_name:
  assumes "CHR ''/'' \<notin> set name" "CHR ''/'' \<notin> set suffix"
  shows "dirname (pipe_name name suffix) = PIPE_NAME_PREFIX"
proof -
  have "rev (pipe_name name suffix) = rev (name @ suffix) @ rev PIPE_NAME_PREFIX"
    by (simp add: pipe_name_def)
  moreover have "dropWhile (\<lambda>c. c \<noteq> CHR ''/'') (rev (name @ suffix) @ ys) = dropWhile (\<lambda>c. c \<noteq> CHR ''/'') ys" for ys
    by (rule dropWhile_append2) (use assms in auto)
  ultimately have "dropWhile (\<lambda>c. c \<noteq> CHR ''/'') (rev (pipe_name name suffix)) =
      dropWhile (\<lambda>c. c \<noteq> CHR ''/'') (rev PIPE_NAME_PREFIX)"
    by (simp del: rev_append)
  then show ?thesis by (simp add: dirname_def PIPE_NAME_PREFIX_def)
qed

lemma fits_name_buf_iff:
  "length suffix = 4 \<Longrightarrow> fits_name_buf 256 (pipe_name name suffix) \<longleftrightarrow> length name \<le> 236"
  by (auto simp: fits_name_buf_def pipe_name_def PIPE_NAME_PREFIX_def)

section \<open>Linking\<close>

lemma sys_alloc_cases:
  assumes "sys_alloc w = (ok, v)"
  shows "grows w v \<and> looks v = looks w \<and> fifos_ok v = fifos_ok w \<and>
    w_heap v = (if ok then w_heap w + 1 else w_heap w)"
proof -
  obtain e u where u: "next_fault w = (e, u)" by (cases "next_fault w")
  have "v = (if ok then u\<lparr>w_heap := w_heap u + 1\<rparr> else u)" "ok = (e = None)"
    using assms u by (auto simp: sys_alloc_def split: option.splits)
  then show ?thesis
    using same_filesD [OF next_fault_same [OF u]]
    by (auto simp: grows_def looks_def fifos_ok_def fun_eq_iff)
qed

lemma sys_free_frame:
  "grows w (sys_free w)" "looks (sys_free w) = looks w" "fifos_ok (sys_free w) = fifos_ok w"
  "w_heap (sys_free w) = w_heap w - 1"
  by (auto simp: sys_free_def grows_def looks_def fifos_ok_def fun_eq_iff intro: exI [of _ 0])

text \<open>Files that were opened and closed again: everything is open as before.\<close>

definition files_undone :: "world \<Rightarrow> world \<Rightarrow> bool" where
  "files_undone w w' \<longleftrightarrow>
     looks w' = looks w \<and> grows w w' \<and> (fifos_ok w \<longrightarrow> fifos_ok w') \<and> w_heap w' = w_heap w"

text \<open>Closing the descriptor that was just opened restores the table.\<close>

lemma close_if_open_spec:
  assumes "fd < 0 \<or> file_of w pid fd = None \<and> g = looks w \<or>
      (\<exists>n. fd = int n \<and> looks w pid n \<noteq> None \<and> g = (looks w)(pid := (looks w pid)(n := None)))"
    and "fd < 0 \<Longrightarrow> g = looks w"
  shows "grows w (close_if_open pid fd w) \<and> w_heap (close_if_open pid fd w) = w_heap w \<and>
    (fifos_ok w \<longrightarrow> fifos_ok (close_if_open pid fd w)) \<and> looks (close_if_open pid fd w) = g"
proof (cases "fd < 0")
  case True
  then show ?thesis using assms by (simp add: close_if_open_def)
next
  case False
  obtain r v where v: "sys_close pid fd w = (r, v)" by (cases "sys_close pid fd w")
  then have c: "close_if_open pid fd w = v" using False by (simp add: close_if_open_def)
  show ?thesis
  proof (cases "file_of w pid fd = None")
    case True
    have "g = looks w"
      using assms False True by (auto simp: file_of_looks fun_eq_iff)
    then show ?thesis using sys_close_bad(1) [OF v True] same_filesD c by simp
  next
    case open_fd: False
    then obtain n where n: "fd = int n" "looks w pid n \<noteq> None" "g = (looks w)(pid := (looks w pid)(n := None))"
      using assms False by auto
    then show ?thesis using sys_close_spec [of pid n w r v] v c by simp
  qed
qed

lemma caller_open_pipe_spec:
  assumes "caller_open_pipe pid path w = (fd, w')"
  shows "grows w w' \<and> (fifos_ok w \<longrightarrow> fifos_ok w') \<and> w_heap w' = w_heap w \<and>
    (fd \<in> {ERR_PIPE_REQ, -1} \<and> looks w' = looks w \<or>
     (\<exists>n q. fd = int n \<and> looks w pid n = None \<and> w_fifos w' path = Some q \<and>
        looks w' = (looks w)(pid := (looks w pid)(n \<mapsto> Fifo q))))"
  by (rule mkfifo_open_spec) (use assms in \<open>simp add: caller_open_pipe_def\<close>)

lemma looks_restore: "g pid n = None \<Longrightarrow> g = (g :: nat \<Rightarrow> nat \<Rightarrow> 'a option)
    (pid := ((g(pid := (g pid)(n \<mapsto> f))) pid)(n := None))"
  by (auto simp: fun_eq_iff)

text \<open>The failure path undoes what the call opened, given that descriptor 202 is not in use.\<close>

lemma link_failed_req:
  assumes "looks w pid 202 = None" "grows w v" "w_heap v = w_heap w + 1" "fifos_ok w \<longrightarrow> fifos_ok v"
    and "fd \<in> {ERR_PIPE_REQ, -1} \<and> looks v = looks w \<or>
     (\<exists>n q. fd = int n \<and> looks w pid n = None \<and> looks v = (looks w)(pid := (looks w pid)(n \<mapsto> Fifo q)))"
  shows "files_undone w (link_failed pid \<lparr>c_req_fd = fd, c_res_fd = -1, c_sz_arg = a, c_sz_ret = b\<rparr> v)"
proof -
  have "grows v (close_if_open pid fd v) \<and> w_heap (close_if_open pid fd v) = w_heap v \<and>
      (fifos_ok v \<longrightarrow> fifos_ok (close_if_open pid fd v)) \<and> looks (close_if_open pid fd v) = looks w"
  proof (rule close_if_open_spec)
    show "fd < 0 \<Longrightarrow> looks w = looks v" using assms(5) by (auto simp: ERR_PIPE_REQ_def)
    show "fd < 0 \<or> file_of v pid fd = None \<and> looks w = looks v \<or>
      (\<exists>n. fd = int n \<and> looks v pid n \<noteq> None \<and> looks w = (looks v)(pid := (looks v pid)(n := None)))"
      using assms(5)
    proof (elim disjE conjE exE)
      assume "fd \<in> {ERR_PIPE_REQ, -1}" "looks v = looks w"
      then show ?thesis using assms(1) by (auto simp: file_of_looks ERR_PIPE_REQ_def)
    next
      fix n q assume "fd = int n" "looks w pid n = None" "looks v = (looks w)(pid := (looks w pid)(n \<mapsto> Fifo q))"
      then show ?thesis using looks_restore [of "looks w" pid n "Fifo q"] by auto
    qed
  qed
  then show ?thesis
    using assms(2-4) sys_free_frame [of "close_if_open pid fd v"] grows_trans
    by (auto simp: files_undone_def link_failed_def Let_def close_if_open_def [of pid "-1"] intro: grows_trans)
qed

text \<open>A world in which at most the descriptor \<open>fd\<close> was opened since \<open>v\<close>.\<close>

definition opened_one :: "nat \<Rightarrow> world \<Rightarrow> int \<Rightarrow> world \<Rightarrow> bool" where
  "opened_one pid v fd u \<longleftrightarrow> grows v u \<and> w_heap u = w_heap v \<and> (fifos_ok v \<longrightarrow> fifos_ok u) \<and>
     (fd \<in> {ERR_PIPE_REQ, -1} \<and> looks u = looks v \<or>
      (\<exists>n q. fd = int n \<and> looks v pid n = None \<and> looks u = (looks v)(pid := (looks v pid)(n \<mapsto> Fifo q))))"

lemma opened_first:
  assumes "sys_mkdir pid path v = (r, u)"
  shows "opened_one pid v (-1) u" "caller_open_pipe pid req u = (fd, x) \<Longrightarrow> opened_one pid v fd x"
  using sys_mkdir_spec [OF assms] caller_open_pipe_spec [of pid req u fd x] grows_trans [of v u x]
  by (auto simp: opened_one_def)

lemma opened_second_fails:
  assumes "opened_one pid v fd x" "caller_open_pipe pid res x = (fd', y)" "fd' < 0"
  shows "opened_one pid v fd y \<and> fd' = -1"
  using assms(1,3) caller_open_pipe_spec [OF assms(2)] grows_trans [of v x y]
  by (auto simp: opened_one_def ERR_PIPE_REQ_def)

text \<open>The steps of a link one after another, for the proofs.\<close>

lemma link_host_function_cases:
  assumes "link_host_function pid name sz_arg sz_ret w = Some (res, w')"
  obtains (no_memory) "sys_alloc w = (False, w')" "res = None"
    | (too_big) v where "sys_alloc w = (True, v)" "sz_arg > PIPE_BUF \<or> sz_ret > PIPE_BUF" "res = None"
        "w' = snd (fail_with pid EMSGSIZE (sys_free v))"
    | (failed) v fd u where "sys_alloc w = (True, v)" "res = None" "opened_one pid v fd u"
        "w' = link_failed pid \<lparr>c_req_fd = fd, c_res_fd = -1, c_sz_arg = sz_arg, c_sz_ret = sz_ret\<rparr> u"
    | (linked) v r u fd x fd' where "sys_alloc w = (True, v)" "sz_arg \<le> PIPE_BUF" "sz_ret \<le> PIPE_BUF"
        "sys_mkdir pid PIPE_NAME_PREFIX v = (r, u)" "length name \<le> 236"
        "caller_open_pipe pid (pipe_name name ''_req'') u = (fd, x)" "0 \<le> fd"
        "caller_open_pipe pid (pipe_name name ''_res'') x = (fd', w')" "0 \<le> fd'"
        "res = Some \<lparr>c_req_fd = fd, c_res_fd = fd', c_sz_arg = sz_arg, c_sz_ret = sz_ret\<rparr>"
proof (cases "sys_alloc w")
  case alloc: (Pair ok v)
  show thesis
  proof (cases "ok \<and> sz_arg \<le> PIPE_BUF \<and> sz_ret \<le> PIPE_BUF")
    case False
    then show thesis
      using assms alloc no_memory too_big by (auto simp: link_host_function_def not_le split: if_splits)
  next
    case ok: True
    then have sz: "\<not> (PIPE_BUF < sz_arg \<or> PIPE_BUF < sz_ret)" by simp
    obtain r u where u: "sys_mkdir pid PIPE_NAME_PREFIX v = (r, u)" by fastforce
    obtain fd x where x: "caller_open_pipe pid (pipe_name name ''_req'') u = (fd, x)" by fastforce
    obtain fd' y where y: "caller_open_pipe pid (pipe_name name ''_res'') x = (fd', y)" by fastforce
    note eval = link_host_function_def alloc ok sz u x y Let_def
    note X = opened_first [OF u]
    show thesis
    proof (cases "r \<noteq> 0 \<and> w_errno u pid \<noteq> EEXIST")
      case True
      then show thesis using assms X(1) alloc ok failed [of v "-1" u] by (auto simp: eval split: if_splits)
    next
      case dir: False
      then have fits: "length name \<le> 236"
        using assms fits_name_buf_iff [of "''_req''" name] by (auto simp: eval split: if_splits)
      then have b: "fits_name_buf 256 (pipe_name name ''_req'')" "fits_name_buf 256 (pipe_name name ''_res'')"
        by (simp_all add: fits_name_buf_iff)
      consider "fd < 0" | "0 \<le> fd" "fd' < 0" | "0 \<le> fd" "0 \<le> fd'" by linarith
      then show thesis
      proof cases
        case 1
        then show thesis using assms dir b X(2) [OF x] alloc ok failed [of v fd x] by (auto simp: eval split: if_splits)
      next
        case 2
        then show thesis
          using assms dir b opened_second_fails [OF X(2) [OF x] y] alloc ok failed [of v fd y]
          by (auto simp: eval split: if_splits)
      next
        case 3
        then show thesis using assms dir b linked alloc ok u fits x y by (auto simp: eval split: if_splits)
      qed
    qed
  qed
qed

section \<open>Properties of linking\<close>

lemma null_link:
  assumes "link_host_function pid name sz_arg sz_ret w = Some (None, w')"
    and "file_of w pid ERR_PIPE_REQ = None"
  shows "files_undone w w'"
  using assms(1)
proof (cases rule: link_host_function_cases)
  case no_memory
  then show ?thesis using sys_alloc_cases [OF no_memory(1)] by (simp add: files_undone_def)
next
  case (too_big v)
  note A = sys_alloc_cases [OF too_big(1)]
  have "same_files (sys_free v) w'" using too_big(4) by simp
  then show ?thesis
    using A same_filesD sys_free_frame [of v] grows_trans [of w v] grows_trans [of v "sys_free v" w']
    by (auto simp: files_undone_def)
next
  case (failed v fd u)
  note A = sys_alloc_cases [OF failed(1)]
  have "looks w pid 202 = None" using assms(2) by (simp add: file_of_looks ERR_PIPE_REQ_def)
  then show ?thesis
    unfolding failed(4) using A failed(3) grows_trans [of w v u] by (intro link_failed_req) (auto simp: opened_one_def)
qed simp

text \<open>
  A link that returns a null pointer leaves nothing behind. Whatever system call
  failed, the descriptors of all processes are open on what they were open on, the memory
  is given back, no FIFO and no byte of any pipe is lost, provided that the process does
  not use descriptor 202, which the failure path may close by mistake.
\<close>

lemma failed_link_leaves_nothing:
  assumes "link_host_function pid name sz_arg sz_ret w = Some (None, w')"
    and "file_of w pid ERR_PIPE_REQ = None"
  shows "looks w' = looks w \<and> w_heap w' = w_heap w \<and> grows w w'"
  using null_link [OF assms] by (simp add: files_undone_def)

definition empty_world :: "errno option list \<Rightarrow> world" where
  "empty_world plan =
     \<lparr>w_dirs = [], w_fifos = Map.empty, w_pipes = [], w_cap = 65536, w_epolls = [], w_fds = (\<lambda>_. []),
      w_errno = (\<lambda>_. EOTHER), w_heap = 0, w_plan = plan\<rparr>"

text \<open>In the witness the second \<open>open\<close> fails.\<close>

lemma failed_link_leaves_nothing_witness:
  "let w = empty_world [None, None, None, None, None, Some EOTHER]
   in \<exists>w'. link_host_function 1 ''f'' 8 4 w = Some (None, w') \<and> looks w' = looks w \<and> w_heap w' = 0 \<and>
        map (\<lambda>x. w_fifos w' (pipe_name ''f'' x)) [''_req'', ''_res''] = [Some 0, Some 1]"
proof -
  let ?w = "empty_world [None, None, None, None, None, Some EOTHER]"
  have "dirname (pipe_name ''f'' ''_req'') = PIPE_NAME_PREFIX" "dirname (pipe_name ''f'' ''_res'') = PIPE_NAME_PREFIX"
    by (simp_all add: dirname_pipe_name)
  moreover have "fits_name_buf 256 (pipe_name ''f'' ''_req'')" "fits_name_buf 256 (pipe_name ''f'' ''_res'')"
    by (simp_all add: fits_name_buf_iff)
  ultimately obtain w' where w': "link_host_function 1 ''f'' 8 4 ?w = Some (None, w')"
      "map (\<lambda>x. w_fifos w' (pipe_name ''f'' x)) [''_req'', ''_res''] = [Some 0, Some 1]"
    by (simp add: link_host_function_def sys_alloc_def next_fault_def empty_world_def PIPE_BUF_def
        sys_mkdir_def faulty_def caller_open_pipe_def sys_mkfifo_def sys_open_def install_file_def Let_def
        fail_with_def link_failed_def close_if_open_def sys_close_def file_of_def fd_look_def fd_install_def
        fd_new_def sys_free_def pipe_name_eq_iff)
  moreover have "file_of ?w 1 ERR_PIPE_REQ = None"
    by (simp add: empty_world_def file_of_looks looks_def fd_look_def)
  ultimately show ?thesis
    using failed_link_leaves_nothing [of 1 "''f''" 8 4 ?w w']
    by (auto simp: Let_def empty_world_def)
qed

text \<open>The descriptors of a caller are open on the FIFOs of its function.\<close>

definition caller_ok :: "world \<Rightarrow> nat \<Rightarrow> string \<Rightarrow> caller \<Rightarrow> bool" where
  "caller_ok w pid name p \<longleftrightarrow>
     (\<exists>q q'. w_fifos w (pipe_name name ''_req'') = Some q \<and> file_of w pid (c_req_fd p) = Some (Fifo q) \<and>
             w_fifos w (pipe_name name ''_res'') = Some q' \<and> file_of w pid (c_res_fd p) = Some (Fifo q'))"

lemma sys_alloc_ok: "w_plan w = [] \<Longrightarrow> sys_alloc w = (True, w\<lparr>w_heap := w_heap w + 1\<rparr>)"
  by (simp add: sys_alloc_def next_fault_def)

lemma caller_open_pipe_ok:
  assumes "w_plan w = []" "dirname path \<in> set (w_dirs w)" "caller_open_pipe pid path w = (fd, w')"
  shows "0 \<le> fd \<and> w_plan w' = [] \<and> w_dirs w' = w_dirs w \<and> looks w pid (nat fd) = None \<and>
    (\<exists>q. w_fifos w' path = Some q \<and> looks w' = (looks w)(pid := (looks w pid)(nat fd \<mapsto> Fifo q))) \<and>
    (\<forall>a. looks w pid a = None \<longrightarrow> fd \<le> int a)"
  by (rule mkfifo_open_ok [OF assms(1,2)]) (use assms(3) in \<open>simp add: caller_open_pipe_def\<close>)

text \<open>
  Linking succeeds when nothing fails. For a name without a slash of at most 236
  characters and sizes up to \<open>PIPE_BUF\<close>, the call returns a caller whose two new, different
  descriptors are open on the request and the response FIFO of the name; FIFOs that exist
  keep what they hold, and all other descriptors stay as they are.
\<close>

lemma link_host_function_links:
  assumes plan: "w_plan w = []" and name: "CHR ''/'' \<notin> set name" "length name \<le> 236"
    and sz: "sz_arg \<le> PIPE_BUF" "sz_ret \<le> PIPE_BUF"
  shows "\<exists>p w'. link_host_function pid name sz_arg sz_ret w = Some (Some p, w') \<and>
    c_sz_arg p = sz_arg \<and> c_sz_ret p = sz_ret \<and> caller_ok w' pid name p \<and> grows w w' \<and>
    c_req_fd p \<noteq> c_res_fd p \<and> looks w pid (nat (c_req_fd p)) = None \<and> looks w pid (nat (c_res_fd p)) = None \<and>
    (\<forall>pid' n. looks w pid' n \<noteq> None \<longrightarrow> looks w' pid' n = looks w pid' n) \<and>
    (looks w pid 0 = None \<and> looks w pid 1 = None \<longrightarrow> ERR_PIPE_REQ \<notin> {c_req_fd p, c_res_fd p})"
proof -
  obtain v where v: "sys_alloc w = (True, v)" "w_plan v = []"
    using sys_alloc_ok [OF plan] plan by simp
  note A = sys_alloc_cases [OF v(1)]
  obtain r u where u: "sys_mkdir pid PIPE_NAME_PREFIX v = (r, u)" by (cases "sys_mkdir pid PIPE_NAME_PREFIX v")
  note M = sys_mkdir_spec [OF u] and M' = sys_mkdir_ok [OF v(2) u]
  have d: "dirname (pipe_name name ''_req'') = PIPE_NAME_PREFIX" "dirname (pipe_name name ''_res'') = PIPE_NAME_PREFIX"
    using name(1) by (simp_all add: dirname_pipe_name)
  obtain fd x where x: "caller_open_pipe pid (pipe_name name ''_req'') u = (fd, x)"
    by (cases "caller_open_pipe pid (pipe_name name ''_req'') u")
  obtain q where X: "0 \<le> fd" "w_plan x = []" "w_dirs x = w_dirs u" "looks u pid (nat fd) = None"
      "w_fifos x (pipe_name name ''_req'') = Some q" "looks x = (looks u)(pid := (looks u pid)(nat fd \<mapsto> Fifo q))"
      "\<forall>a. looks u pid a = None \<longrightarrow> fd \<le> int a"
    using caller_open_pipe_ok [OF M'(1) _ x] M'(2) d(1) by auto
  obtain fd' y where y: "caller_open_pipe pid (pipe_name name ''_res'') x = (fd', y)"
    by (cases "caller_open_pipe pid (pipe_name name ''_res'') x")
  obtain q' where Y: "0 \<le> fd'" "looks x pid (nat fd') = None"
      "w_fifos y (pipe_name name ''_res'') = Some q'" "looks y = (looks x)(pid := (looks x pid)(nat fd' \<mapsto> Fifo q'))"
      "\<forall>a. looks x pid a = None \<longrightarrow> fd' \<le> int a"
    using caller_open_pipe_ok [OF X(2) _ y] M'(2) X(3) d(2) by auto
  have g: "grows u x" "grows x y" using caller_open_pipe_spec [OF x] caller_open_pipe_spec [OF y] by blast+
  let ?p = "\<lparr>c_req_fd = fd, c_res_fd = fd', c_sz_arg = sz_arg, c_sz_ret = sz_ret\<rparr>"
  have "link_host_function pid name sz_arg sz_ret w = Some (Some ?p, y)"
    using v u x y X(1) Y(1) M'(3) sz name(2) by (auto simp: link_host_function_def Let_def fits_name_buf_iff)
  moreover have "nat fd \<noteq> nat fd'" using Y(2) X(6) by auto
  moreover have "w_fifos y (pipe_name name ''_req'') = Some q" using grows_fifo [OF g(2) X(5)] .
  moreover have "grows w y" using A M g grows_trans by blast
  moreover have lu: "looks u = looks w" using A M by simp
  moreover have "ERR_PIPE_REQ \<notin> {fd, fd'}" if "looks w pid 0 = None" "looks w pid 1 = None"
  proof -
    have "fd = 0" using X(1) X(7) [rule_format, of 0] that(1) lu by simp
    then have "fd' \<le> 1" using Y(5) [rule_format, of 1] X(6) that(2) lu by simp
    then show ?thesis using \<open>fd = 0\<close> by (simp add: ERR_PIPE_REQ_def)
  qed
  ultimately show ?thesis
    using X(1-6) Y(1-4) by (intro exI [of _ ?p] exI [of _ y]) (auto simp: caller_ok_def file_of_looks)
qed

text \<open>
  C24: two ways a name goes wrong. When nothing fails, a name overruns the buffer of 256
  bytes exactly when it has more than 236 characters; and a name with a slash, whose
  directory does not exist, gives a caller although no FIFO could be made: both its
  descriptors are \<open>ERR_PIPE_REQ\<close> (202), which the process never opened.
\<close>

theorem link_host_function_names:
  assumes plan: "w_plan w = []" and sz: "sz_arg \<le> PIPE_BUF" "sz_ret \<le> PIPE_BUF"
  shows "(link_host_function pid name sz_arg sz_ret w = None \<longleftrightarrow> 236 < length name) \<and>
    (length name \<le> 236 \<and>
     dirname (pipe_name name ''_req'') \<notin> insert PIPE_NAME_PREFIX (set (w_dirs w)) \<and>
     dirname (pipe_name name ''_res'') \<notin> insert PIPE_NAME_PREFIX (set (w_dirs w)) \<longrightarrow>
     (\<exists>p w'. link_host_function pid name sz_arg sz_ret w = Some (Some p, w') \<and>
        c_req_fd p = ERR_PIPE_REQ \<and> c_res_fd p = ERR_PIPE_REQ \<and> looks w' = looks w))"
proof -
  obtain v where v: "sys_alloc w = (True, v)" "w_plan v = []" "w_dirs v = w_dirs w"
    using sys_alloc_ok [OF plan] plan by simp
  note A = sys_alloc_cases [OF v(1)]
  obtain r u where u: "sys_mkdir pid PIPE_NAME_PREFIX v = (r, u)" by (cases "sys_mkdir pid PIPE_NAME_PREFIX v")
  note M = sys_mkdir_spec [OF u] and M' = sys_mkdir_ok [OF v(2) u]
  have dirs: "set (w_dirs u) = insert PIPE_NAME_PREFIX (set (w_dirs w))"
    using u v by (auto simp: sys_mkdir_def faulty_ok fail_with_eq split: if_splits)
  have bad: "caller_open_pipe pid path x = (ERR_PIPE_REQ, x\<lparr>w_errno := (w_errno x)(pid := ENOENT)\<rparr>)"
    if "w_plan x = []" "dirname path \<notin> set (w_dirs x)" for path x
    using that by (simp add: caller_open_pipe_def sys_mkfifo_def faulty_ok fail_with_def Let_def)
  have "link_host_function pid name sz_arg sz_ret w \<noteq> None" if "length name \<le> 236"
    using that v u sz M'(3) by (auto simp: link_host_function_def Let_def fits_name_buf_iff split: prod.split)
  moreover have "link_host_function pid name sz_arg sz_ret w = None" if "236 < length name"
    using that v u sz M'(3) by (auto simp: link_host_function_def Let_def fits_name_buf_iff)
  moreover have "looks (x\<lparr>w_errno := e\<rparr>) = looks x" for x e by (simp add: looks_def fun_eq_iff)
  ultimately show ?thesis
    using v u sz A M M' dirs bad [of u] bad [of "u\<lparr>w_errno := (w_errno u)(pid := ENOENT)\<rparr>"]
    by (auto simp: link_host_function_def Let_def fits_name_buf_iff ERR_PIPE_REQ_def)
qed

theorem link_host_function_names_witness:
  "link_host_function 1 (replicate 237 CHR ''x'') 8 4 (empty_world []) = None \<and>
   (\<exists>p w'. link_host_function 1 ''a/b'' 8 4 (empty_world []) = Some (Some p, w') \<and>
     c_req_fd p = 202 \<and> c_res_fd p = 202 \<and> looks w' 1 202 = None)"
proof -
  have p: "w_plan (empty_world []) = []" "w_dirs (empty_world []) = []" "looks (empty_world []) 1 202 = None"
    by (simp_all add: empty_world_def looks_def fd_look_def)
  have d: "dirname (pipe_name ''a/b'' ''_req'') = ''/tmp/robot_ipc/a/''" "dirname (pipe_name ''a/b'' ''_res'') = ''/tmp/robot_ipc/a/''"
    by (simp_all add: dirname_def pipe_name_def PIPE_NAME_PREFIX_def)
  show ?thesis
    using link_host_function_names [OF p(1), of 8 4 1 "replicate 237 CHR ''x''"]
      link_host_function_names [OF p(1), of 8 4 1 "''a/b''"] p d
    by (auto simp: PIPE_BUF_def PIPE_NAME_PREFIX_def ERR_PIPE_REQ_def)
qed

end
