(* ===== verification/Function_Receiver.thy ===== *)
theory Function_Receiver
  imports Function_Caller
begin

text \<open>
  The receiver of host functions (src/host_function_receiver.c): a dispatcher holds the
  functions that were attached to it, and its thread (the daemon) waits for requests, calls
  the functions and writes their responses. Undefined behaviour is \<open>None\<close> for the
  functions of the API and the program point \<open>DmFault\<close> for the daemon.
\<close>

section \<open>The dispatcher\<close>

text \<open>
  Host functions get the bytes of their argument; \<open>None\<close> is the null pointer. The user
  data of an attached function is null, a pointer of the program, or the context that
  \<open>attach_host_function\<close> allocates.
\<close>

type_synonym host_function = "u8 list \<Rightarrow> u8 list option"

datatype user_data = NoData | UserData nat | LegacyContext host_function

type_synonym host_function_ex = "u8 list \<Rightarrow> user_data \<Rightarrow> u8 list option"

text \<open>
  \<open>_legacy_host_function_adapter\<close>. It is only ever attached with a context, so that the
  other cases do not arise.
\<close>

definition legacy_host_function_adapter :: host_function_ex where
  "legacy_host_function_adapter args user_data =
     (case user_data of LegacyContext foo \<Rightarrow> foo args | _ \<Rightarrow> None)"

text \<open>The arrays have the length they were allocated with; \<open>None\<close> is an entry not yet written.\<close>

record dispatcher =
  d_epoll_fd :: int
  d_to_daemon :: "int \<times> int"
  d_from_daemon :: "int \<times> int"
  d_detached :: bool
  d_cnt_func :: nat
  d_req_fd :: "int option list"
  d_res_fd :: "int option list"
  d_foo :: "host_function_ex option list"
  d_user_data :: "user_data option list"
  d_owns :: "bool option list"
  d_sz_arg :: "nat option list"
  d_sz_ret :: "nat option list"

definition NAME_MAX_LENGTH :: nat where "NAME_MAX_LENGTH = 256"
definition MAX_EPOLL_EVENTS :: nat where "MAX_EPOLL_EVENTS = 16"

definition DISPATCHER_EXIT :: u32 where "DISPATCHER_EXIT = -1"

section \<open>Creating and deleting\<close>

text \<open>Several allocations in a row: which succeeded; and giving those back.\<close>

fun alloc_many :: "nat \<Rightarrow> world \<Rightarrow> bool list \<times> world" where
  "alloc_many 0 w = ([], w)"
| "alloc_many (Suc k) w =
     (let (ok, w) = sys_alloc w; (oks, w) = alloc_many k w in (ok # oks, w))"

fun free_many :: "nat \<Rightarrow> world \<Rightarrow> world" where
  "free_many 0 w = w"
| "free_many (Suc k) w = free_many k (sys_free w)"

text \<open>The elements of an array that \<open>malloc(n * sizeof(...))\<close> returns, with the wrap-around of \<open>size_t\<close>.\<close>

definition array_length :: "u64 \<Rightarrow> nat \<Rightarrow> nat" where
  "array_length n elem_size = unat (n * of_nat elem_size) div elem_size"

text \<open>
  \<open>create_host_function_dispatcher\<close>: the dispatcher (or null), and whether its thread was
  started. The labels from \<open>FAILED_MALLOC\<close> to \<open>FAILED_PIPE\<close> are the cascade of the code:
  none of them closes the pipes. The first \<open>malloc\<close> is not checked.
\<close>

definition create_host_function_dispatcher ::
    "nat \<Rightarrow> u64 \<Rightarrow> world \<Rightarrow> (dispatcher option \<times> bool \<times> world) option" where
  "create_host_function_dispatcher pid n w =
     (let (ok, w) = sys_alloc w in
      if \<not> ok then None
      else case sys_pipe pid w of
        (None, w) \<Rightarrow> Some (None, False, sys_free w)
      | (Some to_daemon, w) \<Rightarrow> (case sys_pipe pid w of
        (None, w) \<Rightarrow> Some (None, False, sys_free w)
      | (Some from_daemon, w) \<Rightarrow>
          let (ep, w) = sys_epoll_create pid w in
          if ep < 0 then Some (None, False, sys_free w)
          else
            let (r, w) = sys_epoll_add pid ep (fst to_daemon) (-1) w in
            if r = -1 then Some (None, False, sys_free (snd (sys_close pid ep w)))
            else
              let (e, w) = next_fault w in
              if e \<noteq> None then Some (None, False, sys_free (snd (sys_close pid ep w)))
              else
                let (oks, w) = alloc_many 7 w in
                if \<not> list_all id oks
                then Some (None, True, sys_free (snd (sys_close pid ep (free_many (count_if id oks) w))))
                else Some (Some
                  \<lparr>d_epoll_fd = ep, d_to_daemon = to_daemon, d_from_daemon = from_daemon,
                   d_detached = False, d_cnt_func = 0,
                   d_req_fd = replicate (array_length n 4) None,
                   d_res_fd = replicate (array_length n 4) None,
                   d_foo = replicate (array_length n 8) None,
                   d_user_data = replicate (array_length n 8) None,
                   d_owns = replicate (array_length n 1) None,
                   d_sz_arg = replicate (array_length n 8) None,
                   d_sz_ret = replicate (array_length n 8) None\<rparr>, True, w)))"

text \<open>Integers on the control pipes.\<close>

definition int_bytes :: "u32 \<Rightarrow> u8 list" where
  "int_bytes v = bytes_of 4 (ucast v)"

definition int_of_bytes :: "u8 list \<Rightarrow> u32" where
  "int_of_bytes bs = ucast (word_of bs)"

text \<open>
  \<open>delete_host_function_dispatcher\<close> in three parts, since it waits for the daemon: it sends
  the exit signal, reads the reply, and then closes and frees everything.
\<close>

definition delete_request :: "nat \<Rightarrow> dispatcher \<Rightarrow> world \<Rightarrow> (int \<times> world) io" where
  "delete_request pid d w = sys_write pid (snd (d_to_daemon d)) (int_bytes DISPATCHER_EXIT) w"

definition delete_wait :: "nat \<Rightarrow> dispatcher \<Rightarrow> world \<Rightarrow> (int \<times> u8 list \<times> world) io" where
  "delete_wait pid d w = sys_read pid (fst (d_from_daemon d)) 4 w"

fun close_all :: "nat \<Rightarrow> int list \<Rightarrow> int \<Rightarrow> world \<Rightarrow> int \<times> world" where
  "close_all pid [] ret w = (ret, w)"
| "close_all pid (fd # fds) ret w =
     (let (r, w) = sys_close pid fd w in close_all pid fds (ret OR r) w)"

definition entry :: "'a option list \<Rightarrow> nat \<Rightarrow> 'a option" where
  "entry xs i = (if i < length xs then xs ! i else None)"

definition func_fds :: "dispatcher \<Rightarrow> int list" where
  "func_fds d =
     concat (map (\<lambda>i. [the (entry (d_req_fd d) i), the (entry (d_res_fd d) i)]) [0..<d_cnt_func d])"

definition owned_contexts :: "dispatcher \<Rightarrow> nat" where
  "owned_contexts d =
     count_if (\<lambda>i. entry (d_owns d) i = Some True \<and> entry (d_user_data d) i \<noteq> Some NoData) [0..<d_cnt_func d]"

definition delete_finish :: "nat \<Rightarrow> dispatcher \<Rightarrow> u8 list \<Rightarrow> world \<Rightarrow> int \<times> world" where
  "delete_finish pid d reply w =
     (let (ret, w) = close_all pid
            ([d_epoll_fd d, fst (d_to_daemon d), snd (d_to_daemon d), fst (d_from_daemon d),
              snd (d_from_daemon d)] @ func_fds d) (sint (int_of_bytes reply)) w
      in (ret, free_many (owned_contexts d + 8) w))"

section \<open>Attaching functions\<close>

text \<open>\<open>_try_to_open_pipe\<close> of the receiver: an error of \<open>mkfifo\<close> gives -1.\<close>

definition receiver_open_pipe :: "nat \<Rightarrow> string \<Rightarrow> world \<Rightarrow> int \<times> world" where
  "receiver_open_pipe pid path w =
     (let (r, w) = sys_mkfifo pid path w
      in if r = -1 \<and> w_errno w pid \<noteq> EEXIST then (-1, w) else sys_open pid path w)"

text \<open>Whether an index is inside all the arrays; the code writes without looking.\<close>

definition has_room :: "dispatcher \<Rightarrow> nat \<Rightarrow> bool" where
  "has_room d i \<longleftrightarrow>
     i < length (d_req_fd d) \<and> i < length (d_res_fd d) \<and> i < length (d_foo d) \<and>
     i < length (d_user_data d) \<and> i < length (d_owns d) \<and> i < length (d_sz_arg d) \<and>
     i < length (d_sz_ret d)"

definition attach_host_function_ex ::
    "nat \<Rightarrow> dispatcher \<Rightarrow> string \<Rightarrow> host_function_ex \<Rightarrow> user_data \<Rightarrow> nat \<Rightarrow> nat \<Rightarrow> world \<Rightarrow>
     (int \<times> dispatcher \<times> world) option" where
  "attach_host_function_ex pid d name foo user_data sz_arg sz_ret w =
     (if sz_arg > PIPE_BUF \<or> sz_ret > PIPE_BUF then Some (-5, d, w)
      else
        let i = d_cnt_func d; d = d\<lparr>d_cnt_func := i + 1\<rparr>; back = (\<lambda>d. d\<lparr>d_cnt_func := i\<rparr>) in
        if \<not> has_room d i then None
        else
          let d = d\<lparr>d_sz_arg := (d_sz_arg d)[i := Some sz_arg], d_sz_ret := (d_sz_ret d)[i := Some sz_ret],
                    d_foo := (d_foo d)[i := Some foo], d_user_data := (d_user_data d)[i := Some user_data],
                    d_owns := (d_owns d)[i := Some False]\<rparr>;
              (r, w) = sys_mkdir pid PIPE_NAME_PREFIX w in
          if r \<noteq> 0 \<and> w_errno w pid \<noteq> EEXIST then Some (-1, back d, w)
          else if \<not> fits_name_buf NAME_MAX_LENGTH (pipe_name name ''_req'') then None
          else
            let (req, w) = receiver_open_pipe pid (pipe_name name ''_req'') w;
                d = d\<lparr>d_req_fd := (d_req_fd d)[i := Some req]\<rparr> in
            if req < 0 then Some (-2, back d, w)
            else if \<not> fits_name_buf NAME_MAX_LENGTH (pipe_name name ''_res'') then None
            else
              let (res, w) = receiver_open_pipe pid (pipe_name name ''_res'') w;
                  d = d\<lparr>d_res_fd := (d_res_fd d)[i := Some res]\<rparr> in
              if res < 0 then Some (-2, back d, snd (sys_close pid req w))
              else
                let (r, w) = sys_epoll_add pid (d_epoll_fd d) req (int i) w in
                if r = -1
                then Some (-3, back d, snd (sys_close pid req (snd (sys_close pid res w))))
                else Some (0, d, w))"

definition attach_host_function ::
    "nat \<Rightarrow> dispatcher \<Rightarrow> string \<Rightarrow> host_function \<Rightarrow> nat \<Rightarrow> nat \<Rightarrow> world \<Rightarrow>
     (int \<times> dispatcher \<times> world) option" where
  "attach_host_function pid d name foo sz_arg sz_ret w =
     (let (ok, w) = sys_alloc w in
      if \<not> ok then Some (-4, d, w)
      else case attach_host_function_ex pid d name legacy_host_function_adapter (LegacyContext foo)
                  sz_arg sz_ret w of
        None \<Rightarrow> None
      | Some (ret, d, w) \<Rightarrow>
          if ret \<noteq> 0 then Some (ret, d, sys_free w)
          else Some (0, d\<lparr>d_owns := (d_owns d)[d_cnt_func d - 1 := Some True]\<rparr>, w))"

text \<open>\<open>start_host_function_dispatcher\<close> only detaches the thread; detaching twice is an error (EINVAL).\<close>

definition start_host_function_dispatcher :: "dispatcher \<Rightarrow> int \<times> dispatcher" where
  "start_host_function_dispatcher d =
     (if d_detached d then (22, d) else (0, d\<lparr>d_detached := True\<rparr>))"

section \<open>The daemon\<close>

text \<open>
  The thread \<open>__host_function_dispatcher\<close>: waiting in \<open>epoll_wait\<close>, at the events of a
  batch that are left, about to write the reply to a control signal, about to read the
  argument of function \<open>i\<close> into the allocated buffer, about to call it, about to write its
  response; \<open>DmEnd\<close> is a thread that returned.
\<close>

datatype daemon_pc =
    DmWait
  | DmBatch "int list"
  | DmControl u32 "int list"
  | DmRead nat "int list"
  | DmCall nat "u8 list" "int list"
  | DmReply nat "u8 list" "u8 list option" "int list"
  | DmEnd
  | DmFault

record daemon =
  dm_pc :: daemon_pc
  dm_exit :: bool

text \<open>The events that \<open>epoll_wait\<close> may report: some of the ready ones, at most \<open>MAX_EPOLL_EVENTS\<close>.\<close>

definition epoll_ready :: "nat \<Rightarrow> dispatcher \<Rightarrow> world \<Rightarrow> int list" where
  "epoll_ready pid d w =
     (case file_of w pid (d_epoll_fd d) of
        Some (Epoll e) \<Rightarrow> map snd (filter (\<lambda>(q, dat). w_pipes w ! q \<noteq> []) (w_epolls w ! e))
      | _ \<Rightarrow> [])"

definition epoll_reports :: "nat \<Rightarrow> dispatcher \<Rightarrow> world \<Rightarrow> int list \<Rightarrow> bool" where
  "epoll_reports pid d w evs \<longleftrightarrow>
     evs \<noteq> [] \<and> distinct evs \<and> length evs \<le> MAX_EPOLL_EVENTS \<and> set evs \<subseteq> set (epoll_ready pid d w)"

definition daemon_wait :: "nat \<Rightarrow> dispatcher \<Rightarrow> int list \<Rightarrow> world \<Rightarrow> daemon \<Rightarrow> daemon" where
  "daemon_wait pid d evs w dm =
     (if dm_pc dm = DmWait \<and> epoll_reports pid d w evs then dm\<lparr>dm_pc := DmBatch evs\<rparr> else dm)"

text \<open>
  One step inside the loop. A step that blocks leaves everything as it is. A failed
  \<open>malloc\<close> makes \<open>read\<close> fail with \<open>EFAULT\<close>, which the code treats as any failed read.
\<close>

fun daemon_step :: "nat \<Rightarrow> dispatcher \<Rightarrow> world \<Rightarrow> daemon \<Rightarrow> daemon_pc \<Rightarrow> daemon \<times> world" where
  "daemon_step pid d w dm (DmBatch []) =
     (dm\<lparr>dm_pc := if dm_exit dm then DmEnd else DmWait\<rparr>, w)"
| "daemon_step pid d w dm (DmBatch (e # evs)) =
     (if e = -1
      then case sys_read pid (fst (d_to_daemon d)) 4 w of
          Blocked \<Rightarrow> (dm, w)
        | Done (n, bs, w) \<Rightarrow>
            if n < 0 then (dm\<lparr>dm_pc := DmFault\<rparr>, w)
            else if int_of_bytes bs = DISPATCHER_EXIT
            then (dm\<lparr>dm_exit := True, dm_pc := DmControl 0 evs\<rparr>, w)
            else (dm\<lparr>dm_pc := DmControl (int_of_bytes bs) evs\<rparr>, w)
      else let (ok, w) = sys_alloc w in
        if ok then (dm\<lparr>dm_pc := DmRead (nat e) evs\<rparr>, w) else (dm\<lparr>dm_pc := DmBatch evs\<rparr>, w))"
| "daemon_step pid d w dm (DmControl reply evs) =
     (case sys_write pid (snd (d_from_daemon d)) (int_bytes reply) w of
        Blocked \<Rightarrow> (dm, w)
      | Done (_, w) \<Rightarrow> (dm\<lparr>dm_pc := DmBatch evs\<rparr>, w))"
| "daemon_step pid d w dm (DmRead i evs) =
     (case (entry (d_req_fd d) i, entry (d_sz_arg d) i) of
        (Some fd, Some sz) \<Rightarrow>
          (case sys_read pid fd sz w of
             Blocked \<Rightarrow> (dm, w)
           | Done (bytes_read, args, w) \<Rightarrow>
               if bytes_read < 0 \<or> nat bytes_read \<noteq> sz
               then (dm\<lparr>dm_pc := DmBatch evs\<rparr>, sys_free w)
               else (dm\<lparr>dm_pc := DmCall i args evs\<rparr>, w))
      | _ \<Rightarrow> (dm\<lparr>dm_pc := DmFault\<rparr>, w))"
| "daemon_step pid d w dm (DmCall i args evs) =
     (case (entry (d_foo d) i, entry (d_user_data d) i) of
        (Some foo, Some user_data) \<Rightarrow> (dm\<lparr>dm_pc := DmReply i args (foo args user_data) evs\<rparr>, w)
      | _ \<Rightarrow> (dm\<lparr>dm_pc := DmFault\<rparr>, w))"
| "daemon_step pid d w dm (DmReply i args ret evs) =
     (case (entry (d_res_fd d) i, entry (d_sz_ret d) i) of
        (Some fd, Some sz) \<Rightarrow>
          (case ret of
             None \<Rightarrow> (dm\<lparr>dm_pc := DmBatch evs\<rparr>, sys_free w)
           | Some r \<Rightarrow>
               if sz = 0 then (dm\<lparr>dm_pc := DmBatch evs\<rparr>, sys_free w)
               else if length r < sz then (dm\<lparr>dm_pc := DmFault\<rparr>, w)
               else case sys_write pid fd (take sz r) w of
                   Blocked \<Rightarrow> (dm, w)
                 | Done (_, w) \<Rightarrow> (dm\<lparr>dm_pc := DmBatch evs\<rparr>, sys_free w))
      | _ \<Rightarrow> (dm\<lparr>dm_pc := DmFault\<rparr>, w))"
| "daemon_step pid d w dm _ = (dm, w)"

end
