(* ===== verification/Function_Receiver_Props.thy ===== *)
theory Function_Receiver_Props
  imports Function_Receiver
begin

text \<open>
  What the functions of the receiver do to the dispatcher and to the process: an attach
  that fails undoes everything, one that succeeds adds one function and leaves the others
  alone; what creating and deleting leave behind.
\<close>

section \<open>Attaching\<close>

text \<open>The dispatcher is the same up to the first \<open>k\<close> entries of its arrays.\<close>

definition same_upto :: "nat \<Rightarrow> dispatcher \<Rightarrow> dispatcher \<Rightarrow> bool" where
  "same_upto k d d' \<longleftrightarrow>
     d_epoll_fd d' = d_epoll_fd d \<and> d_to_daemon d' = d_to_daemon d \<and>
     d_from_daemon d' = d_from_daemon d \<and> d_detached d' = d_detached d \<and>
     length (d_req_fd d') = length (d_req_fd d) \<and> length (d_res_fd d') = length (d_res_fd d) \<and>
     length (d_foo d') = length (d_foo d) \<and> length (d_user_data d') = length (d_user_data d) \<and>
     length (d_owns d') = length (d_owns d) \<and> length (d_sz_arg d') = length (d_sz_arg d) \<and>
     length (d_sz_ret d') = length (d_sz_ret d) \<and>
     (\<forall>i < k. entry (d_req_fd d') i = entry (d_req_fd d) i \<and> entry (d_res_fd d') i = entry (d_res_fd d) i \<and>
        entry (d_foo d') i = entry (d_foo d) i \<and> entry (d_user_data d') i = entry (d_user_data d) i \<and>
        entry (d_owns d') i = entry (d_owns d) i \<and> entry (d_sz_arg d') i = entry (d_sz_arg d) i \<and>
        entry (d_sz_ret d') i = entry (d_sz_ret d) i)"

lemma entry_update: "entry (xs[i := v]) j = (if j = i \<and> i < length xs then v else entry xs j)"
  by (simp add: entry_def)

lemma same_upto_refl [simp]: "same_upto k d d"
  by (simp add: same_upto_def)

text \<open>The new entry.\<close>

definition new_entry ::
    "dispatcher \<Rightarrow> nat \<Rightarrow> host_function_ex \<Rightarrow> user_data \<Rightarrow> bool \<Rightarrow> nat \<Rightarrow> nat \<Rightarrow> int \<Rightarrow> int \<Rightarrow> bool" where
  "new_entry d i foo user_data owned sz_arg sz_ret req res \<longleftrightarrow>
     entry (d_foo d) i = Some foo \<and> entry (d_user_data d) i = Some user_data \<and>
     entry (d_owns d) i = Some owned \<and> entry (d_sz_arg d) i = Some sz_arg \<and>
     entry (d_sz_ret d) i = Some sz_ret \<and> entry (d_req_fd d) i = Some req \<and> entry (d_res_fd d) i = Some res"

lemma receiver_open_pipe_spec:
  assumes "receiver_open_pipe pid path w = (fd, w')"
  shows "grows w w' \<and> (fifos_ok w \<longrightarrow> fifos_ok w') \<and> w_heap w' = w_heap w \<and>
    (fd = -1 \<and> looks w' = looks w \<or>
     (\<exists>n q. fd = int n \<and> looks w pid n = None \<and> w_fifos w' path = Some q \<and>
        looks w' = (looks w)(pid := (looks w pid)(n \<mapsto> Fifo q))))"
  using mkfifo_open_spec [of pid path w "-1" fd w'] assms by (simp add: receiver_open_pipe_def)

lemma sys_epoll_add_spec:
  assumes "sys_epoll_add pid ep fd dat w = (r, w')"
  shows "r = -1 \<and> same_files w w' \<or>
    (\<exists>e f q v. r = 0 \<and> same_files w v \<and> file_of w pid ep = Some (Epoll e) \<and> file_of w pid fd = Some f \<and>
       read_end f = Some q \<and> w' = v\<lparr>w_epolls := (w_epolls v)[e := w_epolls v ! e @ [(q, dat)]]\<rparr>)"
  using assms unfolding sys_epoll_add_def
proof (cases rule: faulty_cases)
  case (ran v)
  have f: "file_of v p n = file_of w p n" for p n
    using same_filesD(2) [OF ran(1)] by (simp add: file_of_looks)
  show ?thesis
    using ran f same_files_trans [OF ran(1), of w']
    by (auto simp: fail_with_eq same_files_def split: option.splits descr.splits)
qed auto

lemma sys_close_fresh:
  assumes "looks w pid n \<noteq> None"
  shows "grows w (snd (sys_close pid (int n) w)) \<and> w_heap (snd (sys_close pid (int n) w)) = w_heap w \<and>
    (fifos_ok w \<longrightarrow> fifos_ok (snd (sys_close pid (int n) w))) \<and>
    looks (snd (sys_close pid (int n) w)) = (looks w)(pid := (looks w pid)(n := None))"
  using sys_close_spec [of pid n w] assms by (cases "sys_close pid (int n) w") auto

text \<open>A failed attach (\<open>attach_undone\<close>) and a successful one (\<open>attach_done\<close>).\<close>

definition attach_undone :: "dispatcher \<Rightarrow> world \<Rightarrow> dispatcher \<Rightarrow> world \<Rightarrow> bool" where
  "attach_undone d w d' w' \<longleftrightarrow>
     d_cnt_func d' = d_cnt_func d \<and> same_upto (d_cnt_func d) d d' \<and> looks w' = looks w \<and> grows w w' \<and>
     (fifos_ok w \<longrightarrow> fifos_ok w') \<and> w_heap w' = w_heap w"

definition attach_done ::
    "nat \<Rightarrow> string \<Rightarrow> host_function_ex \<Rightarrow> user_data \<Rightarrow> bool \<Rightarrow> nat \<Rightarrow> nat \<Rightarrow> dispatcher \<Rightarrow> world \<Rightarrow>
     dispatcher \<Rightarrow> world \<Rightarrow> bool" where
  "attach_done pid name foo user_data owned sz_arg sz_ret d w d' w' \<longleftrightarrow>
     d_cnt_func d' = d_cnt_func d + 1 \<and> same_upto (d_cnt_func d) d d' \<and>
     (\<exists>n m q q' e v.
        new_entry d' (d_cnt_func d) foo user_data owned sz_arg sz_ret (int n) (int m) \<and>
        n \<noteq> m \<and> looks w pid n = None \<and> looks w pid m = None \<and>
        w_fifos w' (pipe_name name ''_req'') = Some q \<and> w_fifos w' (pipe_name name ''_res'') = Some q' \<and>
        looks w' = (looks w)(pid := (looks w pid)(n \<mapsto> Fifo q, m \<mapsto> Fifo q')) \<and>
        grows w v \<and> (fifos_ok w \<longrightarrow> fifos_ok w') \<and> w_heap w' = w_heap w \<and>
        file_of w' pid (d_epoll_fd d) = Some (Epoll e) \<and>
        w' = v\<lparr>w_epolls := (w_epolls v)[e := w_epolls v ! e @ [(q, int (d_cnt_func d))]]\<rparr>)"

lemma attach_undone_files: "attach_undone d w d' w' \<longleftrightarrow>
    d_cnt_func d' = d_cnt_func d \<and> same_upto (d_cnt_func d) d d' \<and> files_undone w w'"
  by (simp add: attach_undone_def files_undone_def)

text \<open>A process with one or two more files than in \<open>w\<close>.\<close>

definition one_open :: "nat \<Rightarrow> world \<Rightarrow> nat \<Rightarrow> nat \<Rightarrow> world \<Rightarrow> bool" where
  "one_open pid w n q x \<longleftrightarrow> looks w pid n = None \<and> looks x = (looks w)(pid := (looks w pid)(n \<mapsto> Fifo q)) \<and>
     grows w x \<and> (fifos_ok w \<longrightarrow> fifos_ok x) \<and> w_heap x = w_heap w"

lemma close_undone:
  assumes "one_open pid w n q x"
  shows "files_undone w (snd (sys_close pid (int n) x))"
  using sys_close_fresh [of x pid n] assms grows_trans [of w x] unfolding one_open_def files_undone_def
  by (auto simp: fun_eq_iff)

lemma one_open_same:
  "one_open pid w n q x \<Longrightarrow> same_files x y \<Longrightarrow> one_open pid w n q y"
  using same_filesD [of x y] grows_trans [of w x y] by (auto simp: one_open_def)

text \<open>Opening the request FIFO, and then the response FIFO.\<close>

lemma open_first:
  assumes "sys_mkdir pid dir w = (r, u)" "receiver_open_pipe pid path u = (fd, x)"
  shows "files_undone w u \<and>
    (fd = -1 \<and> files_undone w x \<or> (\<exists>n q. fd = int n \<and> one_open pid w n q x \<and> w_fifos x path = Some q))"
  using sys_mkdir_spec [OF assms(1)] receiver_open_pipe_spec [OF assms(2)] grows_trans [of w u x]
  by (auto simp: files_undone_def one_open_def)

lemma open_second:
  assumes "one_open pid w n q x" "receiver_open_pipe pid path x = (fd, y)"
  shows "fd = -1 \<and> one_open pid w n q y \<or>
    (\<exists>m q'. fd = int m \<and> n \<noteq> m \<and> one_open pid w n q x \<and> one_open pid x m q' y \<and> w_fifos y path = Some q')"
proof -
  note R = receiver_open_pipe_spec [OF assms(2)]
  from R show ?thesis
  proof (elim conjE disjE exE)
    assume "fd = -1" "looks y = looks x"
    then show ?thesis using R assms(1) grows_trans [of w x y] by (simp add: one_open_def)
  next
    fix m q' assume m: "fd = int m" "looks x pid m = None" "w_fifos y path = Some q'"
      "looks y = (looks x)(pid := (looks x pid)(m \<mapsto> Fifo q'))"
    have "one_open pid x m q' y" using R m unfolding one_open_def by blast
    moreover have "n \<noteq> m" using m(2) assms(1) by (auto simp: one_open_def)
    ultimately show ?thesis using m(1,3) assms(1) by blast
  qed
qed

lemma close_both:
  assumes "one_open pid w n q x" "one_open pid x m q' y"
  shows "files_undone w (snd (sys_close pid (int n) (snd (sys_close pid (int m) y))))"
proof -
  let ?c = "snd (sys_close pid (int m) y)"
  have "files_undone x ?c" by (rule close_undone [OF assms(2)])
  then have "one_open pid w n q ?c"
    using assms(1) grows_trans [of w x ?c] by (auto simp: files_undone_def one_open_def)
  then show ?thesis by (rule close_undone)
qed

text \<open>The last step of an attach that succeeds.\<close>

lemma attach_finish:
  assumes W: "one_open pid w n q x" "one_open pid x m q' y" "n \<noteq> m"
    and fifos: "w_fifos x (pipe_name name ''_req'') = Some q" "w_fifos y (pipe_name name ''_res'') = Some q'"
    and add: "sys_epoll_add pid (d_epoll_fd d) (int n) (int (d_cnt_func d)) y = (a, z)" "a \<noteq> -1"
    and d': "d_cnt_func d' = d_cnt_func d + 1" "same_upto (d_cnt_func d) d d'"
      "new_entry d' (d_cnt_func d) foo user_data False sz_arg sz_ret (int n) (int m)"
  shows "attach_done pid name foo user_data False sz_arg sz_ret d w d' z"
proof -
  obtain e f qq v where e: "same_files y v" "file_of y pid (d_epoll_fd d) = Some (Epoll e)"
      "file_of y pid (int n) = Some f" "read_end f = Some qq"
      "z = v\<lparr>w_epolls := (w_epolls v)[e := w_epolls v ! e @ [(qq, int (d_cnt_func d))]]\<rparr>"
    using sys_epoll_add_spec [OF add(1)] add(2) by auto
  have l: "looks x = (looks w)(pid := (looks w pid)(n \<mapsto> Fifo q))" "looks x pid m = None" "looks w pid n = None"
      "looks y = (looks x)(pid := (looks x pid)(m \<mapsto> Fifo q'))"
    using W by (simp_all add: one_open_def)
  have "f = Fifo q" using e(3) l W(3) by (simp add: file_of_looks)
  then have z: "z = v\<lparr>w_epolls := (w_epolls v)[e := w_epolls v ! e @ [(q, int (d_cnt_func d))]]\<rparr>"
    using e(4,5) by simp
  have same: "looks z = looks y" "fifos_ok z = fifos_ok y" "w_heap z = w_heap y" "w_fifos z = w_fifos y"
    using z same_filesD [OF e(1)] e(1) by (auto simp: looks_def fun_eq_iff fifos_ok_def same_files_def)
  then have "file_of z pid (d_epoll_fd d) = Some (Epoll e)" using e(2) by (auto simp: file_of_looks split: if_splits)
  moreover have "looks w pid m = None" using l W(3) by (auto split: if_splits)
  moreover have "w_fifos z (pipe_name name ''_req'') = Some q" "w_fifos z (pipe_name name ''_res'') = Some q'"
    using fifos W(2) same(4) grows_fifo by (auto simp: one_open_def)
  moreover have "looks z = (looks w)(pid := (looks w pid)(n \<mapsto> Fifo q, m \<mapsto> Fifo q'))"
    unfolding same(1) l(4) l(1) by simp
  moreover have "fifos_ok w \<longrightarrow> fifos_ok z" "w_heap z = w_heap w" using W same by (simp_all add: one_open_def)
  moreover have "grows w v"
    using W same_filesD(1) [OF e(1)] grows_trans unfolding one_open_def by metis
  ultimately show ?thesis unfolding attach_done_def using d' l(3) W(3) z by blast
qed

text \<open>The calls of an attach that fit the pipes and the arrays, one after another.\<close>

lemma attach_host_function_ex_cases:
  assumes att: "attach_host_function_ex pid d name foo user_data sz_arg sz_ret w = Some (ret, d', w')"
    and sz: "sz_arg \<le> PIPE_BUF" "sz_ret \<le> PIPE_BUF" and i: "i = d_cnt_func d"
  obtains u r req x where "sys_mkdir pid PIPE_NAME_PREFIX w = (r, u)" "receiver_open_pipe pid (pipe_name name ''_req'') u = (req, x)"
      "ret \<in> {-1, -2}" "w' = u \<or> req < 0 \<and> w' = x" "d_cnt_func d' = i" "same_upto i d d'"
    | u r req x res y where "sys_mkdir pid PIPE_NAME_PREFIX w = (r, u)" "receiver_open_pipe pid (pipe_name name ''_req'') u = (req, x)"
      "0 \<le> req" "receiver_open_pipe pid (pipe_name name ''_res'') x = (res, y)" "res < 0"
      "ret = -2" "w' = snd (sys_close pid req y)" "d_cnt_func d' = i" "same_upto i d d'"
    | u r req x res y a z where "sys_mkdir pid PIPE_NAME_PREFIX w = (r, u)" "receiver_open_pipe pid (pipe_name name ''_req'') u = (req, x)"
      "0 \<le> req" "receiver_open_pipe pid (pipe_name name ''_res'') x = (res, y)" "0 \<le> res"
      "sys_epoll_add pid (d_epoll_fd d) req (int i) y = (a, z)"
      "a = -1 \<and> ret = -3 \<and> w' = snd (sys_close pid req (snd (sys_close pid res z))) \<and> d_cnt_func d' = i \<or>
       a \<noteq> -1 \<and> ret = 0 \<and> w' = z \<and> d_cnt_func d' = i + 1 \<and>
         new_entry d' i foo user_data False sz_arg sz_ret req res" "same_upto i d d'"
proof -
  have sz': "\<not> (PIPE_BUF < sz_arg \<or> PIPE_BUF < sz_ret)" using sz by simp
  have room: "has_room d i"
    using att sz' by (auto simp: attach_host_function_ex_def Let_def has_room_def i split: if_splits)
  have room': "has_room (d\<lparr>d_cnt_func := k\<rparr>) i" for k using room by (simp add: has_room_def)
  obtain r u where u: "sys_mkdir pid PIPE_NAME_PREFIX w = (r, u)" by fastforce
  obtain req x where x: "receiver_open_pipe pid (pipe_name name ''_req'') u = (req, x)" by fastforce
  obtain res y where y: "receiver_open_pipe pid (pipe_name name ''_res'') x = (res, y)" by fastforce
  obtain a z where z: "sys_epoll_add pid (d_epoll_fd d) req (int i) y = (a, z)" by fastforce
  note eval = attach_host_function_ex_def sz' room' u x y z Let_def i [symmetric]
  note upto = same_upto_def entry_update
  consider "r \<noteq> 0 \<and> w_errno u pid \<noteq> EEXIST \<or> req < 0"
    | "\<not> (r \<noteq> 0 \<and> w_errno u pid \<noteq> EEXIST)" "0 \<le> req" "res < 0"
    | "\<not> (r \<noteq> 0 \<and> w_errno u pid \<noteq> EEXIST)" "0 \<le> req" "0 \<le> res" by linarith
  then show thesis
  proof cases
    case 1
    with att show thesis by (intro that(1) [OF u x]) (auto simp: eval upto split: if_splits)
  next
    case 2
    with att show thesis by (intro that(2) [OF u x _ y]) (auto simp: eval upto split: if_splits)
  next
    case 3
    with att room show thesis
      by (intro that(3) [OF u x _ y _ z]) (auto simp: eval upto new_entry_def has_room_def split: if_splits)
  qed
qed

lemma attach_host_function_ex_spec:
  assumes att: "attach_host_function_ex pid d name foo user_data sz_arg sz_ret w = Some (ret, d', w')"
  shows "ret \<in> {-1, -2, -3, -5} \<and> attach_undone d w d' w' \<or>
    ret = 0 \<and> sz_arg \<le> PIPE_BUF \<and> sz_ret \<le> PIPE_BUF \<and>
    attach_done pid name foo user_data False sz_arg sz_ret d w d' w'"
proof (cases "PIPE_BUF < sz_arg \<or> PIPE_BUF < sz_ret")
  case True
  then show ?thesis using att by (auto simp: attach_host_function_ex_def attach_undone_def)
next
  case False
  then have sz: "sz_arg \<le> PIPE_BUF" "sz_ret \<le> PIPE_BUF" by simp_all
  from att sz refl show ?thesis
  proof (cases rule: attach_host_function_ex_cases)
    case (1 u r req x)
    then show ?thesis using open_first [OF 1(1,2)] by (auto simp: attach_undone_files)
  next
    case (2 u r req x res y)
    then obtain n q where n: "req = int n" "one_open pid w n q x" using open_first [OF 2(1,2)] by auto
    then show ?thesis
      using open_second [OF n(2) 2(4)] 2(5-9) close_undone [of pid w n q y] by (auto simp: attach_undone_files)
  next
    case (3 u r req x res y a z)
    then obtain n q where n: "req = int n" "one_open pid w n q x" "w_fifos x (pipe_name name ''_req'') = Some q"
      using open_first [OF 3(1,2)] by auto
    then obtain m q' where m: "res = int m" "n \<noteq> m" "one_open pid x m q' y" "w_fifos y (pipe_name name ''_res'') = Some q'"
      using open_second [OF n(2) 3(4)] 3(5) by auto
    show ?thesis
    proof (cases "a = -1")
      case True
      then have "same_files y z" using sys_epoll_add_spec [OF 3(6)] by auto
      then show ?thesis
        using 3(7,8) True close_both [OF n(2) one_open_same [OF m(3)]] n(1) m(1) by (auto simp: attach_undone_files)
    next
      case False
      then show ?thesis
        using attach_finish [OF n(2) m(3,2) n(3) m(4) 3(6) [unfolded n(1)]] 3(7,8) n(1) m(1) sz by simp
    qed
  qed
qed

section \<open>Attaching: the properties\<close>

text \<open>
  \<open>attach_host_function\<close> wraps the function in a context: the context is given back when
  the attach fails, and otherwise belongs to the dispatcher.
\<close>

lemma attach_undone_alloc:
  assumes "sys_alloc w = (True, v)" "attach_undone d v d' u"
  shows "attach_undone d w d' (sys_free u)"
  using assms(2) sys_alloc_cases [OF assms(1)] sys_free_frame [of u] grows_trans [of w v u]
    grows_trans [of w u "sys_free u"]
  by (simp add: attach_undone_def)

lemma attach_host_function_spec:
  assumes att: "attach_host_function pid d name foo sz_arg sz_ret w = Some (ret, d', w')"
  shows "ret \<in> {-1, -2, -3, -4, -5} \<and> attach_undone d w d' w' \<or>
    ret = 0 \<and> sz_arg \<le> PIPE_BUF \<and> sz_ret \<le> PIPE_BUF \<and>
    (\<exists>v. sys_alloc w = (True, v) \<and> w_heap v = w_heap w + 1 \<and>
       attach_done pid name legacy_host_function_adapter (LegacyContext foo) True sz_arg sz_ret d v d' w')"
proof (cases "sys_alloc w")
  case (Pair ok v)
  note A = sys_alloc_cases [OF Pair]
  show ?thesis
  proof (cases ok)
    case False
    then show ?thesis using att Pair A by (auto simp: attach_host_function_def attach_undone_def)
  next
    case True
    then obtain r d1 u where ex: "attach_host_function_ex pid d name legacy_host_function_adapter
        (LegacyContext foo) sz_arg sz_ret v = Some (r, d1, u)"
      using att Pair by (auto simp: attach_host_function_def split: option.splits)
    have res: "ret = r" "d' = (if r = 0 then d1\<lparr>d_owns := (d_owns d1)[d_cnt_func d1 - 1 := Some True]\<rparr> else d1)"
        "w' = (if r = 0 then u else sys_free u)"
      using att Pair True ex by (auto simp: attach_host_function_def split: if_splits)
    from attach_host_function_ex_spec [OF ex] show ?thesis
    proof (elim disjE conjE)
      assume "r \<in> {-1, -2, -3, -5}" "attach_undone d v d1 u"
      then show ?thesis
        using attach_undone_alloc [of w v d d1 u] Pair True res by auto
    next
      assume r: "r = 0" and sz: "sz_arg \<le> PIPE_BUF" "sz_ret \<le> PIPE_BUF"
        and att1: "attach_done pid name legacy_host_function_adapter (LegacyContext foo) False sz_arg sz_ret d v d1 u"
      have d': "d' = d1\<lparr>d_owns := (d_owns d1)[d_cnt_func d := Some True]\<rparr>"
        using res(2) r att1 by (simp add: attach_done_def)
      have same: "same_upto (d_cnt_func d) d d'"
        using att1 d' by (simp add: attach_done_def same_upto_def entry_update)
      have new: "new_entry d' i f ud True a b req rs"
        if "new_entry d1 i f ud False a b req rs" "i = d_cnt_func d" for i f ud a b req rs
        using that d' by (auto simp: new_entry_def entry_def split: if_splits)
      have "attach_done pid name legacy_host_function_adapter (LegacyContext foo) True sz_arg sz_ret d v d' u"
        using att1 same d' new unfolding attach_done_def by (fastforce simp: same_upto_def)
      then show ?thesis using r res sz Pair True A by auto
    qed
  qed
qed

text \<open>When nothing fails, attaching succeeds.\<close>

lemma receiver_open_pipe_ok:
  assumes "w_plan w = []" "dirname path \<in> set (w_dirs w)" "receiver_open_pipe pid path w = (fd, w')"
  shows "0 \<le> fd \<and> w_plan w' = [] \<and> w_dirs w' = w_dirs w \<and> looks w pid (nat fd) = None \<and>
    (\<exists>q. w_fifos w' path = Some q \<and> looks w' = (looks w)(pid := (looks w pid)(nat fd \<mapsto> Fifo q))) \<and>
    (\<forall>a. looks w pid a = None \<longrightarrow> fd \<le> int a)"
  by (rule mkfifo_open_ok [OF assms(1,2), where bad = "-1"]) (use assms(3) in \<open>simp add: receiver_open_pipe_def\<close>)

lemma attach_host_function_ex_ok:
  assumes plan: "w_plan w = []" and name: "CHR ''/'' \<notin> set name" "length name \<le> 236"
    and sz: "sz_arg \<le> PIPE_BUF" "sz_ret \<le> PIPE_BUF" and room: "has_room d (d_cnt_func d)"
    and ep: "file_of w pid (d_epoll_fd d) = Some (Epoll e)"
  shows "\<exists>d' w'. attach_host_function_ex pid d name foo user_data sz_arg sz_ret w = Some (0, d', w') \<and>
    w_plan w' = [] \<and> set (w_dirs w') = insert PIPE_NAME_PREFIX (set (w_dirs w))"
proof -
  let ?i = "d_cnt_func d"
  have room': "has_room (d\<lparr>d_cnt_func := k\<rparr>) ?i" for k using room by (simp add: has_room_def)
  have sz': "\<not> (PIPE_BUF < sz_arg \<or> PIPE_BUF < sz_ret)" using sz by simp
  obtain r u where u: "sys_mkdir pid PIPE_NAME_PREFIX w = (r, u)" by (cases "sys_mkdir pid PIPE_NAME_PREFIX w")
  note M = sys_mkdir_spec [OF u] and M' = sys_mkdir_ok [OF plan u]
  have dirs: "set (w_dirs u) = insert PIPE_NAME_PREFIX (set (w_dirs w))"
    using u plan by (auto simp: sys_mkdir_def faulty_ok fail_with_eq split: if_splits)
  have dir: "dirname (pipe_name name ''_req'') = PIPE_NAME_PREFIX" "dirname (pipe_name name ''_res'') = PIPE_NAME_PREFIX"
    using name(1) by (simp_all add: dirname_pipe_name)
  have fits: "fits_name_buf NAME_MAX_LENGTH (pipe_name name ''_req'')" "fits_name_buf NAME_MAX_LENGTH (pipe_name name ''_res'')"
    using name(2) by (simp_all add: fits_name_buf_iff NAME_MAX_LENGTH_def)
  obtain req x where x: "receiver_open_pipe pid (pipe_name name ''_req'') u = (req, x)"
    by (cases "receiver_open_pipe pid (pipe_name name ''_req'') u")
  obtain q where X: "0 \<le> req" "w_plan x = []" "w_dirs x = w_dirs u" "looks u pid (nat req) = None"
      "looks x = (looks u)(pid := (looks u pid)(nat req \<mapsto> Fifo q))"
    using receiver_open_pipe_ok [OF M'(1) _ x] M'(2) dir by auto
  obtain res y where y: "receiver_open_pipe pid (pipe_name name ''_res'') x = (res, y)"
    by (cases "receiver_open_pipe pid (pipe_name name ''_res'') x")
  obtain q' where Y: "0 \<le> res" "w_plan y = []" "w_dirs y = w_dirs x" "looks x pid (nat res) = None"
      "looks y = (looks x)(pid := (looks x pid)(nat res \<mapsto> Fifo q'))"
    using receiver_open_pipe_ok [OF X(2) _ y] M'(2) X(3) dir by auto
  have lu: "looks u = looks w" using M by simp
  have old: "file_of y pid (d_epoll_fd d) = Some (Epoll e)"
    using ep X(4) Y(4) unfolding file_of_looks Y(5) X(5) lu by (auto split: if_splits)
  have new: "file_of y pid req = Some (Fifo q)"
    using X(1,4) Y(4) unfolding file_of_looks Y(5) X(5) lu by auto
  let ?z = "y\<lparr>w_epolls := (w_epolls y)[e := w_epolls y ! e @ [(q, int ?i)]]\<rparr>"
  have z: "sys_epoll_add pid (d_epoll_fd d) req (int ?i) y = (0, ?z)"
    using Y(2) old new by (simp add: sys_epoll_add_def faulty_ok)
  show ?thesis
    using M'(3) X(1) Y(1-3) X(3) dirs
    by (auto simp: attach_host_function_ex_def sz' room' u x y z Let_def fits)
qed

section \<open>Creating a dispatcher\<close>

lemma install_file_ok:
  assumes "install_file pid f w = (r, w')"
  shows "file_of w' pid r = Some f \<and> (\<forall>fd g. file_of w pid fd = Some g \<longrightarrow> file_of w' pid fd = Some g) \<and>
    0 \<le> r \<and> w_plan w' = w_plan w \<and> w_fifos w' = w_fifos w \<and> w_pipes w' = w_pipes w \<and>
    w_epolls w' = w_epolls w \<and> w_cap w' = w_cap w \<and> w_dirs w' = w_dirs w \<and>
    (\<forall>p. p \<noteq> pid \<longrightarrow> w_fds w' p = w_fds w p)"
  using assms by (auto simp: install_file_def Let_def file_of_def fds.look_new fds.new_unused split: if_splits)

lemma sys_pipe_ok:
  assumes "w_plan w = []"
  obtains r u v where "sys_pipe pid w = (Some (r, u), v)" "w_plan v = []" "w_fifos v = w_fifos w"
    "w_pipes v = w_pipes w @ [[]]" "w_epolls v = w_epolls w" "w_cap v = w_cap w" "w_dirs v = w_dirs w"
    "file_of v pid r = Some (PipeRead (length (w_pipes w)))" "file_of v pid u = Some (PipeWrite (length (w_pipes w)))"
    "\<forall>fd g. file_of w pid fd = Some g \<longrightarrow> file_of v pid fd = Some g" "\<forall>p. p \<noteq> pid \<longrightarrow> w_fds v p = w_fds w p"
proof -
  let ?w = "w\<lparr>w_pipes := w_pipes w @ [[]]\<rparr>" and ?q = "length (w_pipes w)"
  obtain r x where x: "install_file pid (PipeRead ?q) ?w = (r, x)" by (cases "install_file pid (PipeRead ?q) ?w")
  obtain u v where v: "install_file pid (PipeWrite ?q) x = (u, v)" by (cases "install_file pid (PipeWrite ?q) x")
  have "file_of ?w = file_of w" by (simp add: file_of_def fun_eq_iff)
  then show thesis
    using that [of r u v] x v assms install_file_ok [OF x] install_file_ok [OF v]
    by (simp add: sys_pipe_def next_fault_def Let_def)
qed

lemma alloc_many_ok: "w_plan w = [] \<Longrightarrow> alloc_many k w = (replicate k True, w\<lparr>w_heap := w_heap w + k\<rparr>)"
  by (induction k arbitrary: w) (simp_all add: sys_alloc_ok)

lemma create_ok:
  assumes "w_plan w = []"
  shows "\<exists>d w'. create_host_function_dispatcher pid n w = Some (Some d, True, w') \<and>
    (\<forall>i. has_room d i = (i < array_length n 1 \<and> i < array_length n 4 \<and> i < array_length n 8)) \<and>
    w_plan w' = [] \<and> w_dirs w' = w_dirs w \<and> w_fifos w' = w_fifos w \<and> d_cnt_func d = 0 \<and> w_cap w' = w_cap w \<and>
    w_pipes w' = w_pipes w @ [[], []] \<and> w_epolls w' = w_epolls w @ [[(length (w_pipes w), -1)]] \<and>
    file_of w' pid (d_epoll_fd d) = Some (Epoll (length (w_epolls w))) \<and>
    file_of w' pid (fst (d_to_daemon d)) = Some (PipeRead (length (w_pipes w))) \<and>
    file_of w' pid (snd (d_to_daemon d)) = Some (PipeWrite (length (w_pipes w))) \<and>
    file_of w' pid (fst (d_from_daemon d)) = Some (PipeRead (Suc (length (w_pipes w)))) \<and>
    file_of w' pid (snd (d_from_daemon d)) = Some (PipeWrite (Suc (length (w_pipes w)))) \<and>
    (\<forall>fd g. file_of w pid fd = Some g \<longrightarrow> file_of w' pid fd = Some g) \<and>
    (\<forall>p. p \<noteq> pid \<longrightarrow> w_fds w' p = w_fds w p)"
proof -
  let ?w = "w\<lparr>w_heap := w_heap w + 1\<rparr>" and ?n = "length (w_pipes w)"
  have w: "w_plan ?w = []" "file_of ?w = file_of w" using assms by (simp_all add: file_of_def fun_eq_iff)
  obtain r u v where v: "sys_pipe pid ?w = (Some (r, u), v)" "w_plan v = []" "w_fifos v = w_fifos w"
      "w_pipes v = w_pipes w @ [[]]" "w_epolls v = w_epolls w" "w_cap v = w_cap w" "w_dirs v = w_dirs w"
      "file_of v pid r = Some (PipeRead ?n)" "file_of v pid u = Some (PipeWrite ?n)"
      "\<forall>fd g. file_of ?w pid fd = Some g \<longrightarrow> file_of v pid fd = Some g" "\<forall>p. p \<noteq> pid \<longrightarrow> w_fds v p = w_fds w p"
    by (rule sys_pipe_ok [OF w(1), of pid]) (rule that; simp)
  obtain r2 u2 x where x: "sys_pipe pid v = (Some (r2, u2), x)" "w_plan x = []" "w_fifos x = w_fifos v"
      "w_pipes x = w_pipes v @ [[]]" "w_epolls x = w_epolls v" "w_cap x = w_cap v" "w_dirs x = w_dirs v"
      "file_of x pid r2 = Some (PipeRead (length (w_pipes v)))" "file_of x pid u2 = Some (PipeWrite (length (w_pipes v)))"
      "\<forall>fd g. file_of v pid fd = Some g \<longrightarrow> file_of x pid fd = Some g" "\<forall>p. p \<noteq> pid \<longrightarrow> w_fds x p = w_fds v p"
    by (rule sys_pipe_ok [OF v(2), of pid]) (rule that; simp)
  obtain ep y where y: "install_file pid (Epoll (length (w_epolls x))) (x\<lparr>w_epolls := w_epolls x @ [[]]\<rparr>) = (ep, y)"
    by (cases "install_file pid (Epoll (length (w_epolls x))) (x\<lparr>w_epolls := w_epolls x @ [[]]\<rparr>)")
  note Y = install_file_ok [OF y]
  have fx: "file_of (x\<lparr>w_epolls := w_epolls x @ [[]]\<rparr>) = file_of x" by (simp add: file_of_def fun_eq_iff)
  have create: "sys_epoll_create pid x = (ep, y)" using x(2) y by (simp add: sys_epoll_create_def faulty_ok)
  have files: "file_of y pid r = Some (PipeRead ?n)" "file_of y pid u = Some (PipeWrite ?n)"
      "file_of y pid r2 = Some (PipeRead (Suc ?n))" "file_of y pid u2 = Some (PipeWrite (Suc ?n))"
    using Y v(4,8,9) x(8-10) unfolding fx by auto
  have old: "file_of y pid fd = Some g" if "file_of w pid fd = Some g" for fd g
    using Y v(10) x(10) that unfolding fx w(2) by blast
  let ?z = "y\<lparr>w_epolls := (w_epolls y)[length (w_epolls x) := w_epolls y ! length (w_epolls x) @ [(?n, -1)]]\<rparr>"
  have add: "sys_epoll_add pid ep r (-1) y = (0, ?z)"
    using Y x(2) files(1) by (simp add: sys_epoll_add_def faulty_ok)
  have z: "w_plan ?z = []" "file_of (?z\<lparr>w_heap := h\<rparr>) = file_of y" for h
    using Y x(2) by (simp_all add: file_of_def fun_eq_iff)
  let ?d = "\<lparr>d_epoll_fd = ep, d_to_daemon = (r, u), d_from_daemon = (r2, u2), d_detached = False, d_cnt_func = 0,
     d_req_fd = replicate (array_length n 4) None, d_res_fd = replicate (array_length n 4) None,
     d_foo = replicate (array_length n 8) None, d_user_data = replicate (array_length n 8) None,
     d_owns = replicate (array_length n 1) None, d_sz_arg = replicate (array_length n 8) None,
     d_sz_ret = replicate (array_length n 8) None\<rparr>"
  have "create_host_function_dispatcher pid n w = Some (Some ?d, True, ?z\<lparr>w_heap := w_heap ?z + 7\<rparr>)"
    using v(1) x(1) create add z(1) Y alloc_many_ok [OF z(1), of 7]
    by (simp add: create_host_function_dispatcher_def sys_alloc_ok [OF assms] Let_def next_fault_def list_all_iff)
  moreover have "\<forall>i. has_room ?d i = (i < array_length n 1 \<and> i < array_length n 4 \<and> i < array_length n 8)"
    by (auto simp: has_room_def)
  ultimately show ?thesis
    using files z(2) Y v x fx old
    by (intro exI [of _ ?d] exI [of _ "?z\<lparr>w_heap := w_heap ?z + 7\<rparr>"]) simp
qed

section \<open>Properties\<close>

text \<open>
  C25: attaching is all or nothing. A call that returns an error leaves the dispatcher with
  the functions it had, all descriptors open on what they were open on, and gives back the
  context; one that returns 0 adds exactly one function, behind those that were there, that
  owns its context and has two new descriptors, open on the FIFOs of its name.
\<close>

theorem attach_all_or_nothing:
  assumes "attach_host_function pid d name foo sz_arg sz_ret w = Some (ret, d', w')"
  shows "(ret \<noteq> 0 \<longrightarrow> d_cnt_func d' = d_cnt_func d \<and> looks w' = looks w \<and> w_heap w' = w_heap w) \<and>
    (ret = 0 \<longrightarrow> d_cnt_func d' = d_cnt_func d + 1 \<and> w_heap w' = w_heap w + 1 \<and>
       (\<exists>n m q q'. n \<noteq> m \<and>
          new_entry d' (d_cnt_func d) legacy_host_function_adapter (LegacyContext foo) True sz_arg sz_ret (int n) (int m) \<and>
          w_fifos w' (pipe_name name ''_req'') = Some q \<and> w_fifos w' (pipe_name name ''_res'') = Some q' \<and>
          looks w pid n = None \<and> looks w pid m = None \<and>
          looks w' = (looks w)(pid := (looks w pid)(n \<mapsto> Fifo q, m \<mapsto> Fifo q')))) \<and>
    same_upto (d_cnt_func d) d d'"
  using attach_host_function_spec [OF assms]
proof (elim disjE conjE exE)
  assume "ret \<in> {-1, -2, -3, -4, -5}" "attach_undone d w d' w'"
  then show ?thesis by (auto simp: attach_undone_def)
next
  fix v assume ret: "ret = 0" and v: "sys_alloc w = (True, v)" "w_heap v = w_heap w + 1"
    and A: "attach_done pid name legacy_host_function_adapter (LegacyContext foo) True sz_arg sz_ret d v d' w'"
  have "looks v = looks w" using sys_alloc_cases [OF v(1)] by simp
  then show ?thesis
    using ret v(2) A unfolding attach_done_def by (elim conjE exE) (intro conjI impI exI; simp?; assumption?; simp)
qed

theorem attach_all_or_nothing_witness:
  "\<exists>d w d' w'. create_host_function_dispatcher 0 1 (empty_world []) = Some (Some d, True, w) \<and>
     attach_host_function 0 d ''f'' Some 2 2 w = Some (0, d', w') \<and> d_cnt_func d' = 1 \<and> w_heap w' = w_heap w + 1"
proof -
  have "w_plan (empty_world []) = []" by (simp add: empty_world_def)
  then obtain d w where C: "create_host_function_dispatcher 0 1 (empty_world []) = Some (Some d, True, w)"
      "has_room d 0" "w_plan w = []" "d_cnt_func d = 0"
      "file_of w 0 (d_epoll_fd d) = Some (Epoll (length (w_epolls (empty_world []))))"
    using create_ok [of "empty_world []" 0 1] by (auto simp: array_length_def)
  let ?w = "w\<lparr>w_heap := w_heap w + 1\<rparr>"
  have f: "file_of ?w = file_of w" by (simp add: file_of_def fun_eq_iff)
  obtain d' w' where "attach_host_function_ex 0 d ''f'' legacy_host_function_adapter (LegacyContext Some) 2 2 ?w = Some (0, d', w')"
    using attach_host_function_ex_ok [of ?w "''f''" 2 2 d 0 "length (w_epolls (empty_world []))"
        legacy_host_function_adapter "LegacyContext Some"] C(2-5) f by (auto simp: PIPE_BUF_def)
  then have "\<exists>d'. attach_host_function 0 d ''f'' Some 2 2 w = Some (0, d', w')"
    using sys_alloc_ok [OF C(3)] by (simp add: attach_host_function_def)
  then obtain d' where A: "attach_host_function 0 d ''f'' Some 2 2 w = Some (0, d', w')" by blast
  have "d_cnt_func d' = d_cnt_func d + 1 \<and> w_heap w' = w_heap w + 1"
    using attach_all_or_nothing [OF A] by blast
  then show ?thesis using A C(1,4) by (intro exI [of _ d] exI [of _ w] exI [of _ d'] exI [of _ w']) simp
qed



end
