(* ===== verification/Message_Queue.thy ===== *)
theory Message_Queue
  imports Ipc_Posix
begin

text \<open>
  A pipe as a queue of messages of one size: what one side writes in one piece the other
  side reads in one piece, in the same order. And what reading and writing do to the pipes
  of the system.
\<close>

section \<open>Queues of messages\<close>

text \<open>
  The interface: a queue with a list of messages as its abstraction. A history is the list
  of all messages ever sent; those received come first, the rest is in the queue.
\<close>

locale message_queue =
  fixes ok :: "'m \<Rightarrow> bool"
    and wf :: "'q \<Rightarrow> bool"
    and msgs :: "'q \<Rightarrow> 'm list"
    and send :: "'m \<Rightarrow> 'q \<Rightarrow> 'q"
    and recv :: "'q \<Rightarrow> 'm \<times> 'q"
  assumes send_wf: "wf q \<Longrightarrow> ok m \<Longrightarrow> wf (send m q)"
    and send_msgs: "wf q \<Longrightarrow> ok m \<Longrightarrow> msgs (send m q) = msgs q @ [m]"
    and recv_wf: "wf q \<Longrightarrow> msgs q \<noteq> [] \<Longrightarrow> wf (snd (recv q))"
    and recv_msgs: "wf q \<Longrightarrow> msgs q \<noteq> [] \<Longrightarrow> msgs q = fst (recv q) # msgs (snd (recv q))"
    and recv_ok: "wf q \<Longrightarrow> msgs q \<noteq> [] \<Longrightarrow> ok (fst (recv q))"
begin

lemma history_send:
  "sent = got @ msgs q \<Longrightarrow> wf q \<Longrightarrow> ok m \<Longrightarrow> sent @ [m] = got @ msgs (send m q)"
  by (simp add: send_msgs)

lemma history_recv:
  "sent = got @ msgs q \<Longrightarrow> wf q \<Longrightarrow> msgs q \<noteq> [] \<Longrightarrow>
   sent = (got @ [fst (recv q)]) @ msgs (snd (recv q))"
  using recv_msgs by fastforce

lemma sends_msgs:
  "wf q \<Longrightarrow> \<forall>m \<in> set ms. ok m \<Longrightarrow> wf (fold send ms q) \<and> msgs (fold send ms q) = msgs q @ ms"
  by (induction ms arbitrary: q) (auto simp: send_wf send_msgs)

end

text \<open>The bytes of a pipe as messages of \<open>n\<close> bytes.\<close>

function chunks :: "nat \<Rightarrow> 'a list \<Rightarrow> 'a list list" where
  "chunks n bs = (if n = 0 \<or> length bs < n then [] else take n bs # chunks n (drop n bs))"
  by pat_completeness auto
termination by (relation "measure (length \<circ> snd)") auto

declare chunks.simps [simp del]

lemma chunks_empty [simp]: "chunks n [] = []"
  by (cases n) (simp_all add: chunks.simps)

lemma chunks_Nil_iff: "n dvd length bs \<Longrightarrow> 0 < n \<Longrightarrow> chunks n bs = [] \<longleftrightarrow> bs = []"
  by (subst chunks.simps) (auto dest: dvd_imp_le simp: not_less neq0_conv [symmetric] simp del: neq0_conv)

lemma chunks_append:
  "n dvd length bs \<Longrightarrow> 0 < n \<Longrightarrow> length m = n \<Longrightarrow> chunks n (bs @ m) = chunks n bs @ [m]"
proof (induction n bs rule: chunks.induct)
  case (1 n bs)
  show ?case
  proof (cases "bs = []")
    case True
    then show ?thesis using 1 by (simp add: chunks.simps [of n m])
  next
    case False
    then have le: "n \<le> length bs" using 1 by (auto dest: dvd_imp_le)
    moreover have "n dvd length (drop n bs)" using 1 le by (simp add: dvd_diff_nat)
    ultimately show ?thesis
      using 1 by (simp add: chunks.simps [of n "bs @ m"] chunks.simps [of n bs])
  qed
qed

lemma concat_chunks: "n dvd length bs \<Longrightarrow> 0 < n \<Longrightarrow> concat (chunks n bs) = bs"
proof (induction n bs rule: chunks.induct)
  case (1 n bs)
  show ?case
  proof (cases "bs = []")
    case False
    then have le: "n \<le> length bs" using 1 by (auto dest: dvd_imp_le)
    moreover have "n dvd length (drop n bs)" using 1 le by (simp add: dvd_diff_nat)
    ultimately show ?thesis using 1 by (simp add: chunks.simps [of n bs])
  qed simp
qed

interpretation pipe_queue: message_queue
  "\<lambda>m. length m = n \<and> 0 < n" "\<lambda>q. n dvd length q" "chunks n" "\<lambda>m q. q @ m" "\<lambda>q. (take n q, drop n q)"
  for n
proof unfold_locales
  fix q :: "'b list" and m
  assume q: "n dvd length q"
  show "length m = n \<and> 0 < n \<Longrightarrow> n dvd length (q @ m)" using q by simp
  show "length m = n \<and> 0 < n \<Longrightarrow> chunks n (q @ m) = chunks n q @ [m]"
    using q by (simp add: chunks_append)
  assume "chunks n q \<noteq> []"
  then have n: "0 < n" "n \<le> length q"
    by (auto simp: chunks.simps [of n q] not_less split: if_splits)
  then show "n dvd length (snd (take n q, drop n q))"
    "chunks n q = fst (take n q, drop n q) # chunks n (snd (take n q, drop n q))"
    "length (fst (take n q, drop n q)) = n \<and> 0 < n"
    using q by (simp_all add: dvd_diff_nat chunks.simps [of n q])
qed

section \<open>Reading and writing pipes\<close>

text \<open>All pipes stay as they are but one, which then holds the given bytes.\<close>

definition pipe_set :: "nat \<Rightarrow> u8 list \<Rightarrow> world \<Rightarrow> world" where
  "pipe_set q bs w = w\<lparr>w_pipes := (w_pipes w)[q := bs]\<rparr>"

lemma looks_cong: "w_fds w' = w_fds w \<Longrightarrow> looks w' = looks w"
  by (simp add: looks_def fun_eq_iff)

lemma same_files_looks: "same_files w w' \<Longrightarrow> file_of w' = file_of w"
  by (auto simp: file_of_def same_files_def fun_eq_iff)

lemma same_files_plan [simp]: "same_files w (w\<lparr>w_plan := p\<rparr>)"
  by (simp add: same_files_def)

lemma same_files_plan_iff [simp]:
  "same_files (w\<lparr>w_plan := p\<rparr>) v = same_files w v" "same_files w (v\<lparr>w_plan := p\<rparr>) = same_files w v"
  by (simp_all add: same_files_def)

lemma sys_write_spec:
  assumes "sys_write pid fd bytes w = Done (r, w')" "Option.bind (file_of w pid fd) write_end = Some q"
  shows "r = -1 \<and> same_files w w' \<or>
    r = int (length bytes) \<and> same_files (pipe_set q (w_pipes w ! q @ bytes) w) w'"
proof (cases "next_fault w")
  case (Pair e v)
  note v = next_fault_same [OF Pair]
  show ?thesis
  proof (cases e)
    case None
    then show ?thesis
      using assms Pair v same_files_looks [OF v]
      by (auto simp: sys_write_def Let_def same_files_def pipe_set_def split: if_splits)
  next
    case (Some x)
    then have "(r, w') = fail_with pid x v" using assms Pair by (simp add: sys_write_def)
    then show ?thesis using v by (auto simp: fail_with_def same_files_def)
  qed
qed

lemma sys_write_blocked:
  assumes "sys_write pid fd bytes w = Blocked" "Option.bind (file_of w pid fd) write_end = Some q"
  shows "w_cap w < length (w_pipes w ! q) + length bytes"
proof (cases "next_fault w")
  case (Pair e v)
  note v = next_fault_same [OF Pair]
  show ?thesis
    using assms Pair v same_files_looks [OF v]
    by (cases e) (simp_all add: sys_write_def Let_def same_files_def not_le split: if_splits)
qed

lemma sys_read_spec:
  assumes "sys_read pid fd n w = Done (r, bs, w')" "Option.bind (file_of w pid fd) read_end = Some q"
  shows "r = -1 \<and> bs = [] \<and> same_files w w' \<or>
    (n = 0 \<or> w_pipes w ! q \<noteq> []) \<and> r = int (length bs) \<and> bs = take n (w_pipes w ! q) \<and>
    same_files (pipe_set q (drop n (w_pipes w ! q)) w) w'"
proof (cases "next_fault w")
  case (Pair e v)
  note v = next_fault_same [OF Pair]
  show ?thesis
  proof (cases e)
    case None
    then show ?thesis
      using assms Pair v same_files_looks [OF v]
      by (auto simp: sys_read_def Let_def same_files_def pipe_set_def min_def split: if_splits)
  next
    case (Some x)
    then have "r = -1 \<and> bs = [] \<and> w' = snd (fail_with pid x v)" using assms Pair by (auto simp: sys_read_def)
    then show ?thesis using v by (auto simp: fail_with_def same_files_def)
  qed
qed

lemma sys_read_blocked:
  assumes "sys_read pid fd n w = Blocked" "Option.bind (file_of w pid fd) read_end = Some q"
  shows "0 < n \<and> w_pipes w ! q = []"
proof (cases "next_fault w")
  case (Pair e v)
  note v = next_fault_same [OF Pair]
  show ?thesis
    using assms Pair v same_files_looks [OF v]
    by (cases e) (simp_all add: sys_read_def Let_def same_files_def split: if_splits)
qed

text \<open>Without a failing call.\<close>

lemma sys_read_ok:
  "w_plan w = [] \<Longrightarrow> Option.bind (file_of w pid fd) read_end = Some q \<Longrightarrow>
   sys_read pid fd n w =
     (if n = 0 then Done (0, [], w) else if w_pipes w ! q = [] then Blocked
      else Done (int (min n (length (w_pipes w ! q))), take n (w_pipes w ! q), pipe_set q (drop n (w_pipes w ! q)) w))"
  by (simp add: sys_read_def next_fault_def Let_def pipe_set_def)

lemma sys_write_ok:
  "w_plan w = [] \<Longrightarrow> Option.bind (file_of w pid fd) write_end = Some q \<Longrightarrow>
   sys_write pid fd bytes w =
     (if length (w_pipes w ! q) + length bytes \<le> w_cap w
      then Done (int (length bytes), pipe_set q (w_pipes w ! q @ bytes) w) else Blocked)"
  by (simp add: sys_write_def next_fault_def Let_def pipe_set_def)

end
