(* ===== verification/Function_Service.thy ===== *)
theory Function_Service
  imports Function_Receiver_Props Message_Queue
begin

text \<open>
  The whole service: callers in any number of processes, the FIFOs between them and one
  dispatcher (in process 0) with its daemon thread. A step is one call of the API or one
  system call of the daemon, in any order; every step may run under its own plan of
  failing system calls.
\<close>

section \<open>What both sides agree on\<close>

text \<open>
  The sizes of a function are chosen twice, by \<open>link_host_function\<close> and by
  \<open>attach_host_function_ex\<close>; the library relies on both being the same. A library assigns
  to every name the function, its user data and its sizes.
\<close>

record host_fun =
  hf_foo :: host_function_ex
  hf_data :: user_data
  hf_sz_arg :: nat
  hf_sz_ret :: nat

type_synonym library = "string \<Rightarrow> host_fun"

text \<open>
  The contract of a host function: it has an argument, and what it returns is null or a
  buffer of at least the size of its response, for arguments of the agreed size.
\<close>

definition fun_ok :: "host_fun \<Rightarrow> bool" where
  "fun_ok f \<longleftrightarrow> 0 < hf_sz_arg f \<and>
     (\<forall>args r. length args = hf_sz_arg f \<longrightarrow> hf_foo f args (hf_data f) = Some r \<longrightarrow>
        hf_sz_ret f \<le> length r)"

definition lib_ok :: "library \<Rightarrow> bool" where
  "lib_ok lib \<longleftrightarrow> (\<forall>x. fun_ok (lib x))"

text \<open>The bytes of the response to an argument.\<close>

definition response :: "host_fun \<Rightarrow> u8 list \<Rightarrow> u8 list" where
  "response f args =
     (case hf_foo f args (hf_data f) of None \<Rightarrow> [] | Some r \<Rightarrow> take (hf_sz_ret f) r)"

section \<open>The machine\<close>

text \<open>
  Beside the state of the program there are three histories for every name: the arguments
  whose call returned 0, the requests that were served with the bytes that went to the
  response FIFO, and the bytes that \<open>get_response_host_function\<close> handed out; and the number
  of handles that a failing \<open>unlink_host_function\<close> has not freed.
\<close>

record service =
  sv_world :: world
  sv_disp :: dispatcher
  sv_daemon :: daemon
  sv_names :: "string list"
  sv_callers :: "(string \<times> nat \<times> caller) list"
  sv_sent :: "string \<Rightarrow> u8 list list"
  sv_served :: "string \<Rightarrow> (u8 list \<times> u8 list) list"
  sv_got :: "string \<Rightarrow> u8 list"
  sv_lost :: nat

definition with_plan :: "errno option list \<Rightarrow> world \<Rightarrow> world" where
  "with_plan p w = w\<lparr>w_plan := p\<rparr>"

definition bytes_in :: "world \<Rightarrow> string \<Rightarrow> u8 list" where
  "bytes_in w path = (case w_fifos w path of None \<Rightarrow> [] | Some q \<Rightarrow> w_pipes w ! q)"

text \<open>When a step of the daemon ends a reply, the request is served.\<close>

definition log_reply ::
    "string list \<Rightarrow> world \<Rightarrow> world \<Rightarrow> daemon_pc \<Rightarrow> daemon_pc \<Rightarrow>
     (string \<Rightarrow> (u8 list \<times> u8 list) list) \<Rightarrow> string \<Rightarrow> (u8 list \<times> u8 list) list" where
  "log_reply names w w' pc pc' served =
     (case (pc, pc') of
        (DmReply i args ret evs, DmBatch evs') \<Rightarrow>
          let res = pipe_name (names ! i) ''_res''
          in served(names ! i := served (names ! i) @
               [(args, drop (length (bytes_in w res)) (bytes_in w' res))])
      | _ \<Rightarrow> served)"

text \<open>
  What the machine leaves out: the read of the control pipe does not fail (the code then
  goes on with a variable that was never written); no descriptor of a caller is
  \<open>ERR_PIPE_REQ\<close>, which the code hands out when \<open>mkfifo\<close> fails, and may close; and a caller
  is only unlinked while its function is attached, so that the FIFOs stay open and
  keep their bytes.
\<close>

fun at_control :: "daemon_pc \<Rightarrow> bool" where
  "at_control (DmBatch (e # evs)) = (e = -1)"
| "at_control _ = False"

inductive sv_step :: "library \<Rightarrow> service \<Rightarrow> service \<Rightarrow> bool" for lib where
  attach: "x \<notin> set (sv_names s) \<Longrightarrow>
     attach_host_function_ex 0 (sv_disp s) x (hf_foo (lib x)) (hf_data (lib x)) (hf_sz_arg (lib x))
       (hf_sz_ret (lib x)) (with_plan p (sv_world s)) = Some (ret, d', w') \<Longrightarrow>
     sv_step lib s (s\<lparr>sv_disp := d', sv_world := with_plan [] w',
       sv_names := sv_names s @ (if ret = 0 then [x] else [])\<rparr>)"
| attach_legacy: "x \<notin> set (sv_names s) \<Longrightarrow>
     hf_foo (lib x) = legacy_host_function_adapter \<Longrightarrow> hf_data (lib x) = LegacyContext foo \<Longrightarrow>
     attach_host_function 0 (sv_disp s) x foo (hf_sz_arg (lib x)) (hf_sz_ret (lib x)) (with_plan p (sv_world s)) =
       Some (ret, d', w') \<Longrightarrow>
     sv_step lib s (s\<lparr>sv_disp := d', sv_world := with_plan [] w',
       sv_names := sv_names s @ (if ret = 0 then [x] else [])\<rparr>)"
| link: "link_host_function pid x (hf_sz_arg (lib x)) (hf_sz_ret (lib x)) (with_plan p (sv_world s)) = Some (Some c, w') \<Longrightarrow>
     ERR_PIPE_REQ \<notin> {c_req_fd c, c_res_fd c} \<Longrightarrow>
     sv_step lib s (s\<lparr>sv_world := with_plan [] w', sv_callers := sv_callers s @ [(x, pid, c)]\<rparr>)"
| link_null: "link_host_function pid x (hf_sz_arg (lib x)) (hf_sz_ret (lib x)) (with_plan p (sv_world s)) = Some (None, w') \<Longrightarrow>
     file_of (sv_world s) pid ERR_PIPE_REQ = None \<Longrightarrow>
     sv_step lib s (s\<lparr>sv_world := with_plan [] w'\<rparr>)"
| unlink: "(x, pid, c) \<in> set (sv_callers s) \<Longrightarrow> x \<in> set (sv_names s) \<Longrightarrow>
     unlink_host_function pid c (with_plan p (sv_world s)) = (ret, w') \<Longrightarrow>
     sv_step lib s (s\<lparr>sv_world := with_plan [] w', sv_callers := remove1 (x, pid, c) (sv_callers s),
       sv_lost := sv_lost s + (if ret = ROBOT_OK then 0 else 1)\<rparr>)"
| call: "(x, pid, c) \<in> set (sv_callers s) \<Longrightarrow> length arg = hf_sz_arg (lib x) \<Longrightarrow>
     call_host_function pid c arg (with_plan p (sv_world s)) = Done (ret, w') \<Longrightarrow>
     sv_step lib s (s\<lparr>sv_world := with_plan [] w',
       sv_sent := (sv_sent s)(x := sv_sent s x @ (if ret = 0 then [arg] else []))\<rparr>)"
| respond: "(x, pid, c) \<in> set (sv_callers s) \<Longrightarrow>
     get_response_host_function pid c (with_plan p (sv_world s)) = Done (ret, bytes, w') \<Longrightarrow>
     sv_step lib s (s\<lparr>sv_world := with_plan [] w', sv_got := (sv_got s)(x := sv_got s x @ bytes)\<rparr>)"
| wait: "epoll_reports 0 (sv_disp s) (sv_world s) evs \<Longrightarrow> dm_pc (sv_daemon s) = DmWait \<Longrightarrow>
     sv_step lib s (s\<lparr>sv_daemon := daemon_wait 0 (sv_disp s) evs (sv_world s) (sv_daemon s)\<rparr>)"
| daemon: "p = [] \<or> \<not> at_control (dm_pc (sv_daemon s)) \<Longrightarrow>
     daemon_step 0 (sv_disp s) (with_plan p (sv_world s)) (sv_daemon s) (dm_pc (sv_daemon s)) = (dm', w') \<Longrightarrow>
     sv_step lib s (s\<lparr>sv_daemon := dm', sv_world := with_plan [] w',
       sv_served := log_reply (sv_names s) (sv_world s) w' (dm_pc (sv_daemon s)) (dm_pc dm') (sv_served s)\<rparr>)"
| stop: "delete_request 0 (sv_disp s) (with_plan p (sv_world s)) = Done (ret, w') \<Longrightarrow>
     sv_step lib s (s\<lparr>sv_world := with_plan [] w'\<rparr>)"

text \<open>
  The service begins with a new dispatcher; FIFOs may be there from earlier runs, but no
  process has one open, and so they are empty.
\<close>

definition sv_start :: "world \<Rightarrow> u64 \<Rightarrow> service \<Rightarrow> bool" where
  "sv_start w n s \<longleftrightarrow>
     w_plan w = [] \<and> fifos_ok w \<and> (\<forall>path. bytes_in w path = []) \<and>
     (\<exists>d w'. create_host_function_dispatcher 0 n w = Some (Some d, True, w') \<and>
        s = \<lparr>sv_world = w', sv_disp = d, sv_daemon = \<lparr>dm_pc = DmWait, dm_exit = False\<rparr>, sv_names = [],
             sv_callers = [], sv_sent = (\<lambda>_. []), sv_served = (\<lambda>_. []), sv_got = (\<lambda>_. []), sv_lost = 0\<rparr>)"

inductive sv_reach :: "library \<Rightarrow> service \<Rightarrow> bool" for lib where
  start: "sv_start w n s \<Longrightarrow> sv_reach lib s"
| step: "sv_reach lib s \<Longrightarrow> sv_step lib s s' \<Longrightarrow> sv_reach lib s'"

section \<open>The invariant\<close>

text \<open>The dispatcher, its descriptors and what its epoll watches; \<open>ctl\<close>, \<open>rep\<close>: the control pipes.\<close>

definition disp_ok :: "library \<Rightarrow> nat \<Rightarrow> nat \<Rightarrow> nat \<Rightarrow> world \<Rightarrow> dispatcher \<Rightarrow> string list \<Rightarrow> bool" where
  "disp_ok lib ctl rep e w d names \<longleftrightarrow>
     file_of w 0 (d_epoll_fd d) = Some (Epoll e) \<and> e < length (w_epolls w) \<and>
     file_of w 0 (fst (d_to_daemon d)) = Some (PipeRead ctl) \<and>
     file_of w 0 (snd (d_to_daemon d)) = Some (PipeWrite ctl) \<and>
     file_of w 0 (fst (d_from_daemon d)) = Some (PipeRead rep) \<and>
     file_of w 0 (snd (d_from_daemon d)) = Some (PipeWrite rep) \<and>
     ctl \<noteq> rep \<and> ctl < length (w_pipes w) \<and> rep < length (w_pipes w) \<and>
     (\<forall>path. w_fifos w path \<noteq> Some ctl \<and> w_fifos w path \<noteq> Some rep) \<and>
     d_cnt_func d = length names \<and> distinct names \<and>
     w_epolls w ! e = (ctl, -1) # map (\<lambda>i. (the (w_fifos w (pipe_name (names ! i) ''_req'')), int i)) [0..<length names]"

definition entry_ok :: "library \<Rightarrow> world \<Rightarrow> dispatcher \<Rightarrow> nat \<Rightarrow> string \<Rightarrow> bool" where
  "entry_ok lib w d i x \<longleftrightarrow>
     hf_sz_arg (lib x) \<le> PIPE_BUF \<and> hf_sz_ret (lib x) \<le> PIPE_BUF \<and>
     (\<exists>b n m q q'.
        new_entry d i (hf_foo (lib x)) (hf_data (lib x)) b (hf_sz_arg (lib x)) (hf_sz_ret (lib x)) (int n) (int m) \<and>
        w_fifos w (pipe_name x ''_req'') = Some q \<and> looks w 0 n = Some (Fifo q) \<and>
        w_fifos w (pipe_name x ''_res'') = Some q' \<and> looks w 0 m = Some (Fifo q'))"

definition caller_of :: "library \<Rightarrow> world \<Rightarrow> string \<Rightarrow> nat \<Rightarrow> caller \<Rightarrow> bool" where
  "caller_of lib w x pid c \<longleftrightarrow>
     c_sz_arg c = hf_sz_arg (lib x) \<and> c_sz_ret c = hf_sz_ret (lib x) \<and> caller_ok w pid x c"

text \<open>Every event of a batch that is left is one whose pipe holds a message.\<close>

definition events_ok :: "nat \<Rightarrow> world \<Rightarrow> string list \<Rightarrow> int list \<Rightarrow> bool" where
  "events_ok ctl w names evs \<longleftrightarrow> distinct evs \<and>
     (\<forall>ev \<in> set evs. ev = -1 \<and> w_pipes w ! ctl \<noteq> [] \<or>
        (\<exists>i < length names. ev = int i \<and> bytes_in w (pipe_name (names ! i) ''_req'') \<noteq> []))"

fun pc_ok :: "library \<Rightarrow> nat \<Rightarrow> world \<Rightarrow> string list \<Rightarrow> daemon_pc \<Rightarrow> bool" where
  "pc_ok lib ctl w names (DmBatch evs) = events_ok ctl w names evs"
| "pc_ok lib ctl w names (DmControl r evs) = events_ok ctl w names evs"
| "pc_ok lib ctl w names (DmRead i evs) = (i < length names \<and> events_ok ctl w names (int i # evs))"
| "pc_ok lib ctl w names (DmCall i args evs) =
     (i < length names \<and> length args = hf_sz_arg (lib (names ! i)) \<and> events_ok ctl w names evs)"
| "pc_ok lib ctl w names (DmReply i args ret evs) =
     (i < length names \<and> length args = hf_sz_arg (lib (names ! i)) \<and> events_ok ctl w names evs \<and>
      ret = hf_foo (lib (names ! i)) args (hf_data (lib (names ! i))))"
| "pc_ok lib ctl w names DmFault = False"
| "pc_ok lib ctl w names _ = True"

text \<open>The request the daemon is working on.\<close>

fun in_work :: "string list \<Rightarrow> daemon_pc \<Rightarrow> string \<Rightarrow> u8 list list" where
  "in_work names (DmCall i args evs) x = (if names ! i = x then [args] else [])"
| "in_work names (DmReply i args ret evs) x = (if names ! i = x then [args] else [])"
| "in_work names _ x = []"

text \<open>What was sent was served, is being served, or waits in the request FIFO, in this order.\<close>

definition requests_ok ::
    "library \<Rightarrow> string \<Rightarrow> u8 list \<Rightarrow> u8 list list \<Rightarrow> u8 list list \<Rightarrow> u8 list list \<Rightarrow> bool" where
  "requests_ok lib x req work sent served \<longleftrightarrow>
     hf_sz_arg (lib x) dvd length req \<and> sent = (served @ work) @ chunks (hf_sz_arg (lib x)) req \<and>
     (\<forall>m \<in> set sent. length m = hf_sz_arg (lib x))"

definition responses_ok ::
    "library \<Rightarrow> string \<Rightarrow> u8 list \<Rightarrow> (u8 list \<times> u8 list) list \<Rightarrow> u8 list \<Rightarrow> bool" where
  "responses_ok lib x res served got \<longleftrightarrow>
     hf_sz_ret (lib x) dvd length res \<and> concat (map snd served) = got @ res \<and>
     (\<forall>(a, r) \<in> set served. r = [] \<or> r = response (lib x) a)"

text \<open>The descriptors of the dispatcher and of the callers; no two of them are the same.\<close>

definition control_fds :: "dispatcher \<Rightarrow> int list" where
  "control_fds d =
     [d_epoll_fd d, fst (d_to_daemon d), snd (d_to_daemon d), fst (d_from_daemon d), snd (d_from_daemon d)]"

definition caller_fds :: "(string \<times> nat \<times> caller) list \<Rightarrow> (nat \<times> int) list" where
  "caller_fds callers = concat (map (\<lambda>(x, pid, c). [(pid, c_req_fd c), (pid, c_res_fd c)]) callers)"

definition open_fds :: "dispatcher \<Rightarrow> (string \<times> nat \<times> caller) list \<Rightarrow> (nat \<times> int) list" where
  "open_fds d callers = map (Pair 0) (control_fds d @ func_fds d) @ caller_fds callers"

definition sv_files ::
    "library \<Rightarrow> nat \<Rightarrow> nat \<Rightarrow> nat \<Rightarrow> world \<Rightarrow> dispatcher \<Rightarrow> string list \<Rightarrow> (string \<times> nat \<times> caller) list \<Rightarrow> bool" where
  "sv_files lib ctl rep e w d names callers \<longleftrightarrow>
     fifos_ok w \<and> disp_ok lib ctl rep e w d names \<and>
     (\<forall>i < length names. entry_ok lib w d i (names ! i)) \<and>
     (\<forall>(x, pid, c) \<in> set callers. caller_of lib w x pid c) \<and>
     distinct (open_fds d callers)"

text \<open>The data: on the control pipe, at the daemon, on the FIFOs of every name.\<close>

definition sv_data :: "library \<Rightarrow> nat \<Rightarrow> world \<Rightarrow> string list \<Rightarrow> daemon_pc \<Rightarrow> (string \<Rightarrow> u8 list list) \<Rightarrow>
    (string \<Rightarrow> (u8 list \<times> u8 list) list) \<Rightarrow> (string \<Rightarrow> u8 list) \<Rightarrow> bool" where
  "sv_data lib ctl w names pc sent served got \<longleftrightarrow>
     4 dvd length (w_pipes w ! ctl) \<and> pc_ok lib ctl w names pc \<and>
     (\<forall>x. requests_ok lib x (bytes_in w (pipe_name x ''_req'')) (in_work names pc x) (sent x)
        (map fst (served x))) \<and>
     (\<forall>x. responses_ok lib x (bytes_in w (pipe_name x ''_res'')) (served x) (got x))"

definition sv_inv :: "library \<Rightarrow> nat \<Rightarrow> nat \<Rightarrow> nat \<Rightarrow> service \<Rightarrow> bool" where
  "sv_inv lib ctl rep e s \<longleftrightarrow>
     w_plan (sv_world s) = [] \<and>
     sv_files lib ctl rep e (sv_world s) (sv_disp s) (sv_names s) (sv_callers s) \<and>
     sv_data lib ctl (sv_world s) (sv_names s) (dm_pc (sv_daemon s)) (sv_sent s) (sv_served s) (sv_got s)"

end
