(* ===== verification/Function_Service_Inv.thy ===== *)
theory Function_Service_Inv
  imports Function_Service
begin

text \<open>
  The invariant of the service: every step keeps it. The proofs follow what a step does to
  the files: it adds some (attach, link), or it changes one pipe (all others).
\<close>

section \<open>Steps that add files\<close>

definition extends :: "world \<Rightarrow> world \<Rightarrow> bool" where
  "extends w w' \<longleftrightarrow>
     w_fifos w \<subseteq>\<^sub>m w_fifos w' \<and> bytes_in w' = bytes_in w \<and> length (w_pipes w) \<le> length (w_pipes w') \<and>
     (\<forall>q < length (w_pipes w). w_pipes w' ! q = w_pipes w ! q) \<and>
     (\<forall>path q. w_fifos w path = None \<longrightarrow> w_fifos w' path = Some q \<longrightarrow> length (w_pipes w) \<le> q) \<and>
     (\<forall>p n f. looks w p n = Some f \<longrightarrow> looks w' p n = Some f)"

lemma grows_bytes_in:
  assumes "grows w w'" "fifos_ok w" "fifos_ok w'"
  shows "bytes_in w' path = bytes_in w path"
proof (cases "w_fifos w path")
  case (Some q)
  then have "w_fifos w' path = Some q" "q < length (w_pipes w)"
    using assms grows_fifo by (auto simp: fifos_ok_def)
  then show ?thesis using Some grows_pipe [OF assms(1)] by (simp add: bytes_in_def)
next
  case None
  show ?thesis
  proof (cases "w_fifos w' path")
    case (Some q)
    then have "length (w_pipes w) \<le> q" "q < length (w_pipes w')"
      using None assms by (auto simp: grows_def fifos_ok_def)
    then show ?thesis using None Some grows_new_pipe [OF assms(1)] by (simp add: bytes_in_def)
  qed (simp add: None bytes_in_def)
qed

lemma grows_extends:
  assumes "grows w w'" "fifos_ok w" "fifos_ok w'" "\<And>p n f. looks w p n = Some f \<Longrightarrow> looks w' p n = Some f"
  shows "extends w w'"
  using assms grows_bytes_in [OF assms(1-3)] grows_pipe [OF assms(1)] grows_length [OF assms(1)]
  by (auto simp: extends_def grows_def)

lemma bytes_in_cong: "w_fifos w' = w_fifos w \<Longrightarrow> w_pipes w' = w_pipes w \<Longrightarrow> bytes_in w' = bytes_in w"
  unfolding bytes_in_def by (intro ext) (simp split: option.splits)

lemma extends_cong:
  assumes "extends w v" "w_fifos v' = w_fifos v" "w_pipes v' = w_pipes v" "w_fds v' = w_fds v"
  shows "extends w v'"
proof -
  have "bytes_in v' = bytes_in v" by (rule bytes_in_cong [OF assms(2,3)])
  moreover have "looks v' = looks v" unfolding looks_def assms(4) by (rule refl)
  ultimately show ?thesis using assms by (simp add: extends_def)
qed

lemma extends_fifo: "extends w w' \<Longrightarrow> w_fifos w path = Some q \<Longrightarrow> w_fifos w' path = Some q"
  by (auto simp: extends_def map_le_def dom_def)

lemma extends_file: "extends w w' \<Longrightarrow> file_of w pid fd = Some f \<Longrightarrow> file_of w' pid fd = Some f"
  by (auto simp: extends_def file_of_looks split: if_splits)

lemma extends_looks: "extends w w' \<Longrightarrow> looks w pid n = Some f \<Longrightarrow> looks w' pid n = Some f"
  by (simp add: extends_def)

lemma entry_ok_extends:
  assumes "entry_ok lib w d i x" "extends w w'" "same_upto k d d'" "i < k"
  shows "entry_ok lib w' d' i x"
proof -
  obtain b n m q q' where e: "hf_sz_arg (lib x) \<le> PIPE_BUF" "hf_sz_ret (lib x) \<le> PIPE_BUF"
      "new_entry d i (hf_foo (lib x)) (hf_data (lib x)) b (hf_sz_arg (lib x)) (hf_sz_ret (lib x)) (int n) (int m)"
      "w_fifos w (pipe_name x ''_req'') = Some q" "looks w 0 n = Some (Fifo q)"
      "w_fifos w (pipe_name x ''_res'') = Some q'" "looks w 0 m = Some (Fifo q')"
    using assms(1) by (auto simp: entry_ok_def)
  have "new_entry d' i (hf_foo (lib x)) (hf_data (lib x)) b (hf_sz_arg (lib x)) (hf_sz_ret (lib x)) (int n) (int m)"
    using e(3) assms(3,4) by (simp add: new_entry_def same_upto_def)
  then show ?thesis
    unfolding entry_ok_def
    using e(1,2) extends_fifo [OF assms(2) e(4)] extends_looks [OF assms(2) e(5)]
      extends_fifo [OF assms(2) e(6)] extends_looks [OF assms(2) e(7)] by blast
qed

lemma caller_of_extends: "caller_of lib w x pid c \<Longrightarrow> extends w w' \<Longrightarrow> caller_of lib w' x pid c"
  unfolding caller_of_def caller_ok_def by (blast intro: extends_fifo extends_file)

text \<open>The descriptors in use, which are open, and those that a step adds.\<close>

lemma func_fds_cong:
  assumes "same_upto k d d'" "d_cnt_func d = k" "d_cnt_func d' = k"
  shows "func_fds d' = func_fds d"
proof -
  have "map (\<lambda>i. [the (entry (d_req_fd d') i), the (entry (d_res_fd d') i)]) [0..<k] =
      map (\<lambda>i. [the (entry (d_req_fd d) i), the (entry (d_res_fd d) i)]) [0..<k]"
    using assms(1) by (intro map_cong) (auto simp: same_upto_def)
  then show ?thesis unfolding func_fds_def assms(2,3) by (rule arg_cong)
qed

lemma func_fds_snoc:
  assumes "same_upto k d d'" "d_cnt_func d = k" "d_cnt_func d' = Suc k"
    and "new_entry d' k foo user_data b sz_arg sz_ret req res"
  shows "func_fds d' = func_fds d @ [req, res]"
proof -
  have "func_fds (d'\<lparr>d_cnt_func := k\<rparr>) = func_fds d"
    using assms(1,2) by (intro func_fds_cong [of k]) (auto simp: same_upto_def)
  then show ?thesis using assms(3,4) by (simp add: func_fds_def new_entry_def)
qed

lemma control_fds_cong: "same_upto k d d' \<Longrightarrow> control_fds d' = control_fds d"
  by (simp add: same_upto_def control_fds_def)

lemma caller_fds_simps [simp]:
  "caller_fds [] = []" "caller_fds ((x, pid, c) # callers) = (pid, c_req_fd c) # (pid, c_res_fd c) # caller_fds callers"
  "caller_fds (as @ bs) = caller_fds as @ caller_fds bs"
  by (simp_all add: caller_fds_def)

lemma open_fds_open:
  assumes "sv_files lib ctl rep e w d names callers" "(pid, fd) \<in> set (open_fds d callers)"
  shows "file_of w pid fd \<noteq> None"
proof -
  have k: "d_cnt_func d = length names" using assms(1) by (simp add: sv_files_def disp_ok_def)
  have "file_of w 0 (the (entry (d_req_fd d) i)) \<noteq> None \<and> file_of w 0 (the (entry (d_res_fd d) i)) \<noteq> None"
    if "i < length names" for i
    using assms(1) that by (auto simp: sv_files_def entry_ok_def new_entry_def file_of_looks)
  moreover have "file_of w p (c_req_fd c) \<noteq> None \<and> file_of w p (c_res_fd c) \<noteq> None"
    if "(x, p, c) \<in> set callers" for x p c
    using assms(1) that by (auto simp: sv_files_def caller_of_def caller_ok_def)
  moreover have "file_of w 0 f \<noteq> None" if "f \<in> set (control_fds d)" for f
    using assms(1) that by (auto simp: sv_files_def disp_ok_def control_fds_def)
  ultimately show ?thesis
    using assms(2) by (fastforce simp: open_fds_def caller_fds_def func_fds_def k)
qed

lemma fresh_fd:
  assumes "sv_files lib ctl rep e w d names callers" "looks w pid n = None"
  shows "(pid, int n) \<notin> set (open_fds d callers)"
  using open_fds_open [OF assms(1), of pid "int n"] assms(2) by (auto simp: file_of_looks)

text \<open>What the epoll of the dispatcher watches does not depend on other FIFOs.\<close>

definition watched :: "nat \<Rightarrow> world \<Rightarrow> string list \<Rightarrow> (nat \<times> int) list" where
  "watched ctl w names =
     (ctl, -1) # map (\<lambda>i. (the (w_fifos w (pipe_name (names ! i) ''_req'')), int i)) [0..<length names]"

lemma watched_extends:
  assumes "\<forall>i < length names. entry_ok lib w d i (names ! i)" "extends w w'"
  shows "watched ctl w' names = watched ctl w names"
proof -
  have "w_fifos w' (pipe_name (names ! i) ''_req'') = w_fifos w (pipe_name (names ! i) ''_req'')"
    if "i < length names" for i
  proof -
    obtain q where "w_fifos w (pipe_name (names ! i) ''_req'') = Some q"
      using assms(1) \<open>i < length names\<close> unfolding entry_ok_def by blast
    then show ?thesis using extends_fifo [OF assms(2)] by simp
  qed
  then show ?thesis by (simp add: watched_def)
qed

lemma disp_ok_extends:
  assumes "disp_ok lib ctl rep e w d names" "extends w w'" "same_upto k d d'"
    and "d_cnt_func d' = length names'" "distinct names'" "e < length (w_epolls w')"
    and "w_epolls w' ! e = watched ctl w' names'"
  shows "disp_ok lib ctl rep e w' d' names'"
proof -
  have "w_fifos w' path \<noteq> Some q" if "q < length (w_pipes w)" "\<forall>path. w_fifos w path \<noteq> Some q" for q path
  proof (cases "w_fifos w path")
    case None
    then have "length (w_pipes w) \<le> q'" if "w_fifos w' path = Some q'" for q'
      using assms(2) that by (simp add: extends_def)
    then show ?thesis using that(1) by (meson not_le)
  next
    case (Some q')
    then show ?thesis using extends_fifo [OF assms(2) Some] that(2) by auto
  qed
  moreover have "ctl < length (w_pipes w')" "rep < length (w_pipes w')"
    using assms(1,2) by (auto simp: disp_ok_def extends_def)
  ultimately show ?thesis
    using assms extends_file [OF assms(2)] by (simp add: disp_ok_def same_upto_def watched_def)
qed

lemma events_ok_mono:
  assumes "events_ok ctl w names evs" "w_pipes w ! ctl \<noteq> [] \<Longrightarrow> w_pipes w' ! ctl \<noteq> []"
    and "\<And>x. bytes_in w (pipe_name x ''_req'') \<noteq> [] \<Longrightarrow> bytes_in w' (pipe_name x ''_req'') \<noteq> []"
  shows "events_ok ctl w' (names @ new) evs"
  using assms by (fastforce simp: events_ok_def nth_append)

lemma pc_ok_mono:
  assumes "pc_ok lib ctl w names pc" "w_pipes w ! ctl \<noteq> [] \<Longrightarrow> w_pipes w' ! ctl \<noteq> []"
    and "\<And>x. bytes_in w (pipe_name x ''_req'') \<noteq> [] \<Longrightarrow> bytes_in w' (pipe_name x ''_req'') \<noteq> []"
  shows "pc_ok lib ctl w' (names @ new) pc"
  using assms(1) events_ok_mono [of ctl w names _ w', OF _ assms(2,3)]
  by (cases pc) (auto simp: nth_append)

lemma in_work_append: "pc_ok lib ctl w names pc \<Longrightarrow> in_work (names @ new) pc x = in_work names pc x"
  by (cases pc) (auto simp: nth_append)

lemma sv_data_extends:
  assumes "sv_data lib ctl w names pc sent served got" "extends w w'" "ctl < length (w_pipes w)"
  shows "sv_data lib ctl w' (names @ new) pc sent served got"
proof -
  have "bytes_in w' = bytes_in w" "w_pipes w' ! ctl = w_pipes w ! ctl"
    using assms(2,3) by (auto simp: extends_def)
  moreover have "pc_ok lib ctl w names pc" using assms(1) by (simp add: sv_data_def)
  ultimately show ?thesis
    using assms(1) pc_ok_mono [of lib ctl w names pc w' new] in_work_append [of lib ctl w names pc new]
    by (simp add: sv_data_def)
qed

section \<open>Steps that change one pipe\<close>

text \<open>The same descriptors, FIFOs, pipes and epolls.\<close>

definition quiet :: "world \<Rightarrow> world \<Rightarrow> bool" where
  "quiet w w' \<longleftrightarrow> w_fifos w' = w_fifos w \<and> w_pipes w' = w_pipes w \<and> w_cap w' = w_cap w \<and>
     w_epolls w' = w_epolls w \<and> w_fds w' = w_fds w"

lemma same_files_quiet: "same_files w w' \<Longrightarrow> quiet w w'"
  by (simp add: same_files_def quiet_def)

lemma quiet_trans: "quiet u v \<Longrightarrow> quiet v w \<Longrightarrow> quiet u w"
  by (simp add: quiet_def)

lemma quiet_refl [simp]: "quiet w w"
  by (simp add: quiet_def)

lemma quiet_plan [simp]:
  "quiet (with_plan p w) v = quiet w v" "quiet v (with_plan p w) = quiet v w"
  "quiet (pipe_set q bs (with_plan p w)) v = quiet (pipe_set q bs w) v"
  by (simp_all add: quiet_def with_plan_def pipe_set_def)

lemma quiet_heap: "quiet w (sys_free w)" "sys_alloc w = (ok, w') \<Longrightarrow> quiet w w'"
  by (auto simp: quiet_def sys_free_def sys_alloc_def next_fault_def split: list.splits option.splits)

lemma with_plan_simps [simp]:
  "w_plan (with_plan p w) = p" "w_fifos (with_plan p w) = w_fifos w" "w_pipes (with_plan p w) = w_pipes w"
  "w_cap (with_plan p w) = w_cap w" "w_epolls (with_plan p w) = w_epolls w" "w_fds (with_plan p w) = w_fds w"
  "looks (with_plan p w) = looks w"
  "file_of (with_plan p w) = file_of w" "fifos_ok (with_plan p w) = fifos_ok w"
  by (simp_all add: with_plan_def looks_def file_of_def fifos_ok_def fun_eq_iff)

lemma with_plan_twice [simp]: "with_plan p (with_plan r w) = with_plan p w"
  by (simp add: with_plan_def)

lemma bytes_in_plan [simp]: "bytes_in (with_plan p w) = bytes_in w"
  by (rule bytes_in_cong) simp_all

text \<open>What a read or a write does to a pipe; it fails only under a plan that says so.\<close>

lemma write_cases [consumes 2, case_names failed written]:
  assumes "sys_write pid fd bs (with_plan p w) = Done (n, w')" "Option.bind (file_of w pid fd) write_end = Some q"
  obtains (failed) "n = -1" "p \<noteq> []" "quiet w w'"
    | (written) "n = int (length bs)" "quiet (pipe_set q (w_pipes w ! q @ bs) w) w'"
proof -
  have "p \<noteq> []" if "n = -1"
    using assms that sys_write_ok [of "with_plan p w" pid fd q bs] by (auto split: if_splits)
  then show thesis
    using that sys_write_spec [OF assms(1), of q] assms(2) same_files_quiet by fastforce
qed

lemma read_cases [consumes 2, case_names failed got]:
  assumes "sys_read pid fd k (with_plan p w) = Done (n, bs, w')" "Option.bind (file_of w pid fd) read_end = Some q"
  obtains (failed) "n = -1" "p \<noteq> []" "bs = []" "quiet w w'"
    | (got) "n = int (length bs)" "bs = take k (w_pipes w ! q)" "quiet (pipe_set q (drop k (w_pipes w ! q)) w) w'"
proof -
  have "p \<noteq> []" if "n = -1"
    using assms that sys_read_ok [of "with_plan p w" pid fd q k] by (auto split: if_splits)
  then show thesis
    using that sys_read_spec [OF assms(1), of q] assms(2) same_files_quiet by fastforce
qed

lemma pipe_set_files:
  assumes "quiet (pipe_set q bs w) w'"
  shows "w_fifos w' = w_fifos w" "w_pipes w' = (w_pipes w)[q := bs]" "w_epolls w' = w_epolls w"
    "file_of w' = file_of w" "looks w' = looks w" "fifos_ok w' = fifos_ok w"
  using assms by (auto simp: quiet_def pipe_set_def file_of_def looks_def fifos_ok_def fun_eq_iff)

lemma sv_files_pipe:
  assumes "sv_files lib ctl rep e w d names callers" "quiet (pipe_set q bs w) w'"
  shows "sv_files lib ctl rep e w' d names callers"
  using assms(1) pipe_set_files [OF assms(2)]
  by (simp add: sv_files_def disp_ok_def entry_ok_def caller_of_def caller_ok_def cong: prod.case_cong)

lemma pipe_set_same: "pipe_set q (w_pipes w ! q) w = w"
  by (simp add: pipe_set_def)

lemma same_bytes:
  assumes "w_fifos w' = w_fifos w" "w_pipes w' = w_pipes w"
  shows "bytes_in w' = bytes_in w" "sv_data lib ctl w' = sv_data lib ctl w" "pc_ok lib ctl w' = pc_ok lib ctl w"
proof -
  show b: "bytes_in w' = bytes_in w" by (rule bytes_in_cong [OF assms])
  have ev: "events_ok ctl w' = events_ok ctl w" unfolding events_ok_def b assms(2) by (rule refl)
  show pc: "pc_ok lib ctl w' = pc_ok lib ctl w"
  proof (intro ext)
    fix names pc show "pc_ok lib ctl w' names pc = pc_ok lib ctl w names pc" by (cases pc) (simp_all add: ev)
  qed
  show "sv_data lib ctl w' = sv_data lib ctl w" unfolding sv_data_def b assms(2) pc by (rule refl)
qed

lemma quiet_files:
  assumes "quiet w w'"
  shows "sv_files lib ctl rep e w' = sv_files lib ctl rep e w" "bytes_in w' = bytes_in w"
    "w_pipes w' = w_pipes w" "sv_data lib ctl w' = sv_data lib ctl w" "pc_ok lib ctl w' = pc_ok lib ctl w"
proof -
  have eq: "w_fifos w' = w_fifos w" "w_pipes w' = w_pipes w" "w_epolls w' = w_epolls w"
      "file_of w' = file_of w" "looks w' = looks w" "fifos_ok w' = fifos_ok w"
    using assms by (auto simp: quiet_def file_of_def looks_def fifos_ok_def fun_eq_iff)
  show "sv_files lib ctl rep e w' = sv_files lib ctl rep e w"
    unfolding sv_files_def disp_ok_def entry_ok_def caller_of_def caller_ok_def eq by (rule refl)
  show "w_pipes w' = w_pipes w" by (rule eq(2))
  show "bytes_in w' = bytes_in w" "sv_data lib ctl w' = sv_data lib ctl w" "pc_ok lib ctl w' = pc_ok lib ctl w"
    by (rule same_bytes [OF eq(1,2)])+
qed

lemma bytes_in_change:
  assumes "quiet (pipe_set q bs w) w'"
  shows "bytes_in w' path = (if w_fifos w path = Some q \<and> q < length (w_pipes w) then bs else bytes_in w path)"
proof (cases "w_fifos w path")
  case (Some a)
  then show ?thesis
    using pipe_set_files(1,2) [OF assms] by (cases "a = q") (auto simp: bytes_in_def list_update_beyond)
qed (simp add: bytes_in_def pipe_set_files(1) [OF assms])

lemma bytes_in_pipe:
  assumes "quiet (pipe_set q bs w) w'" "fifos_ok w" "w_fifos w p = Some q"
  shows "bytes_in w' path = (if path = p then bs else bytes_in w path)"
proof -
  have "q < length (w_pipes w)" "w_fifos w path = Some q \<longrightarrow> path = p"
    using assms(2,3) unfolding fifos_ok_def by blast+
  then show ?thesis using bytes_in_change [OF assms(1), of path] assms(3) by (cases "path = p") simp_all
qed

lemma bytes_in_private:
  assumes "quiet (pipe_set q bs w) w'" "\<forall>path. w_fifos w path \<noteq> Some q"
  shows "bytes_in w' = bytes_in w"
  using bytes_in_change [OF assms(1)] assms(2) by (simp add: fun_eq_iff)

section \<open>Histories\<close>

lemma requests_send:
  assumes "requests_ok lib x req work sent served" "length m = hf_sz_arg (lib x)" "0 < hf_sz_arg (lib x)"
  shows "requests_ok lib x (req @ m) work (sent @ [m]) served"
proof -
  have q: "hf_sz_arg (lib x) dvd length req" "sent = (served @ work) @ chunks (hf_sz_arg (lib x)) req"
      "\<forall>m \<in> set sent. length m = hf_sz_arg (lib x)" "length m = hf_sz_arg (lib x) \<and> 0 < hf_sz_arg (lib x)"
    using assms by (auto simp: requests_ok_def)
  show ?thesis
    unfolding requests_ok_def
    by (intro conjI pipe_queue.send_wf [OF q(1,4)] pipe_queue.history_send [OF q(2,1,4)]) (use q(3,4) in auto)
qed

lemma requests_recv:
  assumes "requests_ok lib x req [] sent served" "req \<noteq> []" "0 < hf_sz_arg (lib x)"
  shows "requests_ok lib x (drop (hf_sz_arg (lib x)) req) [take (hf_sz_arg (lib x)) req] sent served"
    "length (take (hf_sz_arg (lib x)) req) = hf_sz_arg (lib x)"
proof -
  let ?n = "hf_sz_arg (lib x)"
  have q: "?n dvd length req" "chunks ?n req \<noteq> []" "sent = served @ chunks ?n req"
      "\<forall>m \<in> set sent. length m = ?n"
    using assms chunks_Nil_iff by (auto simp: requests_ok_def)
  show "length (take ?n req) = ?n" using pipe_queue.recv_ok [OF q(1,2)] by simp
  show "requests_ok lib x (drop ?n req) [take ?n req] sent served"
    unfolding requests_ok_def
    using pipe_queue.history_recv [OF q(3,1,2)] pipe_queue.recv_wf [OF q(1,2)] q(4)
    unfolding fst_conv snd_conv by (intro conjI)
qed

lemma requests_served:
  "requests_ok lib x req work sent served \<Longrightarrow> requests_ok lib x req [] sent (served @ work)"
  by (simp add: requests_ok_def)

lemma responses_take:
  assumes "responses_ok lib x res served got"
  shows "responses_ok lib x (drop (hf_sz_ret (lib x)) res) served (got @ take (hf_sz_ret (lib x)) res)"
  using assms by (auto simp: responses_ok_def dvd_diff_nat)

lemma responses_put:
  assumes "responses_ok lib x res served got" "r = [] \<or> r = response (lib x) a" "hf_sz_ret (lib x) dvd length r"
  shows "responses_ok lib x (res @ r) (served @ [(a, r)]) got"
  using assms by (auto simp: responses_ok_def)

end
