(* ===== verification/Function_Service_Steps.thy ===== *)
theory Function_Service_Steps
  imports Function_Service_Inv
begin

text \<open>
  Every step of the service keeps the invariant: one lemma for each kind of step, and from
  them the invariant of all reachable states.
\<close>

section \<open>Attaching and linking\<close>

lemma sv_files_extends:
  assumes F: "sv_files lib ctl rep e w d names callers"
    and ext: "extends w w'" "fifos_ok w'" "same_upto (length names) d d'" "d_cnt_func d' = length (names @ new)"
      "distinct (names @ new)" "e < length (w_epolls w')" "w_epolls w' ! e = watched ctl w' (names @ new)"
    and new: "\<forall>i < length new. entry_ok lib w' d' (length names + i) (new ! i)"
      "\<forall>(x, pid, c) \<in> set newc. caller_of lib w' x pid c" "distinct (open_fds d' (callers @ newc))"
  shows "sv_files lib ctl rep e w' d' (names @ new) (callers @ newc)"
proof -
  have "entry_ok lib w' d' i ((names @ new) ! i)" if "i < length (names @ new)" for i
  proof (cases "i < length names")
    case True
    then show ?thesis
      using F entry_ok_extends [OF _ ext(1,3)] by (auto simp: sv_files_def nth_append)
  next
    case False
    then show ?thesis using new(1) [rule_format, of "i - length names"] that by (auto simp: nth_append)
  qed
  moreover have "disp_ok lib ctl rep e w' d' (names @ new)"
    using F disp_ok_extends [of lib ctl rep e w d names, OF _ ext(1,3,4,5,6,7)] by (simp add: sv_files_def)
  ultimately show ?thesis
    using F ext(2) new(2,3) caller_of_extends [OF _ ext(1)] unfolding sv_files_def by fastforce
qed

text \<open>All epolls but those of a set watch what they watched.\<close>

definition keeps_epolls :: "nat set \<Rightarrow> world \<Rightarrow> world \<Rightarrow> bool" where
  "keeps_epolls E w w' \<longleftrightarrow> length (w_epolls w) \<le> length (w_epolls w') \<and>
     (\<forall>j < length (w_epolls w). j \<notin> E \<longrightarrow> w_epolls w' ! j = w_epolls w ! j)"

lemma grows_keeps_epolls: "grows w w' \<Longrightarrow> keeps_epolls {} w w'"
  using grows_epoll by (fastforce simp: keeps_epolls_def grows_def)

text \<open>What a step that adds files does to a dispatcher whose epoll it leaves alone, and to all callers.\<close>

lemma sv_files_other:
  assumes F: "sv_files lib ctl rep e w d names callers"
    and ext: "extends w w'" "fifos_ok w'" "keeps_epolls E w w'" "e \<notin> E"
    and newc: "\<forall>(x, pid, c) \<in> set newc. caller_of lib w' x pid c" "distinct (open_fds d (callers @ newc))"
  shows "sv_files lib ctl rep e w' d names (callers @ newc)"
proof -
  have disp: "disp_ok lib ctl rep e w d names" and entries: "\<forall>i < length names. entry_ok lib w d i (names ! i)"
    using F by (simp_all add: sv_files_def)
  note K = disp [unfolded disp_ok_def]
  have "w_epolls w ! e = watched ctl w names" "e < length (w_epolls w)" using K by (simp_all add: watched_def)
  then have "sv_files lib ctl rep e w' d (names @ []) (callers @ newc)"
    using F ext watched_extends [OF entries ext(1)] newc K by (intro sv_files_extends) (auto simp: keeps_epolls_def)
  then show ?thesis by simp
qed

lemma watched_snoc:
  "watched ctl w (names @ [x]) =
   watched ctl w names @ [(the (w_fifos w (pipe_name x ''_req'')), int (length names))]"
  by (simp add: watched_def nth_append)

lemma disp_okD:
  assumes "disp_ok lib ctl rep e w d names"
  shows "file_of w 0 (d_epoll_fd d) = Some (Epoll e)" "e < length (w_epolls w)"
    "w_epolls w ! e = watched ctl w names" "d_cnt_func d = length names" "distinct names"
    "ctl < length (w_pipes w)"
  using assms by (simp_all add: disp_ok_def watched_def)

text \<open>Attaching, when it fails and when it succeeds: the files, and the dispatcher itself.\<close>

lemma attach_undone_extends:
  assumes "attach_undone d w d' w'" "fifos_ok w"
  shows "extends w w' \<and> fifos_ok w' \<and> keeps_epolls {} w w'"
  using assms grows_extends grows_keeps_epolls by (auto simp: attach_undone_def)

lemma attach_undone_own:
  assumes F: "sv_files lib ctl rep e w d names callers" and U: "attach_undone d w d' w'"
  shows "sv_files lib ctl rep e w' d' names callers"
proof -
  have fifos: "fifos_ok w" and entries: "\<forall>i < length names. entry_ok lib w d i (names ! i)"
    and K: "disp_ok lib ctl rep e w d names"
    using F by (simp_all add: sv_files_def)
  note K = disp_okD [OF K]
  note X = attach_undone_extends [OF U fifos]
  have "sv_files lib ctl rep e w' d' (names @ []) (callers @ [])"
    using F conjunct1 [OF X]
  proof (rule sv_files_extends)
    show "e < length (w_epolls w')" "w_epolls w' ! e = watched ctl w' (names @ [])"
      using X K(2,3) watched_extends [OF entries conjunct1 [OF X]] by (simp_all add: keeps_epolls_def)
    have "same_upto (length names) d d'" "d_cnt_func d' = length names"
      using U K(4) by (simp_all add: attach_undone_def)
    then show "distinct (open_fds d' (callers @ []))"
      using F func_fds_cong [of "length names" d d'] K(4) by (simp add: sv_files_def open_fds_def control_fds_cong)
  qed (use U X K in \<open>auto simp: attach_undone_def\<close>)
  then show ?thesis by simp
qed

lemma attach_done_extends:
  assumes att: "attach_done 0 x foo data b sz_arg sz_ret d w d' w'" and fifos: "fifos_ok w"
    and e: "file_of w 0 (d_epoll_fd d) = Some (Epoll e)"
  shows "extends w w' \<and> fifos_ok w' \<and> keeps_epolls {e} w w' \<and>
    (e < length (w_epolls w) \<longrightarrow> w_epolls w' ! e =
       w_epolls w ! e @ [(the (w_fifos w' (pipe_name x ''_req'')), int (d_cnt_func d))])"
proof -
  obtain n m q q' e' v where
      new: "n \<noteq> m" "looks w 0 n = None" "looks w 0 m = None"
      and q: "w_fifos w' (pipe_name x ''_req'') = Some q"
      and l: "looks w' = (looks w)(0 := (looks w 0)(n \<mapsto> Fifo q, m \<mapsto> Fifo q'))"
      and gv: "grows w v" and fo: "fifos_ok w \<longrightarrow> fifos_ok w'" and e': "file_of w' 0 (d_epoll_fd d) = Some (Epoll e')"
      and w': "w' = v\<lparr>w_epolls := (w_epolls v)[e' := w_epolls v ! e' @ [(q, int (d_cnt_func d))]]\<rparr>"
    using att unfolding attach_done_def by (elim conjE exE) (rule that; assumption)
  have "looks v = looks w'" "fifos_ok v = fifos_ok w'" using w' by (simp_all add: looks_def fun_eq_iff fifos_ok_def)
  then have "extends w v"
    using gv fifos fo l new by (intro grows_extends) auto
  then have ext: "extends w w'" by (rule extends_cong) (simp_all add: w')
  have "e' = e" using e' extends_file [OF ext e] by simp
  then have "keeps_epolls {e} w w'" "e < length (w_epolls w) \<longrightarrow> w_epolls w' ! e = w_epolls w ! e @ [(q, int (d_cnt_func d))]"
    using gv grows_epoll [OF gv] w' by (auto simp: keeps_epolls_def grows_def)
  then show ?thesis using ext fo fifos q by simp
qed

lemma attach_done_own:
  assumes F: "sv_files lib ctl rep e w d names callers"
    and x: "x \<notin> set names" and sz: "hf_sz_arg (lib x) \<le> PIPE_BUF" "hf_sz_ret (lib x) \<le> PIPE_BUF"
    and att: "attach_done 0 x (hf_foo (lib x)) (hf_data (lib x)) b (hf_sz_arg (lib x)) (hf_sz_ret (lib x)) d w d' w'"
  shows "sv_files lib ctl rep e w' d' (names @ [x]) callers"
proof -
  have fifos: "fifos_ok w" and entries: "\<forall>i < length names. entry_ok lib w d i (names ! i)"
    and K: "disp_ok lib ctl rep e w d names"
    using F by (simp_all add: sv_files_def)
  note K = disp_okD [OF K]
  note X = attach_done_extends [OF att fifos K(1)]
  have same: "same_upto (length names) d d'" "d_cnt_func d' = length (names @ [x])"
    using att K(4) by (simp_all add: attach_done_def)
  obtain n m q q' where
      new: "new_entry d' (length names) (hf_foo (lib x)) (hf_data (lib x)) b (hf_sz_arg (lib x))
        (hf_sz_ret (lib x)) (int n) (int m)" "n \<noteq> m" "looks w 0 n = None" "looks w 0 m = None"
      and q: "w_fifos w' (pipe_name x ''_req'') = Some q" "w_fifos w' (pipe_name x ''_res'') = Some q'"
      and l: "looks w' = (looks w)(0 := (looks w 0)(n \<mapsto> Fifo q, m \<mapsto> Fifo q'))"
    using att unfolding attach_done_def K(4) by (elim conjE exE) (rule that; assumption)
  have "looks w' 0 n = Some (Fifo q)" "looks w' 0 m = Some (Fifo q')" using l new(2) by simp_all
  then have "entry_ok lib w' d' (length names) x"
    unfolding entry_ok_def using sz new(1) q by blast
  moreover have "distinct (open_fds d' (callers @ []))"
    using F fresh_fd [OF F new(3)] fresh_fd [OF F new(4)] new(2) func_fds_snoc [OF same(1) K(4) _ new(1)] same(2)
    by (auto simp: sv_files_def open_fds_def control_fds_cong [OF same(1)])
  moreover have "e < length (w_epolls w')" "w_epolls w' ! e = watched ctl w' (names @ [x])"
    using X K(2-4) watched_extends [OF entries conjunct1 [OF X]] by (auto simp: watched_snoc keeps_epolls_def)
  ultimately have "sv_files lib ctl rep e w' d' (names @ [x]) (callers @ [])"
    using F X same x K(5) by (intro sv_files_extends) auto
  then show ?thesis by simp
qed

lemma attach_undone_keeps:
  assumes "sv_files lib ctl rep e w d names callers" "sv_data lib ctl w names pc sent served got" "attach_undone d w d' w'"
  shows "sv_files lib ctl rep e w' d' names callers \<and> sv_data lib ctl w' names pc sent served got"
proof -
  have "ctl < length (w_pipes w)" "fifos_ok w" using assms(1) by (simp_all add: sv_files_def disp_ok_def)
  then show ?thesis
    using attach_undone_own [OF assms(1,3)] attach_undone_extends [OF assms(3)] sv_data_extends [OF assms(2), of w' "[]"]
    by simp
qed

lemma attach_done_keeps:
  assumes F: "sv_files lib ctl rep e w d names callers" and D: "sv_data lib ctl w names pc sent served got"
    and x: "x \<notin> set names" and sz: "hf_sz_arg (lib x) \<le> PIPE_BUF" "hf_sz_ret (lib x) \<le> PIPE_BUF"
    and att: "attach_done 0 x (hf_foo (lib x)) (hf_data (lib x)) b (hf_sz_arg (lib x)) (hf_sz_ret (lib x)) d w d' w'"
  shows "sv_files lib ctl rep e w' d' (names @ [x]) callers \<and> sv_data lib ctl w' (names @ [x]) pc sent served got"
proof -
  have "ctl < length (w_pipes w)" "fifos_ok w" "file_of w 0 (d_epoll_fd d) = Some (Epoll e)"
    using F by (simp_all add: sv_files_def disp_ok_def)
  then show ?thesis
    using attach_done_own [OF F x sz att] attach_done_extends [OF att] sv_data_extends [OF D, of w' "[x]"] by simp
qed

lemma attach_keeps:
  assumes F: "sv_files lib ctl rep e w d names callers" and D: "sv_data lib ctl w names pc sent served got"
    and x: "x \<notin> set names"
    and att: "attach_host_function_ex 0 d x (hf_foo (lib x)) (hf_data (lib x)) (hf_sz_arg (lib x))
       (hf_sz_ret (lib x)) (with_plan p w) = Some (ret, d', w')"
  shows "sv_files lib ctl rep e w' d' (names @ (if ret = 0 then [x] else [])) callers \<and>
    sv_data lib ctl w' (names @ (if ret = 0 then [x] else [])) pc sent served got"
proof -
  have F': "sv_files lib ctl rep e (with_plan p w) d names callers" and D': "sv_data lib ctl (with_plan p w) names pc sent served got"
    using F D quiet_files [of w "with_plan p w"] by simp_all
  show ?thesis
    using attach_host_function_ex_spec [OF att] attach_undone_keeps [OF F' D', of d' w']
      attach_done_keeps [OF F' D' x, of False d' w'] by auto
qed

lemma attach_legacy_keeps:
  assumes F: "sv_files lib ctl rep e w d names callers" and D: "sv_data lib ctl w names pc sent served got"
    and x: "x \<notin> set names" "hf_foo (lib x) = legacy_host_function_adapter" "hf_data (lib x) = LegacyContext foo"
    and att: "attach_host_function 0 d x foo (hf_sz_arg (lib x)) (hf_sz_ret (lib x)) (with_plan p w) = Some (ret, d', w')"
  shows "sv_files lib ctl rep e w' d' (names @ (if ret = 0 then [x] else [])) callers \<and>
    sv_data lib ctl w' (names @ (if ret = 0 then [x] else [])) pc sent served got"
proof -
  have F': "sv_files lib ctl rep e v d names callers" and D': "sv_data lib ctl v names pc sent served got"
    if "quiet (with_plan p w) v" for v
    using F D quiet_files [of w v] that by simp_all
  note Q = quiet_refl [of "with_plan p w"]
  from attach_host_function_spec [OF att] show ?thesis
  proof (elim disjE conjE exE)
    assume "ret \<in> {-1, -2, -3, -4, -5}" "attach_undone d (with_plan p w) d' w'"
    then show ?thesis using attach_undone_keeps [OF F' [OF Q] D' [OF Q]] by auto
  next
    fix v assume "ret = 0" and sz: "hf_sz_arg (lib x) \<le> PIPE_BUF" "hf_sz_ret (lib x) \<le> PIPE_BUF"
      and v: "sys_alloc (with_plan p w) = (True, v)" and
      A: "attach_done 0 x legacy_host_function_adapter (LegacyContext foo) True (hf_sz_arg (lib x)) (hf_sz_ret (lib x)) d v d' w'"
    note Q = quiet_heap(2) [OF v]
    show ?thesis using attach_done_keeps [where lib = lib, OF F' [OF Q] D' [OF Q] x(1) sz, of True d' w'] x(2,3) A \<open>ret = 0\<close> by simp
  qed
qed

text \<open>Linking: a caller with two new descriptors, or nothing.\<close>

definition caller_joins :: "library \<Rightarrow> world \<Rightarrow> world \<Rightarrow> (string \<times> nat \<times> caller) list \<Rightarrow> bool" where
  "caller_joins lib w w' newc \<longleftrightarrow> extends w w' \<and> fifos_ok w' \<and> keeps_epolls {} w w' \<and>
     (\<forall>(x, pid, c) \<in> set newc. caller_of lib w' x pid c) \<and> distinct (caller_fds newc) \<and>
     (\<forall>(pid, fd) \<in> set (caller_fds newc). file_of w pid fd = None)"

lemma link_joins:
  assumes link: "link_host_function pid x (hf_sz_arg (lib x)) (hf_sz_ret (lib x)) (with_plan p w) = Some (Some c, w')"
    and fds: "ERR_PIPE_REQ \<notin> {c_req_fd c, c_res_fd c}" and fifos: "fifos_ok w"
  shows "caller_joins lib w w' [(x, pid, c)]"
  using link
proof (cases rule: link_host_function_cases)
  case (linked v r u fd y fd')
  then have c: "c = \<lparr>c_req_fd = fd, c_res_fd = fd', c_sz_arg = hf_sz_arg (lib x), c_sz_ret = hf_sz_ret (lib x)\<rparr>" by simp
  have V: "grows w v" "looks v = looks w" "fifos_ok v = fifos_ok w"
    using sys_alloc_cases [OF linked(1)] by (simp_all add: grows_def)
  note M = sys_mkdir_spec [OF linked(4)]
    and X = caller_open_pipe_spec [OF linked(6)] and Y = caller_open_pipe_spec [OF linked(8)]
  obtain n q where n: "fd = int n" "looks w pid n = None" "w_fifos y (pipe_name x ''_req'') = Some q"
      "looks y = (looks w)(pid := (looks w pid)(n \<mapsto> Fifo q))"
    using X M V(2) fds linked(7) c by auto
  obtain m q' where m: "fd' = int m" "looks y pid m = None" "w_fifos w' (pipe_name x ''_res'') = Some q'"
      "looks w' = (looks y)(pid := (looks y pid)(m \<mapsto> Fifo q'))"
    using Y fds linked(9) c by auto
  have nm: "n \<noteq> m" "looks w pid m = None" using m(2) n(4) by (auto split: if_splits)
  have "w_fifos w' (pipe_name x ''_req'') = Some q" using Y grows_fifo n(3) by blast
  then have "caller_of lib w' x pid c"
    using n m nm(1) by (auto simp: caller_of_def caller_ok_def c file_of_looks)
  moreover have g: "grows w w'" using V(1) M X Y grows_trans by metis
  moreover have fo: "fifos_ok w'" using fifos V M X Y by simp
  moreover have "extends w w'" by (rule grows_extends [OF g fifos fo]) (use n m nm in auto)
  ultimately show ?thesis
    using n m nm by (simp add: caller_joins_def grows_keeps_epolls c file_of_looks)
qed auto

lemma link_null_joins:
  assumes "link_host_function pid x a b (with_plan p w) = Some (None, w')" "file_of w pid ERR_PIPE_REQ = None" "fifos_ok w"
  shows "caller_joins lib w w' []"
proof -
  have "looks w' = looks w" "fifos_ok w'" "grows w w'"
    using null_link [OF assms(1)] assms(2,3) by (auto simp: files_undone_def grows_def)
  then show ?thesis using assms(3) grows_extends [of w w'] by (simp add: caller_joins_def grows_keeps_epolls)
qed

lemma joins_files:
  assumes F: "sv_files lib ctl rep e w d names callers" and j: "caller_joins lib w w' newc"
  shows "sv_files lib ctl rep e w' d names (callers @ newc)"
proof (rule sv_files_other [OF F, where E = "{}"])
  have "distinct (open_fds d callers)" using F by (simp add: sv_files_def)
  moreover have "set (open_fds d callers) \<inter> set (caller_fds newc) = {}"
    using j open_fds_open [OF F] by (fastforce simp: caller_joins_def)
  ultimately show "distinct (open_fds d (callers @ newc))"
    using j by (auto simp: open_fds_def caller_joins_def)
qed (use j in \<open>simp_all add: caller_joins_def\<close>)

lemma joins_keeps:
  assumes F: "sv_files lib ctl rep e w d names callers" and D: "sv_data lib ctl w names pc sent served got"
    and j: "caller_joins lib w w' newc"
  shows "sv_files lib ctl rep e w' d names (callers @ newc) \<and> sv_data lib ctl w' names pc sent served got"
proof -
  have "ctl < length (w_pipes w)" using F by (simp add: sv_files_def disp_ok_def)
  then show ?thesis
    using joins_files [OF F j] sv_data_extends [OF D, of w' "[]"] j by (simp add: caller_joins_def)
qed

lemma link_keeps:
  assumes F: "sv_files lib ctl rep e w d names callers" and D: "sv_data lib ctl w names pc sent served got"
    and link: "link_host_function pid x (hf_sz_arg (lib x)) (hf_sz_ret (lib x)) (with_plan p w) = Some (Some c, w')"
    and fds: "ERR_PIPE_REQ \<notin> {c_req_fd c, c_res_fd c}"
  shows "sv_files lib ctl rep e w' d names (callers @ [(x, pid, c)]) \<and>
    sv_data lib ctl w' names pc sent served got"
  using joins_keeps [OF F D link_joins [where lib = lib, OF link fds]] F by (simp add: sv_files_def)

lemma link_null_keeps:
  assumes F: "sv_files lib ctl rep e w d names callers" and D: "sv_data lib ctl w names pc sent served got"
    and link: "link_host_function pid x a b (with_plan p w) = Some (None, w')"
    and fd: "file_of w pid ERR_PIPE_REQ = None"
  shows "sv_files lib ctl rep e w' d names callers \<and> sv_data lib ctl w' names pc sent served got"
  using joins_keeps [OF F D link_null_joins [OF link fd]] F by (simp add: sv_files_def)

text \<open>Closing descriptors of a caller that nothing else uses.\<close>

definition closes :: "(nat \<times> int) set \<Rightarrow> world \<Rightarrow> world \<Rightarrow> bool" where
  "closes fds w w' \<longleftrightarrow> w_fifos w' = w_fifos w \<and> w_pipes w' = w_pipes w \<and> w_epolls w' = w_epolls w \<and>
     (\<forall>pid fd. (pid, fd) \<notin> fds \<longrightarrow> file_of w' pid fd = file_of w pid fd)"

lemma closes_trans: "closes A u v \<Longrightarrow> closes B v w \<Longrightarrow> closes (A \<union> B) u w"
  by (simp add: closes_def)

lemma closes_mono: "closes A u v \<Longrightarrow> A \<subseteq> B \<Longrightarrow> closes B u v"
  by (auto simp: closes_def)

lemma same_files_closes: "same_files u v \<Longrightarrow> closes {} u v"
  by (simp add: same_files_def closes_def file_of_def)

lemma sys_close_cases:
  assumes "sys_close pid fd w = (r, w')"
  obtains (bad) "file_of w pid fd = None" "same_files w w'"
    | (closed) n where "fd = int n" "same_files (w\<lparr>w_fds := (w_fds w)(pid := fd_remove n (w_fds w pid))\<rparr>) w'"
proof (cases "file_of w pid fd")
  case None
  then show thesis using bad sys_close_bad(1) [OF assms] by blast
next
  case (Some f)
  then have n: "fd = int (nat fd)" by (auto simp: file_of_def split: if_splits)
  have "faulty pid (\<lambda>w. (0, w)) (w\<lparr>w_fds := (w_fds w)(pid := fd_remove (nat fd) (w_fds w pid))\<rparr>) = (r, w')"
    using assms Some by (simp add: sys_close_def)
  then show thesis by (cases rule: faulty_cases) (auto intro: closed [OF n])
qed

lemma sys_close_closes:
  assumes "sys_close pid fd w = (r, w')"
  shows "closes {(pid, fd)} w w'" "file_of w' pid fd = None"
  using assms
proof (atomize (full), cases rule: sys_close_cases)
  case bad
  then show "closes {(pid, fd)} w w' \<and> file_of w' pid fd = None"
    using closes_mono [OF same_files_closes] same_filesD(2) by (simp add: file_of_looks split: if_splits)
next
  case (closed n)
  let ?v = "w\<lparr>w_fds := (w_fds w)(pid := fd_remove n (w_fds w pid))\<rparr>"
  have "closes {(pid, fd)} w ?v" "file_of ?v pid fd = None"
    using looks_remove [of w pid n] by (auto simp: closes_def file_of_looks closed(1))
  then show "closes {(pid, fd)} w w' \<and> file_of w' pid fd = None"
    using closes_trans [OF _ same_files_closes [OF closed(2)]] same_filesD(2) [OF closed(2)]
    by (fastforce simp: file_of_looks)
qed

lemma caller_fds_mem:
  "(x, pid, c) \<in> set callers \<Longrightarrow> (pid, c_req_fd c) \<in> set (caller_fds callers) \<and> (pid, c_res_fd c) \<in> set (caller_fds callers)"
  by (force simp: caller_fds_def)

lemma sv_files_closes:
  assumes F: "sv_files lib ctl rep e w d names callers" and cl: "closes fds w w'"
    and sub: "set callers' \<subseteq> set callers" "distinct (open_fds d callers')" "fds \<inter> set (open_fds d callers') = {}"
  shows "sv_files lib ctl rep e w' d names callers'"
proof -
  have eq: "w_fifos w' = w_fifos w" "w_pipes w' = w_pipes w" "w_epolls w' = w_epolls w"
    using cl by (simp_all add: closes_def)
  have f: "file_of w' p fd = file_of w p fd" if "(p, fd) \<in> set (open_fds d callers')" for p fd
    using cl sub(3) that by (auto simp: closes_def)
  have disp: "disp_ok lib ctl rep e w d names" using F by (simp add: sv_files_def)
  have "file_of w' 0 fd = file_of w 0 fd" if "fd \<in> set (control_fds d)" for fd
    using that by (intro f) (simp add: open_fds_def)
  then have "disp_ok lib ctl rep e w' d names"
    using disp by (simp add: disp_ok_def eq control_fds_def)
  moreover have "entry_ok lib w' d i (names ! i)" if i: "i < length names" for i
  proof -
    have look: "looks w' 0 n = looks w 0 n" if "entry (d_req_fd d) i = Some (int n) \<or> entry (d_res_fd d) i = Some (int n)" for n
    proof -
      have "int n \<in> set (func_fds d)"
        using that i disp by (force simp: func_fds_def disp_ok_def)
      then show ?thesis using f [of 0 "int n"] by (simp add: open_fds_def file_of_looks)
    qed
    obtain b n m q q' where n: "new_entry d i (hf_foo (lib (names ! i))) (hf_data (lib (names ! i))) b
          (hf_sz_arg (lib (names ! i))) (hf_sz_ret (lib (names ! i))) (int n) (int m)"
        "w_fifos w (pipe_name (names ! i) ''_req'') = Some q" "looks w 0 n = Some (Fifo q)"
        "w_fifos w (pipe_name (names ! i) ''_res'') = Some q'" "looks w 0 m = Some (Fifo q')"
      and sz: "hf_sz_arg (lib (names ! i)) \<le> PIPE_BUF" "hf_sz_ret (lib (names ! i)) \<le> PIPE_BUF"
      using F i by (auto simp: sv_files_def entry_ok_def)
    have "looks w' 0 n = looks w 0 n" "looks w' 0 m = looks w 0 m"
      using n(1) look by (simp_all add: new_entry_def)
    then show ?thesis unfolding entry_ok_def eq using n sz by metis
  qed
  moreover have "caller_of lib w' x pid c" if "(x, pid, c) \<in> set callers'" for x pid c
  proof -
    have "caller_of lib w x pid c" using F sub(1) that by (auto simp: sv_files_def)
    then show ?thesis
      using caller_fds_mem [OF that] f by (simp add: caller_of_def caller_ok_def eq open_fds_def)
  qed
  ultimately show ?thesis
    using F sub(2) by (auto simp: sv_files_def fifos_ok_def eq)
qed

lemma unlink_closes:
  assumes "unlink_host_function pid c w = (ret, w')"
  shows "closes {(pid, c_req_fd c), (pid, c_res_fd c)} w w'"
proof -
  obtain r v where v: "sys_close pid (c_req_fd c) w = (r, v)" by fastforce
  obtain s u where u: "sys_close pid (c_res_fd c) v = (s, u)" by fastforce
  have "w' \<in> {v, u, sys_free u}" using assms v u by (auto simp: unlink_host_function_def split: if_splits)
  moreover have "closes {} u (sys_free u)" by (simp add: closes_def sys_free_def file_of_def)
  moreover note C = sys_close_closes(1) [OF v] sys_close_closes(1) [OF u]
  ultimately show ?thesis
    using closes_trans [OF C] closes_trans [OF closes_trans [OF C], of "{}" "sys_free u"] closes_mono [OF C(1)]
    by (auto simp: insert_commute)
qed

lemma unlink_files:
  assumes F: "sv_files lib ctl rep e w d names callers" and c: "(x, pid, c) \<in> set callers"
    and un: "unlink_host_function pid c (with_plan p w) = (ret, w')"
  shows "sv_files lib ctl rep e w' d names (remove1 (x, pid, c) callers)"
    "w_fifos w' = w_fifos w \<and> w_pipes w' = w_pipes w"
proof -
  obtain as bs where s: "callers = as @ (x, pid, c) # bs" "(x, pid, c) \<notin> set as"
    using split_list_first [OF c] by blast
  then have rm: "remove1 (x, pid, c) callers = as @ bs" by (simp add: remove1_append)
  have dist: "distinct (open_fds d callers)" using F by (simp add: sv_files_def)
  have cl: "closes {(pid, c_req_fd c), (pid, c_res_fd c)} w w'"
    using closes_trans [of "{}" w "with_plan p w", OF _ unlink_closes [OF un]] by (simp add: closes_def)
  show "sv_files lib ctl rep e w' d names (remove1 (x, pid, c) callers)"
    unfolding rm by (rule sv_files_closes [OF F cl]) (use dist s(1) in \<open>auto simp: open_fds_def\<close>)
  show "w_fifos w' = w_fifos w \<and> w_pipes w' = w_pipes w" using cl by (simp add: closes_def)
qed

lemma unlink_keeps:
  assumes F: "sv_files lib ctl rep e w d names callers" and D: "sv_data lib ctl w names pc sent served got"
    and c: "(x, pid, c) \<in> set callers" and un: "unlink_host_function pid c (with_plan p w) = (ret, w')"
  shows "sv_files lib ctl rep e w' d names (remove1 (x, pid, c) callers) \<and> sv_data lib ctl w' names pc sent served got"
  using unlink_files [OF F c un] D same_bytes [of w' w] by simp

section \<open>Creating a dispatcher\<close>

lemma create_files:
  assumes w: "w_plan w = []" "fifos_ok w" and C: "create_host_function_dispatcher 0 n w = Some (Some d, b, w')"
    and callers: "\<forall>(x, pid, c) \<in> set callers. caller_of lib w x pid c" "distinct (caller_fds callers)"
  shows "w_plan w' = [] \<and> extends w w' \<and> fifos_ok w' \<and> keeps_epolls {} w w' \<and>
    sv_files lib (length (w_pipes w)) (Suc (length (w_pipes w))) (length (w_epolls w)) w' d [] callers \<and>
    w_pipes w' ! length (w_pipes w) = []"
proof -
  have N: "w_plan w' = [] \<and> w_fifos w' = w_fifos w \<and> w_cap w' = w_cap w \<and> d_cnt_func d = 0 \<and>
      w_pipes w' = w_pipes w @ [[], []] \<and> w_epolls w' = w_epolls w @ [[(length (w_pipes w), -1)]] \<and>
      file_of w' 0 (d_epoll_fd d) = Some (Epoll (length (w_epolls w))) \<and>
      file_of w' 0 (fst (d_to_daemon d)) = Some (PipeRead (length (w_pipes w))) \<and>
      file_of w' 0 (snd (d_to_daemon d)) = Some (PipeWrite (length (w_pipes w))) \<and>
      file_of w' 0 (fst (d_from_daemon d)) = Some (PipeRead (Suc (length (w_pipes w)))) \<and>
      file_of w' 0 (snd (d_from_daemon d)) = Some (PipeWrite (Suc (length (w_pipes w))))"
    and old: "\<forall>fd g. file_of w 0 fd = Some g \<longrightarrow> file_of w' 0 fd = Some g" "\<forall>p. p \<noteq> 0 \<longrightarrow> w_fds w' p = w_fds w p"
    using create_ok [OF w(1), of 0 n] unfolding C by auto
  have f: "q < length (w_pipes w)" if "w_fifos w path = Some q" for path q
    using w(2) that by (auto simp: fifos_ok_def)
  then have f': "w_fifos w path \<noteq> Some q" if "length (w_pipes w) \<le> q" for path q
    using that leD by blast
  have fo: "fifos_ok w'" using w(2) N by (auto simp: fifos_ok_def less_SucI)
  have looks: "looks w' p k = Some g" if "looks w p k = Some g" for p k g
    using that old(1) [rule_format, of "int k" g] old(2) [rule_format, of p]
    by (cases "p = 0") (simp_all add: file_of_looks, simp add: looks_def)
  have "grows w w'" using N by (auto simp: grows_def map_le_def eval_nat_numeral intro!: exI [of _ 2])
  then have ext: "extends w w'" and ep: "keeps_epolls {} w w'"
    using grows_extends [OF _ w(2) fo] looks grows_keeps_epolls by blast+
  have of: "caller_of lib w' x pid c" if "(x, pid, c) \<in> set callers" for x pid c
    using callers(1) that caller_of_extends [OF _ ext] by fast
  have "\<exists>q. file_of w' pid fd = Some (Fifo q)" if "(pid, fd) \<in> set (caller_fds callers)" for pid fd
    using of that by (fastforce simp: caller_fds_def caller_of_def caller_ok_def)
  then have "set (map (Pair 0) (control_fds d)) \<inter> set (caller_fds callers) = {}"
    using N by (fastforce simp: control_fds_def)
  moreover have "distinct (map (file_of w' 0) (control_fds d))" using N by (simp add: control_fds_def)
  then have "distinct (control_fds d)" by (simp only: distinct_map)
  ultimately have "distinct (open_fds d callers)"
    using N callers(2) by (auto simp: open_fds_def func_fds_def distinct_map inj_on_def)
  then have "sv_files lib (length (w_pipes w)) (Suc (length (w_pipes w))) (length (w_epolls w)) w' d [] callers"
    using N fo f' of by (auto simp: sv_files_def disp_ok_def)
  then show ?thesis using N fo ext ep by (simp add: nth_append)
qed

section \<open>Calls and responses\<close>

lemma caller_ofD:
  assumes "caller_of lib w x pid c"
  obtains q q' where "c_sz_arg c = hf_sz_arg (lib x)" "c_sz_ret c = hf_sz_ret (lib x)"
    "w_fifos w (pipe_name x ''_req'') = Some q" "Option.bind (file_of w pid (c_req_fd c)) write_end = Some q"
    "w_fifos w (pipe_name x ''_res'') = Some q'" "Option.bind (file_of w pid (c_res_fd c)) read_end = Some q'"
  using assms by (auto simp: caller_of_def caller_ok_def)

lemma sv_filesD:
  assumes "sv_files lib ctl rep e w d names callers"
  shows "fifos_ok w" "disp_ok lib ctl rep e w d names"
    "i < length names \<Longrightarrow> entry_ok lib w d i (names ! i)"
    "(x, pid, c) \<in> set callers \<Longrightarrow> caller_of lib w x pid c"
    "ctl < length (w_pipes w)" "distinct names" "ctl \<noteq> rep"
    "w_fifos w path \<noteq> Some ctl" "w_fifos w path \<noteq> Some rep"
  using assms by (auto simp: sv_files_def disp_ok_def)

text \<open>A change of one FIFO touches neither the control pipes nor the other FIFOs.\<close>

lemma fifo_change:
  assumes "sv_files lib ctl rep e w d names callers" "quiet (pipe_set q bs w) w'" "w_fifos w path = Some q"
  shows "bytes_in w' = (bytes_in w)(path := bs)" "w_pipes w' ! ctl = w_pipes w ! ctl"
    "w_pipes w' ! rep = w_pipes w ! rep"
proof -
  show "bytes_in w' = (bytes_in w)(path := bs)"
    using bytes_in_pipe [OF assms(2) sv_filesD(1) [OF assms(1)] assms(3)] by (simp add: fun_eq_iff)
  have "q \<noteq> ctl" "q \<noteq> rep" using sv_filesD(8,9) [OF assms(1), of path] assms(3) by auto
  then show "w_pipes w' ! ctl = w_pipes w ! ctl" "w_pipes w' ! rep = w_pipes w ! rep"
    using pipe_set_files(2) [OF assms(2)] by simp_all
qed

lemma call_keeps:
  assumes F: "sv_files lib ctl rep e w d names callers" and D: "sv_data lib ctl w names pc sent served got"
    and lib: "lib_ok lib" and c: "(x, pid, c) \<in> set callers" "length arg = hf_sz_arg (lib x)"
    and call: "call_host_function pid c arg (with_plan p w) = Done (ret, w')"
  shows "sv_files lib ctl rep e w' d names callers \<and>
    sv_data lib ctl w' names pc (sent(x := sent x @ (if ret = 0 then [arg] else []))) served got"
proof -
  from sv_filesD(4) [OF F c(1)] obtain q where sz: "c_sz_arg c = hf_sz_arg (lib x)"
      and q: "w_fifos w (pipe_name x ''_req'') = Some q" "Option.bind (file_of w pid (c_req_fd c)) write_end = Some q"
    by (rule caller_ofD)
  obtain n where n: "sys_write pid (c_req_fd c) arg (with_plan p w) = Done (n, w')"
      "ret = (if n < 0 \<or> nat n \<noteq> length arg then -1 else 0)"
    using call c(2) sz by (auto simp: call_host_function_def split: io.splits)
  have pos: "0 < hf_sz_arg (lib x)" using lib by (simp add: lib_ok_def fun_ok_def)
  from n(1) q(2) show ?thesis
  proof (cases rule: write_cases)
    case failed
    then show ?thesis using F D n(2) quiet_files [OF failed(3)] by simp
  next
    case written
    note B = fifo_change [OF F written(2) q(1)]
    have b: "w_pipes w ! q = bytes_in w (pipe_name x ''_req'')" using q(1) by (simp add: bytes_in_def)
    have "pc_ok lib ctl w' (names @ []) pc"
      using D B by (intro pc_ok_mono [of lib ctl w]) (auto simp: sv_data_def b)
    moreover have "requests_ok lib x (bytes_in w (pipe_name x ''_req'') @ arg) (in_work names pc x) (sent x @ [arg])
        (map fst (served x))"
      using D by (intro requests_send c(2) pos) (simp add: sv_data_def)
    ultimately show ?thesis
      using sv_files_pipe [OF F written(2)] D B n(2) written(1)
      by (simp add: sv_data_def b pipe_name_eq_iff)
  qed
qed

lemma respond_keeps:
  assumes F: "sv_files lib ctl rep e w d names callers" and D: "sv_data lib ctl w names pc sent served got"
    and c: "(x, pid, c) \<in> set callers"
    and resp: "get_response_host_function pid c (with_plan p w) = Done (ret, bytes, w')"
  shows "sv_files lib ctl rep e w' d names callers \<and>
    sv_data lib ctl w' names pc sent served (got(x := got x @ bytes))"
proof -
  from sv_filesD(4) [OF F c] obtain q where sz: "c_sz_ret c = hf_sz_ret (lib x)"
      and q: "w_fifos w (pipe_name x ''_res'') = Some q" "Option.bind (file_of w pid (c_res_fd c)) read_end = Some q"
    by (rule caller_ofD)
  let ?n = "hf_sz_ret (lib x)"
  obtain n where n: "sys_read pid (c_res_fd c) ?n (with_plan p w) = Done (n, bytes, w')"
    using resp sz by (auto simp: get_response_host_function_def split: io.splits)
  from n q(2) show ?thesis
  proof (cases rule: read_cases)
    case failed
    then show ?thesis using F D quiet_files [OF failed(4)] by simp
  next
    case got
    note B = fifo_change [OF F got(3) q(1)]
    have b: "w_pipes w ! q = bytes_in w (pipe_name x ''_res'')" using q(1) by (simp add: bytes_in_def)
    have "pc_ok lib ctl w' (names @ []) pc"
      using D B by (intro pc_ok_mono [of lib ctl w]) (auto simp: sv_data_def pipe_name_eq_iff)
    then show ?thesis
      using sv_files_pipe [OF F got(3)] D B got(2) responses_take [of lib x "bytes_in w (pipe_name x ''_res'')"]
      by (simp add: sv_data_def b pipe_name_eq_iff)
  qed
qed

text \<open>The control pipes belong to no FIFO.\<close>

lemma private_change:
  assumes F: "sv_files lib ctl rep e w d names callers" and D: "sv_data lib ctl w names pc sent served got"
    and q: "q \<in> {ctl, rep}" "quiet (pipe_set q bs w) w'"
    and bs: "q = ctl \<Longrightarrow> 4 dvd length bs" and pc: "pc_ok lib ctl w' names pc'" "in_work names pc' = in_work names pc"
  shows "sv_files lib ctl rep e w' d names callers \<and> sv_data lib ctl w' names pc' sent served got"
proof -
  have "bytes_in w' = bytes_in w"
    using q sv_filesD(8,9) [OF F] by (intro bytes_in_private [OF q(2)]) auto
  moreover have "4 dvd length (w_pipes w' ! ctl)"
    using pipe_set_files(2) [OF q(2)] bs D sv_filesD(5) [OF F] by (cases "q = ctl") (auto simp: sv_data_def)
  ultimately show ?thesis
    using sv_files_pipe [OF F q(2)] D pc by (simp add: sv_data_def)
qed

lemma private_bytes:
  assumes "sv_files lib ctl rep e w d names callers" "q \<in> {ctl, rep}" "quiet (pipe_set q bs w) w'"
  shows "bytes_in w' = bytes_in w" "w_pipes w' ! ctl = (if q = ctl then bs else w_pipes w ! ctl)"
proof -
  show "bytes_in w' = bytes_in w"
    using assms(2) sv_filesD(8,9) [OF assms(1)] by (intro bytes_in_private [OF assms(3)]) auto
  show "w_pipes w' ! ctl = (if q = ctl then bs else w_pipes w ! ctl)"
    using pipe_set_files(2) [OF assms(3)] sv_filesD(5) [OF assms(1)] by simp
qed

lemma stop_keeps:
  assumes F: "sv_files lib ctl rep e w d names callers" and D: "sv_data lib ctl w names pc sent served got"
    and stop: "delete_request 0 d (with_plan p w) = Done (ret, w')"
  shows "sv_files lib ctl rep e w' d names callers \<and> sv_data lib ctl w' names pc sent served got"
proof -
  have q: "Option.bind (file_of w 0 (snd (d_to_daemon d))) write_end = Some ctl"
    using sv_filesD(2) [OF F] by (simp add: disp_ok_def)
  from stop [unfolded delete_request_def] q show ?thesis
  proof (cases rule: write_cases)
    case failed
    then show ?thesis using F D quiet_files [OF failed(3)] by simp
  next
    case written
    note B = private_bytes [OF F _ written(2)]
    have "pc_ok lib ctl w' (names @ []) pc"
      using D B by (intro pc_ok_mono [of lib ctl w]) (auto simp: sv_data_def)
    then show ?thesis
      using D by (intro private_change [OF F D _ written(2)]) (auto simp: sv_data_def int_bytes_def)
  qed
qed

end
