(* ===== verification/Function_Service_Daemon.thy ===== *)
theory Function_Service_Daemon
  imports Function_Service_Steps
begin

text \<open>
  The steps of the daemon keep the invariant of the service, and so does every step of the
  machine. The daemon never runs into undefined behaviour.
\<close>

section \<open>The steps of the daemon\<close>

lemma entry_okD:
  assumes "entry_ok lib w d i x"
  obtains fd fd' q q' where "entry (d_foo d) i = Some (hf_foo (lib x))" "entry (d_user_data d) i = Some (hf_data (lib x))"
    "entry (d_sz_arg d) i = Some (hf_sz_arg (lib x))" "entry (d_sz_ret d) i = Some (hf_sz_ret (lib x))"
    "entry (d_req_fd d) i = Some fd" "entry (d_res_fd d) i = Some fd'"
    "w_fifos w (pipe_name x ''_req'') = Some q" "Option.bind (file_of w 0 fd) read_end = Some q"
    "w_fifos w (pipe_name x ''_res'') = Some q'" "Option.bind (file_of w 0 fd') write_end = Some q'"
proof -
  obtain b n m q q' where e: "new_entry d i (hf_foo (lib x)) (hf_data (lib x)) b (hf_sz_arg (lib x))
        (hf_sz_ret (lib x)) (int n) (int m)"
      "w_fifos w (pipe_name x ''_req'') = Some q" "looks w 0 n = Some (Fifo q)"
      "w_fifos w (pipe_name x ''_res'') = Some q'" "looks w 0 m = Some (Fifo q')"
    using assms by (auto simp: entry_ok_def)
  show thesis
    by (rule that [of "int n" "int m" q q']) (use e in \<open>simp_all add: new_entry_def file_of_looks\<close>)
qed

lemma sv_dataD:
  assumes "sv_data lib ctl w names pc sent served got"
  shows "4 dvd length (w_pipes w ! ctl)" "pc_ok lib ctl w names pc"
    "requests_ok lib x (bytes_in w (pipe_name x ''_req'')) (in_work names pc x) (sent x) (map fst (served x))"
    "responses_ok lib x (bytes_in w (pipe_name x ''_res'')) (served x) (got x)"
  using assms by (simp_all add: sv_data_def)

lemma events_ok_tl: "events_ok ctl w names (e # evs) \<Longrightarrow> events_ok ctl w names evs"
  by (simp add: events_ok_def)

text \<open>A step that leaves the pipes alone.\<close>

lemma quiet_step:
  assumes "sv_files lib ctl rep e w d names callers" "sv_data lib ctl w names pc sent served got"
    and "quiet w w'" "pc_ok lib ctl w names pc'" "in_work names pc' = in_work names pc"
  shows "sv_files lib ctl rep e w' d names callers \<and> sv_data lib ctl w' names pc' sent served got"
  using assms quiet_files [OF assms(3)] by (simp add: sv_data_def)

lemma no_work: "in_work names (DmBatch evs) = (\<lambda>_. [])" "in_work names (DmControl r evs) = (\<lambda>_. [])"
  "in_work names (DmRead i evs) = (\<lambda>_. [])" "in_work names DmWait = (\<lambda>_. [])" "in_work names DmEnd = (\<lambda>_. [])"
  by (simp_all add: fun_eq_iff)

lemma control_read_keeps:
  assumes F: "sv_files lib ctl rep e w d names callers"
    and D: "sv_data lib ctl w names (DmBatch (-1 # evs)) sent served got"
    and step: "daemon_step 0 d (with_plan [] w) dm (DmBatch (-1 # evs)) = (dm', w')" "dm_pc dm = DmBatch (-1 # evs)"
  shows "(\<exists>r. dm_pc dm' = DmControl r evs) \<and> sv_files lib ctl rep e w' d names callers \<and>
    sv_data lib ctl w' names (dm_pc dm') sent served got"
proof -
  have q: "Option.bind (file_of w 0 (fst (d_to_daemon d))) read_end = Some ctl"
    using sv_filesD(2) [OF F] by (simp add: disp_ok_def)
  have ev: "events_ok ctl w names (-1 # evs)" using sv_dataD(2) [OF D] by simp
  then have ne: "w_pipes w ! ctl \<noteq> []" by (auto simp: events_ok_def)
  have "4 \<le> length (w_pipes w ! ctl)" using sv_dataD(1) [OF D] ne by (auto dest: dvd_imp_le)
  have read: "sys_read 0 (fst (d_to_daemon d)) 4 (with_plan [] w) =
      Done (4, take 4 (w_pipes w ! ctl), pipe_set ctl (drop 4 (w_pipes w ! ctl)) (with_plan [] w))"
    using q ne \<open>4 \<le> _\<close> sys_read_ok [of "with_plan [] w" 0 "fst (d_to_daemon d)" ctl 4] by simp
  then have w': "w' = pipe_set ctl (drop 4 (w_pipes w ! ctl)) (with_plan [] w)" and pc: "\<exists>r. dm_pc dm' = DmControl r evs"
    using step by (auto split: if_splits)
  have Q: "quiet (pipe_set ctl (drop 4 (w_pipes w ! ctl)) w) w'"
    unfolding w' by (simp add: quiet_def pipe_set_def)
  note B = private_bytes [OF F _ Q]
  have "-1 \<notin> set evs" using ev by (simp add: events_ok_def)
  then have ok: "events_ok ctl w' names evs"
    using ev B by (auto simp: events_ok_def)
  obtain r where r: "dm_pc dm' = DmControl r evs" using pc by blast
  have "sv_files lib ctl rep e w' d names callers \<and> sv_data lib ctl w' names (dm_pc dm') sent served got"
    using sv_dataD(1) [OF D] ok r
    by (intro private_change [OF F D _ Q]) (simp_all add: no_work dvd_diff_nat \<open>4 \<le> _\<close>)
  then show ?thesis using pc by blast
qed

lemma control_reply_keeps:
  assumes F: "sv_files lib ctl rep e w d names callers"
    and D: "sv_data lib ctl w names (DmControl r evs) sent served got"
    and step: "daemon_step 0 d (with_plan p w) dm (DmControl r evs) = (dm', w')" "dm_pc dm = DmControl r evs"
  shows "dm_pc dm' \<in> {DmControl r evs, DmBatch evs} \<and> sv_files lib ctl rep e w' d names callers \<and>
    sv_data lib ctl w' names (dm_pc dm') sent served got"
proof -
  have q: "Option.bind (file_of w 0 (snd (d_from_daemon d))) write_end = Some rep"
    using sv_filesD(2) [OF F] by (simp add: disp_ok_def)
  have ev: "events_ok ctl w names evs" using sv_dataD(2) [OF D] by simp
  show ?thesis
  proof (cases "sys_write 0 (snd (d_from_daemon d)) (int_bytes r) (with_plan p w)")
    case Blocked
    then show ?thesis
      using step F D quiet_files [of w "with_plan p w"] by auto
  next
    case (Done nw)
    then obtain n where W: "sys_write 0 (snd (d_from_daemon d)) (int_bytes r) (with_plan p w) = Done (n, w')"
        and pc: "dm_pc dm' = DmBatch evs"
      using step by (auto split: prod.splits)
    from W q have "sv_files lib ctl rep e w' d names callers \<and> sv_data lib ctl w' names (dm_pc dm') sent served got"
    proof (cases rule: write_cases)
      case failed
      then show ?thesis using quiet_step [OF F D failed(3), of "DmBatch evs"] ev pc by (simp add: no_work)
    next
      case written
      note B = private_bytes [OF F _ written(2)]
      have "events_ok ctl w' (names @ []) evs"
        using B sv_filesD(7) [OF F] by (intro events_ok_mono [OF ev]) auto
      then show ?thesis
        using private_change [OF F D _ written(2), of "DmBatch evs"] sv_filesD(7) [OF F] pc by (simp add: no_work)
    qed
    then show ?thesis using pc by simp
  qed
qed

lemma events_ok_other:
  assumes ev: "events_ok ctl w names (int i # evs)" "i < length names" "distinct names"
    and B: "bytes_in v = (bytes_in w)(pipe_name (names ! i) ''_req'' := bs)" "w_pipes v ! ctl = w_pipes w ! ctl"
  shows "events_ok ctl v names evs"
proof -
  have "bytes_in v (pipe_name (names ! j) ''_req'') = bytes_in w (pipe_name (names ! j) ''_req'')"
    if "int j \<in> set evs" "j < length names" for j
  proof -
    have "j \<noteq> i" using ev(1) that by (auto simp: events_ok_def)
    then have "names ! j \<noteq> names ! i" using ev(2,3) that by (simp add: nth_eq_iff_index_eq)
    then show ?thesis using B(1) by (simp add: pipe_name_eq_iff)
  qed
  then show ?thesis using ev(1) B(2) unfolding events_ok_def by fastforce
qed

lemma request_read_keeps:
  assumes F: "sv_files lib ctl rep e w d names callers"
    and D: "sv_data lib ctl w names (DmRead i evs) sent served got" and lib: "lib_ok lib"
    and step: "daemon_step 0 d (with_plan p w) dm (DmRead i evs) = (dm', w')" "dm_pc dm = DmRead i evs"
  shows "(dm_pc dm' = DmBatch evs \<and> p \<noteq> [] \<or> dm_pc dm' = DmCall i
        (take (hf_sz_arg (lib (names ! i))) (bytes_in w (pipe_name (names ! i) ''_req''))) evs) \<and>
    (\<forall>x. bytes_in w' (pipe_name x ''_res'') = bytes_in w (pipe_name x ''_res'')) \<and> w_cap w' = w_cap w \<and>
    w_pipes w' ! rep = w_pipes w ! rep \<and>
    sv_files lib ctl rep e w' d names callers \<and>
    sv_data lib ctl w' names (dm_pc dm') sent served got"
proof -
  have i: "i < length names" and ev: "events_ok ctl w names (int i # evs)"
    using sv_dataD(2) [OF D] by simp_all
  let ?x = "names ! i" and ?n = "hf_sz_arg (lib (names ! i))"
  have pos: "0 < ?n" using lib by (simp add: lib_ok_def fun_ok_def)
  from sv_filesD(3) [OF F i] obtain fd q where e: "entry (d_req_fd d) i = Some fd" "entry (d_sz_arg d) i = Some ?n"
      and q: "w_fifos w (pipe_name ?x ''_req'') = Some q" "Option.bind (file_of w 0 fd) read_end = Some q"
    by (rule entry_okD)
  have b: "w_pipes w ! q = bytes_in w (pipe_name ?x ''_req'')" using q(1) by (simp add: bytes_in_def)
  have ne: "w_pipes w ! q \<noteq> []"
    using ev i by (auto simp: events_ok_def b)
  have R: "requests_ok lib ?x (w_pipes w ! q) [] (sent ?x) (map fst (served ?x))"
    using sv_dataD(3) [OF D, of ?x] by (simp add: b)
  note len = requests_recv(2) [OF R ne pos]
  obtain r bs v where W: "sys_read 0 fd ?n (with_plan p w) = Done (r, bs, v)"
    using sys_read_blocked [of 0 fd ?n "with_plan p w" q] q(2) ne
    by (cases "sys_read 0 fd ?n (with_plan p w)") auto
  from W q(2) show ?thesis
  proof (cases rule: read_cases)
    case failed
    then have s: "w' = sys_free v" "dm_pc dm' = DmBatch evs" using step e W by auto
    have "quiet w w'" using quiet_trans [OF failed(4) quiet_heap(1)] s(1) by simp
    then show ?thesis
      using quiet_step [OF F D, of w' "DmBatch evs"] events_ok_tl [OF ev] s(2) failed(2)
        quiet_files(2) [of w w'] by (simp add: no_work) (simp add: quiet_def)
  next
    case got
    then have s: "w' = v" "dm_pc dm' = DmCall i bs evs" using step e W len by auto
    note B = fifo_change [OF F got(3) q(1)]
    have evs: "events_ok ctl v names evs"
      by (rule events_ok_other [OF ev i sv_filesD(6) [OF F] B(1,2)])
    have "sv_data lib ctl v names (DmCall i bs evs) sent served got"
      using D B evs i len got(2) requests_recv(1) [OF R ne pos]
      by (auto simp: sv_data_def pipe_name_eq_iff)
    moreover have "w_cap v = w_cap w" using got(3) by (simp add: quiet_def pipe_set_def)
    ultimately show ?thesis
      using sv_files_pipe [OF F got(3)] s got(2) B(1,3) by (simp add: b pipe_name_eq_iff)
  qed
qed

text \<open>
  A reply: the step waits, or it adds the response, or nothing when the function returned null
  or \<open>write\<close> failed.
\<close>

lemma reply_outcome:
  assumes F: "sv_files lib ctl rep e w d names callers" and lib: "lib_ok lib"
    and pc: "i < length names" "length args = hf_sz_arg (lib (names ! i))"
      "ret = hf_foo (lib (names ! i)) args (hf_data (lib (names ! i)))"
    and step: "daemon_step 0 d (with_plan p w) dm (DmReply i args ret evs) = (dm', w')"
  obtains (waits) "dm' = dm" "w' = with_plan p w"
    | (replies) q r where "dm_pc dm' = DmBatch evs" "w_fifos w (pipe_name (names ! i) ''_res'') = Some q"
      "quiet (pipe_set q (w_pipes w ! q @ r) w) w'" "hf_sz_ret (lib (names ! i)) dvd length r"
      "r = response (lib (names ! i)) args \<or> r = [] \<and> p \<noteq> []"
proof -
  let ?f = "lib (names ! i)"
  note i = pc(1,2) and ret = pc(3)
  from sv_filesD(3) [OF F i(1)] obtain fd q where e: "entry (d_res_fd d) i = Some fd" "entry (d_sz_ret d) i = Some (hf_sz_ret ?f)"
      and q: "w_fifos w (pipe_name (names ! i) ''_res'') = Some q" "Option.bind (file_of w 0 fd) write_end = Some q"
    by (rule entry_okD)
  have same: "quiet (pipe_set q (w_pipes w ! q @ []) w) w'" if "quiet w v" "w' = sys_free v" for v
    using quiet_trans [OF that(1) quiet_heap(1)] that(2) by (simp add: pipe_set_same)
  show thesis
  proof (cases "ret = None \<or> hf_sz_ret ?f = 0")
    case True
    then have "dm_pc dm' = DmBatch evs" "w' = sys_free (with_plan p w)" "response ?f args = []"
      using step e ret by (auto simp: response_def split: option.splits)
    then show thesis using same [of "with_plan p w"] by (intro replies [OF _ q(1), of "[]"]) simp_all
  next
    case False
    then obtain r where r: "ret = Some r" "hf_sz_ret ?f \<noteq> 0" by auto
    have len: "hf_sz_ret ?f \<le> length r" using lib ret r(1) i(2) unfolding lib_ok_def fun_ok_def by metis
    then have dvd: "hf_sz_ret ?f dvd length (take (hf_sz_ret ?f) r)" by simp
    have resp: "take (hf_sz_ret ?f) r = response ?f args" using r(1) unfolding ret by (simp add: response_def)
    show thesis
    proof (cases "sys_write 0 fd (take (hf_sz_ret ?f) r) (with_plan p w)")
      case Blocked
      then show thesis using step e r len by (intro waits) auto
    next
      case (Done nv)
      then obtain n v where W: "sys_write 0 fd (take (hf_sz_ret ?f) r) (with_plan p w) = Done (n, v)" by (cases nv) auto
      have s: "dm_pc dm' = DmBatch evs" "w' = sys_free v" using step e r len W by auto
      from W q(2) show thesis
      proof (cases rule: write_cases)
        case failed
        then show thesis using same [of v] s by (intro replies [OF _ q(1), of "[]"]) simp_all
      next
        case written
        then show thesis
          using quiet_trans [OF written(2) quiet_heap(1)] s resp dvd
          by (intro replies [OF _ q(1), of "take (hf_sz_ret ?f) r"]) simp_all
      qed
    qed
  qed
qed

text \<open>What a reply does to the histories.\<close>

lemma reply_logged:
  assumes F: "sv_files lib ctl rep e w d names callers"
    and D: "sv_data lib ctl w names (DmReply i args ret evs) sent served got"
    and q: "w_fifos w (pipe_name (names ! i) ''_res'') = Some q"
    and Q: "quiet (pipe_set q (w_pipes w ! q @ r) w) w'"
    and r: "hf_sz_ret (lib (names ! i)) dvd length r" "r = response (lib (names ! i)) args \<or> r = []"
    and pc: "pc = DmReply i args ret evs"
  shows "log_reply names w w' pc (DmBatch evs) served = served(names ! i := served (names ! i) @ [(args, r)]) \<and>
    sv_files lib ctl rep e w' d names callers \<and>
    sv_data lib ctl w' names (DmBatch evs) sent (served(names ! i := served (names ! i) @ [(args, r)])) got"
proof -
  let ?x = "names ! i"
  let ?served = "served(?x := served ?x @ [(args, r)])"
  note B = fifo_change [OF F Q q]
  have b: "w_pipes w ! q = bytes_in w (pipe_name ?x ''_res'')" using q by (simp add: bytes_in_def)
  have "events_ok ctl w names evs" using sv_dataD(2) [OF D] by simp
  then have evs: "events_ok ctl w' (names @ []) evs"
    by (rule events_ok_mono) (use B in \<open>auto simp: pipe_name_eq_iff\<close>)
  have "requests_ok lib y (bytes_in w' (pipe_name y ''_req'')) [] (sent y) (map fst (?served y))" for y
    using sv_dataD(3) [OF D, of y] requests_served [OF sv_dataD(3) [OF D, of ?x]] B(1)
    by (cases "y = ?x") (simp_all add: pipe_name_eq_iff)
  moreover have "responses_ok lib y (bytes_in w' (pipe_name y ''_res'')) (?served y) (got y)" for y
    using sv_dataD(4) [OF D, of y] responses_put [OF sv_dataD(4) [OF D, of ?x], of r args] r B(1)
    by (cases "y = ?x") (auto simp: pipe_name_eq_iff b)
  ultimately have "sv_data lib ctl w' names (DmBatch evs) sent ?served got"
    using sv_dataD(1) [OF D] B(2) evs by (simp add: sv_data_def)
  moreover have "bytes_in w' (pipe_name ?x ''_res'') = bytes_in w (pipe_name ?x ''_res'') @ r" using B(1) by (simp add: b)
  ultimately show ?thesis
    using sv_files_pipe [OF F Q] pc by (simp add: log_reply_def Let_def)
qed

lemma reply_keeps:
  assumes F: "sv_files lib ctl rep e w d names callers"
    and D: "sv_data lib ctl w names (DmReply i args ret evs) sent served got" and lib: "lib_ok lib"
    and step: "daemon_step 0 d (with_plan p w) dm (DmReply i args ret evs) = (dm', w')" "dm_pc dm = DmReply i args ret evs"
  shows "(dm' = dm \<and> quiet w w' \<or> dm_pc dm' = DmBatch evs \<and>
      (\<exists>r. (r = response (lib (names ! i)) args \<or> r = [] \<and> p \<noteq> []) \<and>
       log_reply names w w' (dm_pc dm) (dm_pc dm') served =
         served(names ! i := served (names ! i) @ [(args, r)]))) \<and>
    sv_files lib ctl rep e w' d names callers \<and>
    sv_data lib ctl w' names (dm_pc dm') sent (log_reply names w w' (dm_pc dm) (dm_pc dm') served) got"
proof -
  have pc: "i < length names" "length args = hf_sz_arg (lib (names ! i))"
      "ret = hf_foo (lib (names ! i)) args (hf_data (lib (names ! i)))"
    using sv_dataD(2) [OF D] by simp_all
  from F lib pc step(1) show ?thesis
  proof (cases rule: reply_outcome)
    case waits
    then show ?thesis using F D step(2) quiet_files [of w "with_plan p w"] by (simp add: log_reply_def)
  next
    case (replies q r)
    then have "r = response (lib (names ! i)) args \<or> r = []" by blast
    from reply_logged [OF F D replies(2-4) this step(2)] show ?thesis using replies(1,5) by auto
  qed
qed

text \<open>The next event of a batch.\<close>

lemma batch_keeps:
  assumes F: "sv_files lib ctl rep e w d names callers"
    and D: "sv_data lib ctl w names (DmBatch evs) sent served got"
    and p: "p = [] \<or> \<not> at_control (DmBatch evs)"
    and step: "daemon_step 0 d (with_plan p w) dm (DmBatch evs) = (dm', w')" "dm_pc dm = DmBatch evs"
  shows "sv_files lib ctl rep e w' d names callers \<and> sv_data lib ctl w' names (dm_pc dm') sent served got"
proof (cases evs)
  case Nil
  then show ?thesis
    using step quiet_step [OF F D, of w' "dm_pc dm'"] by (auto simp: no_work split: if_splits)
next
  case (Cons ev evs')
  show ?thesis
  proof (cases "ev = -1")
    case True
    then show ?thesis
      using control_read_keeps [OF F, of evs' sent served got dm dm' w'] D step p Cons by auto
  next
    case False
    obtain ok v where A: "sys_alloc (with_plan p w) = (ok, v)" by fastforce
    have s: "w' = v" "dm_pc dm' = (if ok then DmRead (nat ev) evs' else DmBatch evs')"
      using step Cons False A by (auto split: if_splits)
    have "events_ok ctl w names (ev # evs')" using sv_dataD(2) [OF D] Cons by simp
    then have "pc_ok lib ctl w names (dm_pc dm')"
      using s(2) False by (auto simp: events_ok_def)
    then show ?thesis
      using quiet_step [OF F D, of w' "dm_pc dm'"] quiet_heap(2) [OF A] s by (auto simp: no_work split: if_splits)
  qed
qed

text \<open>All steps of the daemon.\<close>

lemma daemon_keeps:
  assumes F: "sv_files lib ctl rep e w d names callers" and lib: "lib_ok lib"
    and D: "sv_data lib ctl w names (dm_pc dm) sent served got"
    and p: "p = [] \<or> \<not> at_control (dm_pc dm)"
    and step: "daemon_step 0 d (with_plan p w) dm (dm_pc dm) = (dm', w')"
  shows "sv_files lib ctl rep e w' d names callers \<and>
    sv_data lib ctl w' names (dm_pc dm') sent (log_reply names w w' (dm_pc dm) (dm_pc dm') served) got"
proof (cases "dm_pc dm")
  case (DmBatch evs)
  then show ?thesis
    using batch_keeps [OF F, of evs sent served got p dm dm' w'] D p step by (simp add: log_reply_def)
next
  case (DmControl r evs)
  then show ?thesis
    using control_reply_keeps [OF F, of r evs sent served got p dm dm' w'] D step by (auto simp: log_reply_def)
next
  case (DmRead i evs)
  then show ?thesis
    using request_read_keeps [OF F, of i evs sent served got p dm dm' w'] D lib step by (auto simp: log_reply_def)
next
  case (DmCall i args evs)
  have pc: "i < length names" "length args = hf_sz_arg (lib (names ! i))" "events_ok ctl w names evs"
    using sv_dataD(2) [OF D] DmCall by simp_all
  from sv_filesD(3) [OF F pc(1)]
  have "entry (d_foo d) i = Some (hf_foo (lib (names ! i)))" "entry (d_user_data d) i = Some (hf_data (lib (names ! i)))"
    by (elim entry_okD; simp)+
  then have "w' = with_plan p w" "dm_pc dm' = DmReply i args (hf_foo (lib (names ! i)) args (hf_data (lib (names ! i)))) evs"
    using step DmCall by auto
  then show ?thesis
    using quiet_step [OF F D, of w' "dm_pc dm'"] pc DmCall by (simp add: log_reply_def fun_eq_iff)
next
  case (DmReply i args ret evs)
  then show ?thesis
    using reply_keeps [OF F, of i args ret evs sent served got p dm dm' w'] D lib step by auto
qed (use F D step quiet_files [of w "with_plan p w"] in \<open>auto simp: log_reply_def\<close>)

section \<open>The invariant of all reachable states\<close>

lemma reported_events:
  assumes F: "sv_files lib ctl rep e w d names callers" and evs: "epoll_reports 0 d w evs"
  shows "events_ok ctl w names evs"
proof -
  note K = disp_okD [OF sv_filesD(2) [OF F]]
  have ready: "\<exists>q. (q, ev) \<in> set (watched ctl w names) \<and> w_pipes w ! q \<noteq> []" if "ev \<in> set evs" for ev
  proof -
    have "ev \<in> snd ` set (filter (\<lambda>(q, dat). w_pipes w ! q \<noteq> []) (watched ctl w names))"
      using evs that K(1,3) unfolding epoll_reports_def epoll_ready_def by (simp add: subset_iff image_iff)
    then show ?thesis by auto
  qed
  have pipe: "w_pipes w ! the (w_fifos w (pipe_name (names ! i) ''_req'')) = bytes_in w (pipe_name (names ! i) ''_req'')"
    if "i < length names" for i
    using sv_filesD(3) [OF F that] by (auto simp: entry_ok_def bytes_in_def)
  have "ev = -1 \<and> w_pipes w ! ctl \<noteq> [] \<or>
      (\<exists>i < length names. ev = int i \<and> bytes_in w (pipe_name (names ! i) ''_req'') \<noteq> [])" if "ev \<in> set evs" for ev
    using ready [OF that] pipe by (auto simp: watched_def)
  then show ?thesis using evs unfolding events_ok_def epoll_reports_def by blast
qed

lemma request_reported:
  assumes F: "sv_files lib ctl rep e w d names callers" and i: "i < length names"
    and ne: "bytes_in w (pipe_name (names ! i) ''_req'') \<noteq> []"
  shows "epoll_reports 0 d w [int i]"
proof -
  note K = disp_okD [OF sv_filesD(2) [OF F]]
  from sv_filesD(3) [OF F i] obtain q where q: "w_fifos w (pipe_name (names ! i) ''_req'') = Some q"
    by (rule entry_okD)
  have "(q, int i) \<in> set (watched ctl w names)"
    using i q by (auto simp: watched_def image_iff intro!: bexI [of _ i])
  moreover have "w_pipes w ! q \<noteq> []" using ne q by (simp add: bytes_in_def)
  ultimately have "int i \<in> set (epoll_ready 0 d w)"
    using K(1,3) by (force simp: epoll_ready_def)
  then show ?thesis by (simp add: epoll_reports_def MAX_EPOLL_EVENTS_def)
qed

lemma wait_keeps:
  assumes "sv_files lib ctl rep e w d names callers" "sv_data lib ctl w names DmWait sent served got" "epoll_reports 0 d w evs"
  shows "sv_data lib ctl w names (DmBatch evs) sent served got"
  using assms(2) reported_events [OF assms(1,3)] by (simp add: sv_data_def no_work)

lemma sv_files_plan [simp]: "sv_files lib ctl rep e (with_plan p w) = sv_files lib ctl rep e w"
  by (rule quiet_files(1)) simp

lemma sv_data_plan [simp]: "sv_data lib ctl (with_plan p w) = sv_data lib ctl w"
  by (rule quiet_files(4)) simp

lemma sv_step_keeps:
  assumes "lib_ok lib" "sv_step lib s s'" "sv_inv lib ctl rep e s"
  shows "sv_inv lib ctl rep e s'"
proof -
  have plan: "w_plan (sv_world s) = []"
    and F: "sv_files lib ctl rep e (sv_world s) (sv_disp s) (sv_names s) (sv_callers s)"
    and D: "sv_data lib ctl (sv_world s) (sv_names s) (dm_pc (sv_daemon s)) (sv_sent s) (sv_served s) (sv_got s)"
    using assms(3) by (simp_all add: sv_inv_def)
  from assms(2) show ?thesis
  proof cases
    case (attach x p ret d' w')
    show ?thesis using attach_keeps [OF F D attach(2,3)] by (simp add: sv_inv_def attach(1))
  next
    case (attach_legacy x foo p ret d' w')
    show ?thesis using attach_legacy_keeps [OF F D attach_legacy(2-5)] by (simp add: sv_inv_def attach_legacy(1))
  next
    case (link pid x p c w')
    show ?thesis using link_keeps [OF F D link(2,3)] by (simp add: sv_inv_def link(1))
  next
    case (link_null pid x p w')
    show ?thesis using link_null_keeps [OF F D link_null(2,3)] by (simp add: sv_inv_def link_null(1))
  next
    case (unlink x pid c p ret w')
    show ?thesis using unlink_keeps [OF F D unlink(2,4)] by (simp add: sv_inv_def unlink(1))
  next
    case (call x pid c arg p ret w')
    show ?thesis using call_keeps [OF F D assms(1) call(2-4)] by (simp add: sv_inv_def call(1))
  next
    case (respond x pid c p ret bytes w')
    show ?thesis using respond_keeps [OF F D respond(2,3)] by (simp add: sv_inv_def respond(1))
  next
    case (wait evs)
    show ?thesis
      using wait_keeps [OF F D [unfolded wait(3)] wait(2)] F plan wait(2,3)
      by (simp add: sv_inv_def wait(1) daemon_wait_def)
  next
    case (daemon p dm' w')
    show ?thesis using daemon_keeps [OF F assms(1) D daemon(2,3)] by (simp add: sv_inv_def daemon(1))
  next
    case (stop p ret w')
    show ?thesis using stop_keeps [OF F D stop(2)] by (simp add: sv_inv_def stop(1))
  qed
qed

lemma sv_reach_inv:
  assumes "lib_ok lib" "sv_reach lib s"
  shows "\<exists>ctl rep e. sv_inv lib ctl rep e s"
  using assms(2)
proof induction
  case (start w n s)
  then obtain d w' where C: "w_plan w = []" "fifos_ok w" "\<forall>path. bytes_in w path = []"
      "create_host_function_dispatcher 0 n w = Some (Some d, True, w')"
      and s: "s = \<lparr>sv_world = w', sv_disp = d, sv_daemon = \<lparr>dm_pc = DmWait, dm_exit = False\<rparr>, sv_names = [],
         sv_callers = [], sv_sent = (\<lambda>_. []), sv_served = (\<lambda>_. []), sv_got = (\<lambda>_. []), sv_lost = 0\<rparr>"
    by (auto simp: sv_start_def)
  note N = create_files [OF C(1,2,4), of "[]" lib]
  then have "bytes_in w' path = []" for path using C(3) by (simp add: extends_def)
  then have "sv_inv lib (length (w_pipes w)) (Suc (length (w_pipes w))) (length (w_epolls w)) s"
    using N by (simp add: s sv_inv_def sv_data_def requests_ok_def responses_ok_def)
  then show ?case by blast
next
  case (step s s')
  then show ?case using sv_step_keeps [OF assms(1)] by blast
qed

end
