(* ===== verification/Function_Service_Props.thy ===== *)
theory Function_Service_Props
  imports Function_Service_Daemon
begin

text \<open>
  The properties of the service: its type invariant, exactly-once service in order, and
  that a waiting request is served within five steps of the daemon; and how deleting a
  dispatcher overtakes its daemon.
\<close>

section \<open>The daemon when no call fails\<close>

definition daemon_next :: "service \<Rightarrow> service" where
  "daemon_next s =
     (let (dm', w') = daemon_step 0 (sv_disp s) (with_plan [] (sv_world s)) (sv_daemon s) (dm_pc (sv_daemon s))
      in s\<lparr>sv_daemon := dm', sv_world := with_plan [] w',
           sv_served := log_reply (sv_names s) (sv_world s) w' (dm_pc (sv_daemon s)) (dm_pc dm') (sv_served s)\<rparr>)"

lemma daemon_next_step: "sv_step lib s (daemon_next s)"
  unfolding daemon_next_def by (auto split: prod.split intro!: sv_step.daemon [where p = "[]"])

lemma daemon_next_steps: "(sv_step lib ^^ k) s ((daemon_next ^^ k) s)"
  by (induction k) (auto intro: relpowp_Suc_I daemon_next_step)

text \<open>What a step of the daemon never changes.\<close>

lemma daemon_next_frame:
  "sv_disp (daemon_next s) = sv_disp s" "sv_names (daemon_next s) = sv_names s"
  "sv_callers (daemon_next s) = sv_callers s" "sv_sent (daemon_next s) = sv_sent s" "sv_got (daemon_next s) = sv_got s"
  by (auto simp: daemon_next_def split: prod.split)

lemma sv_invD:
  assumes "sv_inv lib ctl rep e s"
  shows "w_plan (sv_world s) = []" "sv_files lib ctl rep e (sv_world s) (sv_disp s) (sv_names s) (sv_callers s)"
    "sv_data lib ctl (sv_world s) (sv_names s) (dm_pc (sv_daemon s)) (sv_sent s) (sv_served s) (sv_got s)"
  using assms by (simp_all add: sv_inv_def)

lemma next_alloc:
  assumes "dm_pc (sv_daemon s) = DmBatch (int i # evs)"
  shows "dm_pc (sv_daemon (daemon_next s)) = DmRead i evs" "sv_served (daemon_next s) = sv_served s"
    "quiet (sv_world s) (sv_world (daemon_next s))"
proof -
  let ?w = "with_plan [] (sv_world s)"
  have "daemon_step 0 (sv_disp s) ?w (sv_daemon s) (DmBatch (int i # evs)) =
      ((sv_daemon s)\<lparr>dm_pc := DmRead i evs\<rparr>, ?w\<lparr>w_heap := w_heap ?w + 1\<rparr>)"
    by (simp add: sys_alloc_ok)
  then show "dm_pc (sv_daemon (daemon_next s)) = DmRead i evs" "sv_served (daemon_next s) = sv_served s"
    "quiet (sv_world s) (sv_world (daemon_next s))"
    using assms by (simp_all add: daemon_next_def log_reply_def quiet_def)
qed

lemma next_read:
  assumes "lib_ok lib" "sv_inv lib ctl rep e s" "dm_pc (sv_daemon s) = DmRead i evs"
  shows "dm_pc (sv_daemon (daemon_next s)) = DmCall i (take (hf_sz_arg (lib (sv_names s ! i)))
      (bytes_in (sv_world s) (pipe_name (sv_names s ! i) ''_req''))) evs" "sv_served (daemon_next s) = sv_served s"
    "bytes_in (sv_world (daemon_next s)) (pipe_name x ''_res'') = bytes_in (sv_world s) (pipe_name x ''_res'')"
    "w_cap (sv_world (daemon_next s)) = w_cap (sv_world s)"
    "w_pipes (sv_world (daemon_next s)) ! rep = w_pipes (sv_world s) ! rep"
proof -
  obtain dm' w' where st: "daemon_step 0 (sv_disp s) (with_plan [] (sv_world s)) (sv_daemon s) (DmRead i evs) = (dm', w')"
    by fastforce
  note I = sv_invD [OF assms(2)]
  note R = request_read_keeps [OF I(2) I(3) [unfolded assms(3)] assms(1) st assms(3)]
  have "daemon_next s = s\<lparr>sv_daemon := dm', sv_world := with_plan [] w', sv_served := sv_served s\<rparr>"
    using st assms(3) by (simp add: daemon_next_def log_reply_def)
  then show "dm_pc (sv_daemon (daemon_next s)) = DmCall i (take (hf_sz_arg (lib (sv_names s ! i)))
      (bytes_in (sv_world s) (pipe_name (sv_names s ! i) ''_req''))) evs" "sv_served (daemon_next s) = sv_served s"
    "bytes_in (sv_world (daemon_next s)) (pipe_name x ''_res'') = bytes_in (sv_world s) (pipe_name x ''_res'')"
    "w_cap (sv_world (daemon_next s)) = w_cap (sv_world s)"
    "w_pipes (sv_world (daemon_next s)) ! rep = w_pipes (sv_world s) ! rep"
    using R by simp_all
qed

lemma next_call:
  assumes "sv_inv lib ctl rep e s" "dm_pc (sv_daemon s) = DmCall i args evs"
  shows "dm_pc (sv_daemon (daemon_next s)) =
      DmReply i args (hf_foo (lib (sv_names s ! i)) args (hf_data (lib (sv_names s ! i)))) evs"
    "sv_served (daemon_next s) = sv_served s" "sv_world (daemon_next s) = with_plan [] (sv_world s)"
proof -
  note I = sv_invD [OF assms(1)]
  have i: "i < length (sv_names s)" using sv_dataD(2) [OF I(3)] assms(2) by simp
  from sv_filesD(3) [OF I(2) i]
  have "entry (d_foo (sv_disp s)) i = Some (hf_foo (lib (sv_names s ! i)))"
    "entry (d_user_data (sv_disp s)) i = Some (hf_data (lib (sv_names s ! i)))"
    by (elim entry_okD; simp)+
  then show "dm_pc (sv_daemon (daemon_next s)) =
      DmReply i args (hf_foo (lib (sv_names s ! i)) args (hf_data (lib (sv_names s ! i)))) evs"
    "sv_served (daemon_next s) = sv_served s" "sv_world (daemon_next s) = with_plan [] (sv_world s)"
    using assms(2) by (simp_all add: daemon_next_def log_reply_def with_plan_def)
qed

lemma next_reply:
  assumes "lib_ok lib" "sv_inv lib ctl rep e s" "dm_pc (sv_daemon s) = DmReply i args ret evs"
    and room: "length (bytes_in (sv_world s) (pipe_name (sv_names s ! i) ''_res'')) +
      length (response (lib (sv_names s ! i)) args) \<le> w_cap (sv_world s)"
  shows "dm_pc (sv_daemon (daemon_next s)) = DmBatch evs \<and> sv_served (daemon_next s) =
    (sv_served s)(sv_names s ! i := sv_served s (sv_names s ! i) @ [(args, response (lib (sv_names s ! i)) args)])"
proof -
  let ?w = "with_plan [] (sv_world s)" and ?f = "lib (sv_names s ! i)"
  obtain dm' w' where st: "daemon_step 0 (sv_disp s) ?w (sv_daemon s) (DmReply i args ret evs) = (dm', w')"
    by fastforce
  note I = sv_invD [OF assms(2)]
  have i: "i < length (sv_names s)" and ret: "ret = hf_foo ?f args (hf_data ?f)"
      and len: "length args = hf_sz_arg ?f"
    using sv_dataD(2) [OF I(3)] assms(3) by simp_all
  from sv_filesD(3) [OF I(2) i] obtain fd q where
      e: "entry (d_res_fd (sv_disp s)) i = Some fd" "entry (d_sz_ret (sv_disp s)) i = Some (hf_sz_ret ?f)"
      and q: "w_fifos (sv_world s) (pipe_name (sv_names s ! i) ''_res'') = Some q"
        "Option.bind (file_of (sv_world s) 0 fd) write_end = Some q"
    by (rule entry_okD)
  have "dm_pc dm' = DmBatch evs"
  proof (cases "ret = None \<or> hf_sz_ret ?f = 0")
    case True
    then show ?thesis using st e by (auto split: option.splits)
  next
    case False
    then obtain r where r: "ret = Some r" by auto
    then have "hf_sz_ret ?f \<le> length r"
      using assms(1) ret len unfolding lib_ok_def fun_ok_def by metis
    moreover have "take (hf_sz_ret ?f) r = response ?f args" using r unfolding ret by (simp add: response_def)
    ultimately show ?thesis
      using st e r False room q sys_write_ok [of ?w 0 fd q "take (hf_sz_ret ?f) r"]
      by (auto simp: bytes_in_def)
  qed
  moreover have "dm' \<noteq> sv_daemon s" using calculation assms(3) by auto
  ultimately show ?thesis
    using reply_keeps [OF I(2) I(3) [unfolded assms(3)] assms(1) st assms(3)] st assms(3)
    by (auto simp: daemon_next_def)
qed

text \<open>Four steps serve the request at the front of the batch.\<close>

lemma four_steps:
  assumes "lib_ok lib" "sv_inv lib ctl rep e s" "dm_pc (sv_daemon s) = DmBatch (int i # evs)"
    and x: "x = sv_names s ! i" "arg = take (hf_sz_arg (lib x)) (bytes_in (sv_world s) (pipe_name x ''_req''))"
    and room: "length (bytes_in (sv_world s) (pipe_name x ''_res'')) + length (response (lib x) arg) \<le> w_cap (sv_world s)"
  shows "\<exists>s'. (sv_step lib ^^ 4) s s' \<and> dm_pc (sv_daemon s') = DmBatch evs \<and>
    sv_served s' = (sv_served s)(x := sv_served s x @ [(arg, response (lib x) arg)])"
proof -
  let ?a = "daemon_next s" let ?b = "daemon_next ?a" let ?c = "daemon_next ?b" let ?d = "daemon_next ?c"
  note keep = sv_step_keeps [OF assms(1) daemon_next_step]
  note A = next_alloc [OF assms(3)] and Ia = keep [OF assms(2)]
  note Qa = quiet_files(2) [OF A(3)]
  have cap: "w_cap (sv_world ?a) = w_cap (sv_world s)" using A(3) by (simp add: quiet_def)
  note B = next_read [OF assms(1) Ia A(1)] and Ib = keep [OF Ia]
  note C = next_call [OF Ib B(1)] and Ic = keep [OF Ib]
  note frame = daemon_next_frame
  have "dm_pc (sv_daemon ?d) = DmBatch evs \<and>
      sv_served ?d = (sv_served s)(x := sv_served s x @ [(arg, response (lib x) arg)])"
    using next_reply [OF assms(1) Ic C(1)] room x A(2) B(2-4) C(2,3) Qa cap by (simp add: frame)
  moreover have "(sv_step lib ^^ 4) s ?d"
    using daemon_next_steps [of 4 lib s] by (simp add: numeral_eq_Suc)
  ultimately show ?thesis by blast
qed

lemma wait_reports:
  assumes "sv_inv lib ctl rep e s" "i < length (sv_names s)"
    and "bytes_in (sv_world s) (pipe_name (sv_names s ! i) ''_req'') \<noteq> []"
  shows "epoll_reports 0 (sv_disp s) (sv_world s) [int i]"
  by (rule request_reported [OF sv_invD(2) [OF assms(1)] assms(2,3)])

section \<open>Sizes that do not match\<close>

text \<open>
  A function without argument: the call succeeds and leaves everything as it is, so that no
  daemon ever learns of it.
\<close>

lemma zero_argument_lost:
  assumes "w_plan w = []" "Option.bind (file_of w pid (c_req_fd p)) write_end = Some q"
    and "length (w_pipes w ! q) \<le> w_cap w" "c_sz_arg p = 0"
  shows "call_host_function pid p arg w = Done (0, w)"
  using sys_write_ok [OF assms(1,2), of "[]"] assms(3,4) by (simp add: call_host_function_def pipe_set_same)

text \<open>
  A receiver with larger arguments than its callers: the function is called with what
  several calls wrote.
\<close>

lemma mismatch_is_executed:
  assumes "w_plan w = []" "entry (d_req_fd d) i = Some fd" "entry (d_sz_arg d) i = Some (length a + length b)"
    and "Option.bind (file_of w pid fd) read_end = Some q" "w_pipes w ! q = a @ b @ rest" "a \<noteq> []"
  shows "fst (daemon_step pid d w dm (DmRead i evs)) = dm\<lparr>dm_pc := DmCall i (a @ b) evs\<rparr>"
  using assms sys_read_ok [OF assms(1,4), of "length a + length b"] by simp

section \<open>Properties\<close>

text \<open>
  C27: exactly once and in order. In every reachable state, whatever the interleaving of
  callers and daemon and whichever system calls fail, the calls of a function that returned
  0 are the requests that were served, followed by the one the daemon is working on and
  those that wait in the request FIFO, in the order of the calls. Every request was served
  once, its response was the one the function gives for its argument (or was not written,
  because \<open>write\<close> failed), and what the callers received, followed by what waits in the
  response FIFO, are these responses in the same order.
\<close>

theorem service_exactly_once:
  assumes "lib_ok lib" "sv_reach lib s"
  shows "sv_sent s x = map fst (sv_served s x) @ in_work (sv_names s) (dm_pc (sv_daemon s)) x @
      chunks (hf_sz_arg (lib x)) (bytes_in (sv_world s) (pipe_name x ''_req'')) \<and>
    sv_got s x @ bytes_in (sv_world s) (pipe_name x ''_res'') = concat (map snd (sv_served s x)) \<and>
    (\<forall>(arg, r) \<in> set (sv_served s x). r = [] \<or> r = response (lib x) arg)"
proof -
  obtain ctl rep e where I: "sv_inv lib ctl rep e s" using sv_reach_inv [OF assms] by blast
  note D = sv_dataD(3,4) [OF sv_invD(3) [OF I], of x]
  then show ?thesis by (simp add: requests_ok_def responses_ok_def)
qed

text \<open>
  C28: the type invariant. In every reachable state the daemon has met no undefined
  behaviour and is at a program point with values of the right shape; the count of the
  dispatcher is the number of attached names, which are different; each of its entries has
  been written, with the function, the user data and the sizes it was attached with, and
  descriptors that are open on the two FIFOs of its name; and so are the descriptors of all
  callers.
\<close>

theorem service_well_formed:
  assumes "lib_ok lib" "sv_reach lib s"
  shows "dm_pc (sv_daemon s) \<noteq> DmFault \<and> d_cnt_func (sv_disp s) = length (sv_names s) \<and>
    distinct (sv_names s) \<and>
    (\<forall>i < length (sv_names s). entry_ok lib (sv_world s) (sv_disp s) i (sv_names s ! i)) \<and>
    (\<forall>(x, pid, c) \<in> set (sv_callers s). caller_of lib (sv_world s) x pid c) \<and>
    (\<exists>ctl. pc_ok lib ctl (sv_world s) (sv_names s) (dm_pc (sv_daemon s)))"
proof -
  obtain ctl rep e where I: "sv_inv lib ctl rep e s" using sv_reach_inv [OF assms] by blast
  note I' = sv_invD(2,3) [OF I] and K = disp_okD(4,5) [OF sv_filesD(2) [OF sv_invD(2) [OF I]]]
  have "pc_ok lib ctl (sv_world s) (sv_names s) (dm_pc (sv_daemon s))" by (rule sv_dataD(2) [OF I'(2)])
  moreover from this have "dm_pc (sv_daemon s) \<noteq> DmFault" by auto
  ultimately show ?thesis using I'(1) K by (auto simp: sv_files_def)
qed

lemma serves_waiting:
  assumes "lib_ok lib" "sv_reach lib s" "dm_pc (sv_daemon s) = DmWait"
    and "x \<in> set (sv_names s)" "bytes_in (sv_world s) (pipe_name x ''_req'') \<noteq> []"
    and "length (bytes_in (sv_world s) (pipe_name x ''_res'')) + hf_sz_ret (lib x) \<le> w_cap (sv_world s)"
  shows "\<exists>s' arg rest. drop (length (sv_served s x)) (sv_sent s x) = arg # rest \<and>
    (sv_step lib ^^ 5) s s' \<and> dm_pc (sv_daemon s') = DmBatch [] \<and>
    sv_served s' = (sv_served s)(x := sv_served s x @ [(arg, response (lib x) arg)])"
proof -
  obtain ctl rep e where I: "sv_inv lib ctl rep e s" using sv_reach_inv [OF assms(1,2)] by blast
  obtain i where i: "i < length (sv_names s)" "x = sv_names s ! i"
    using assms(4) by (auto simp: in_set_conv_nth)
  let ?t = "s\<lparr>sv_daemon := daemon_wait 0 (sv_disp s) [int i] (sv_world s) (sv_daemon s)\<rparr>"
  have rep: "epoll_reports 0 (sv_disp s) (sv_world s) [int i]"
    using wait_reports [OF I i(1)] assms(5) i(2) by simp
  have st: "sv_step lib s ?t" using sv_step.wait [OF rep assms(3)] .
  have pc: "dm_pc (sv_daemon ?t) = DmBatch [int i]" using rep assms(3) by (simp add: daemon_wait_def)
  let ?n = "hf_sz_arg (lib x)" and ?req = "bytes_in (sv_world s) (pipe_name x ''_req'')"
  have pos: "0 < ?n" and len: "length (response (lib x) a) \<le> hf_sz_ret (lib x)" for a
    using assms(1) by (auto simp: lib_ok_def fun_ok_def response_def split: option.splits)
  have R: "requests_ok lib x ?req [] (sv_sent s x) (map fst (sv_served s x))"
    using sv_dataD(3) [OF sv_invD(3) [OF I], of x] assms(3) by simp
  have "length (bytes_in (sv_world s) (pipe_name x ''_res'')) + length (response (lib x) (take ?n ?req)) \<le> w_cap (sv_world s)"
    using assms(6) len [of "take ?n ?req"] by simp
  then obtain s' where s': "(sv_step lib ^^ 4) ?t s'" "dm_pc (sv_daemon s') = DmBatch []"
      "sv_served s' = (sv_served s)(x := sv_served s x @ [(take ?n ?req, response (lib x) (take ?n ?req))])"
    using four_steps [OF assms(1) sv_step_keeps [OF assms(1) st I] pc, of x "take ?n ?req"] i(2) by auto
  have "(sv_step lib ^^ Suc 4) s s'" using relpowp_Suc_I2 [OF st s'(1)] .
  then have five: "(sv_step lib ^^ 5) s s'" by simp
  have req: "?n dvd length ?req" "sv_sent s x = map fst (sv_served s x) @ chunks ?n ?req"
    using R by (simp_all add: requests_ok_def)
  then have "chunks ?n ?req \<noteq> []" using chunks_Nil_iff [of ?n ?req] assms(5) pos by blast
  then have "chunks ?n ?req = take ?n ?req # chunks ?n (drop ?n ?req)"
    using pipe_queue.recv_msgs [OF req(1)] unfolding fst_conv snd_conv by blast
  then have nxt: "drop (length (sv_served s x)) (sv_sent s x) = take ?n ?req # chunks ?n (drop ?n ?req)"
    unfolding req(2) by simp
  show ?thesis by (intro exI conjI) (rule nxt, rule five, rule s'(2), rule s'(3))
qed


text \<open>
  C30: deleting overtakes the daemon. When the daemon answers a control message in the
  middle of a batch, it still has the other events of the batch to serve, with the arrays
  of the dispatcher; but as soon as the answer is written,
  \<open>delete_host_function_dispatcher\<close> returns from its \<open>read\<close> and frees the dispatcher.
\<close>

theorem delete_overtakes_daemon:
  assumes "lib_ok lib" "sv_reach lib s" "dm_pc (sv_daemon s) = DmControl r (ev # evs)"
    and "\<And>q. file_of (sv_world s) 0 (snd (d_from_daemon (sv_disp s))) = Some (PipeWrite q) \<Longrightarrow>
      length (w_pipes (sv_world s) ! q) + 4 \<le> w_cap (sv_world s)"
  shows "\<exists>s' n bs w'. sv_step lib s s' \<and> sv_reach lib s' \<and> dm_pc (sv_daemon s') = DmBatch (ev # evs) \<and>
    delete_wait 0 (sv_disp s') (sv_world s') = Done (n, bs, w') \<and> bs \<noteq> []"
proof -
  obtain ctl rep e where I: "sv_inv lib ctl rep e s" using sv_reach_inv [OF assms(1,2)] by blast
  note F = sv_invD(2) [OF I]
  have q: "file_of (sv_world s) 0 (snd (d_from_daemon (sv_disp s))) = Some (PipeWrite rep)"
      "file_of (sv_world s) 0 (fst (d_from_daemon (sv_disp s))) = Some (PipeRead rep)" "rep < length (w_pipes (sv_world s))"
    using sv_filesD(2) [OF F] by (simp_all add: disp_ok_def)
  let ?s = "daemon_next s" and ?w = "with_plan [] (sv_world s)"
  have W: "sys_write 0 (snd (d_from_daemon (sv_disp s))) (int_bytes r) ?w =
      Done (4, pipe_set rep (w_pipes (sv_world s) ! rep @ int_bytes r) ?w)"
    using q(1) assms(4) [OF q(1)] sys_write_ok [of ?w 0 "snd (d_from_daemon (sv_disp s))" rep "int_bytes r"]
    by (simp add: int_bytes_def)
  have s': "dm_pc (sv_daemon ?s) = DmBatch (ev # evs)" "sv_disp ?s = sv_disp s"
      "sv_world ?s = with_plan [] (pipe_set rep (w_pipes (sv_world s) ! rep @ int_bytes r) ?w)"
    using assms(3) W by (simp_all add: daemon_next_def)
  have "file_of (sv_world ?s) = file_of (sv_world s)" unfolding s'(3)
    by (simp add: pipe_set_def file_of_def fun_eq_iff)
  then have f: "Option.bind (file_of (sv_world ?s) 0 (fst (d_from_daemon (sv_disp ?s)))) read_end = Some rep"
    using q(2) s'(2) by simp
  have p: "w_pipes (sv_world ?s) ! rep = w_pipes (sv_world s) ! rep @ int_bytes r" "int_bytes r \<noteq> []"
    using q(3) unfolding s'(3) by (simp_all add: pipe_set_def int_bytes_def numeral_eq_Suc)
  have "w_plan (sv_world ?s) = []" unfolding s'(3) by simp
  note R = sys_read_ok [OF this f, of 4]
  show ?thesis
    using daemon_next_step [of lib s] sv_reach.step [OF assms(2) daemon_next_step] s'(1) R p
    by (intro exI [of _ ?s]) (auto simp: delete_wait_def)
qed


section \<open>Deleting a dispatcher\<close>

lemma free_many_frame: "closes {} w (free_many k w)"
proof (induction k arbitrary: w)
  case (Suc k)
  have "closes {} w (sys_free w)" by (simp add: closes_def sys_free_def file_of_def)
  then show ?case using closes_trans [OF _ Suc] by fastforce
qed (simp add: closes_def)

lemma close_all_closes:
  assumes "close_all pid fds ret w = (r, w')"
  shows "closes (Pair pid ` set fds) w w' \<and> (\<forall>fd \<in> set fds. file_of w' pid fd = None)"
  using assms
proof (induction fds arbitrary: ret w)
  case (Cons fd fds)
  obtain k v where v: "sys_close pid fd w = (k, v)" by fastforce
  then have "close_all pid fds (ret OR k) v = (r, w')" using Cons.prems by simp
  note IH = Cons.IH [OF this]
  have "closes (Pair pid ` set (fd # fds)) w w'"
    using closes_trans [OF sys_close_closes(1) [OF v]] IH by fastforce
  moreover have "file_of w' pid fd = None"
  proof (cases "fd \<in> set fds")
    case False
    then have "file_of w' pid fd = file_of v pid fd" using IH by (auto simp: closes_def)
    then show ?thesis using sys_close_closes(2) [OF v] by simp
  qed (use IH in blast)
  ultimately show ?case using IH by simp
qed (simp add: closes_def)

text \<open>When no \<open>close\<close> fails, the result is the one it began with.\<close>

lemma close_all_ret:
  assumes "w_plan w = []" "distinct fds" "\<forall>fd \<in> set fds. file_of w pid fd \<noteq> None"
  shows "fst (close_all pid fds ret w) = ret"
  using assms
proof (induction fds arbitrary: w)
  case (Cons fd fds)
  obtain k v where v: "sys_close pid fd w = (k, v)" by fastforce
  have "k = 0" "w_plan v = []" using v Cons.prems by (auto simp: sys_close_def faulty_ok)
  moreover have "file_of v pid f = file_of w pid f" if "f \<in> set fds" for f
    using sys_close_closes(1) [OF v] Cons.prems(2) that by (auto simp: closes_def)
  ultimately show ?case using v Cons.IH [of v] Cons.prems by simp
qed simp

text \<open>
  The descriptors of a dispatcher with \<open>k\<close> attached functions, and that these are the ones
  the states of the service keep apart from those of the callers.
\<close>

definition disp_fd :: "dispatcher \<Rightarrow> nat \<Rightarrow> int \<Rightarrow> bool" where
  "disp_fd d k fd \<longleftrightarrow>
     fd \<in> {d_epoll_fd d, fst (d_to_daemon d), snd (d_to_daemon d), fst (d_from_daemon d), snd (d_from_daemon d)} \<or>
     (\<exists>i < k. entry (d_req_fd d) i = Some fd \<or> entry (d_res_fd d) i = Some fd)"

lemma disp_fd_iff:
  assumes "sv_files lib ctl rep e w d names callers"
  shows "disp_fd d (length names) fd \<longleftrightarrow> fd \<in> set (control_fds d @ func_fds d)"
proof -
  have k: "d_cnt_func d = length names" using assms by (simp add: sv_files_def disp_ok_def)
  have "entry (d_req_fd d) i = Some fd \<or> entry (d_res_fd d) i = Some fd \<longleftrightarrow>
      fd \<in> {the (entry (d_req_fd d) i), the (entry (d_res_fd d) i)}" if "i < length names" for i
    using assms that by (auto simp: sv_files_def entry_ok_def new_entry_def)
  moreover have "set (func_fds d) = (\<Union>i < length names. {the (entry (d_req_fd d) i), the (entry (d_res_fd d) i)})"
    by (auto simp: func_fds_def k)
  ultimately have "(\<exists>i < length names. entry (d_req_fd d) i = Some fd \<or> entry (d_res_fd d) i = Some fd) \<longleftrightarrow>
      fd \<in> set (func_fds d)"
    by blast
  then show ?thesis by (auto simp: disp_fd_def control_fds_def)
qed

text \<open>
  C31: deleting gives back exactly the descriptors of the dispatcher. In every reachable state,
  after the answer of the daemon the call closes the epoll, the control pipes and the two FIFOs of
  every attached function, whichever \<open>close\<close> reports an error; no other descriptor of any process
  is touched, so that all callers keep theirs (even those of the same process); and if no
  \<open>close\<close> fails, the result is the answer of the daemon.
\<close>

theorem delete_closes_dispatcher:
  assumes "lib_ok lib" "sv_reach lib s"
    and del: "delete_finish 0 (sv_disp s) reply (with_plan p (sv_world s)) = (ret, w')"
  shows "(\<forall>pid fd. file_of w' pid fd =
      (if pid = 0 \<and> disp_fd (sv_disp s) (length (sv_names s)) fd then None else file_of (sv_world s) pid fd)) \<and>
    (\<forall>(x, pid, c) \<in> set (sv_callers s). caller_of lib w' x pid c) \<and>
    (p = [] \<longrightarrow> ret = sint (int_of_bytes reply))"
proof -
  obtain ctl rep e where I: "sv_inv lib ctl rep e s" using sv_reach_inv [OF assms(1,2)] by blast
  note F = sv_invD(2) [OF I]
  let ?w = "with_plan p (sv_world s)" and ?fds = "control_fds (sv_disp s) @ func_fds (sv_disp s)"
  have dist: "distinct (open_fds (sv_disp s) (sv_callers s))" using F by (simp add: sv_files_def)
  obtain v where v: "close_all 0 ?fds (sint (int_of_bytes reply)) ?w = (ret, v)"
      and w': "w' = free_many (owned_contexts (sv_disp s) + 8) v"
    using del by (cases "close_all 0 ?fds (sint (int_of_bytes reply)) ?w")
      (auto simp: delete_finish_def control_fds_def Let_def simp del: close_all.simps)
  note C = close_all_closes [OF v] and M = free_many_frame [of v "owned_contexts (sv_disp s) + 8", folded w']
  have files: "file_of w' pid fd =
      (if pid = 0 \<and> disp_fd (sv_disp s) (length (sv_names s)) fd then None else file_of (sv_world s) pid fd)" for pid fd
  proof (cases "pid = 0 \<and> fd \<in> set ?fds")
    case True
    then show ?thesis using C M unfolding disp_fd_iff [OF F] by (auto simp: closes_def)
  next
    case False
    then have "(pid, fd) \<notin> Pair 0 ` set ?fds" by auto
    then show ?thesis using C M False unfolding disp_fd_iff [OF F] closes_def by auto
  qed
  have callers: "caller_of lib w' x pid c" if c: "(x, pid, c) \<in> set (sv_callers s)" for x pid c
  proof -
    have "\<not> (pid = 0 \<and> disp_fd (sv_disp s) (length (sv_names s)) fd)" if "fd \<in> {c_req_fd c, c_res_fd c}" for fd
      using dist caller_fds_mem [OF c] that unfolding disp_fd_iff [OF F] by (auto simp: open_fds_def)
    moreover have "w_fifos w' = w_fifos (sv_world s)" using C M by (simp add: closes_def)
    ultimately show ?thesis
      using sv_filesD(4) [OF F c] files by (simp add: caller_of_def caller_ok_def)
  qed
  have "ret = sint (int_of_bytes reply)" if "p = []"
  proof -
    have "\<forall>fd \<in> set ?fds. file_of ?w 0 fd \<noteq> None"
      using open_fds_open [OF F, of 0] by (auto simp: open_fds_def)
    moreover have "distinct ?fds" using dist by (auto simp: open_fds_def distinct_map)
    ultimately show ?thesis
      using close_all_ret [of ?w ?fds 0 "sint (int_of_bytes reply)"] v that by simp
  qed
  then show ?thesis using files callers by blast
qed

end
