(* ===== verification/Function_Service_Heap.thy ===== *)
theory Function_Service_Heap
  imports Function_Service_Props
begin

text \<open>
  The heap of the service: in every run, the blocks that are allocated are the ones of the dispatcher, the
  contexts of its functions, the handles of the callers and the buffer the daemon works on.
  (The program may have any number of other blocks, which no operation of the service touches.)
\<close>

section \<open>What each operation allocates and frees\<close>

lemma sys_close_heap:
  assumes "sys_close pid fd w = (r, w')"
  shows "w_heap w' = w_heap w"
  using assms by (cases rule: sys_close_cases) (simp_all add: same_files_def)

lemma free_many_heap: "w_heap (free_many k w) = w_heap w - k"
  by (induction k arbitrary: w) (simp_all add: sys_free_def)

lemma close_all_heap: "close_all pid fds ret w = (r, w') \<Longrightarrow> w_heap w' = w_heap w"
proof (induction fds arbitrary: ret w)
  case (Cons fd fds)
  obtain k v where v: "sys_close pid fd w = (k, v)" by fastforce
  then show ?case using Cons sys_close_heap [OF v] by simp
qed simp

lemma alloc_many_heap: "alloc_many k w = (oks, w') \<Longrightarrow> w_heap w' = w_heap w + count_if id oks \<and> length oks = k"
proof (induction k arbitrary: w oks w')
  case (Suc k)
  obtain ok v where v: "sys_alloc w = (ok, v)" by fastforce
  obtain oks' u where u: "alloc_many k v = (oks', u)" by fastforce
  show ?case using Suc.IH [OF u] Suc.prems v u sys_alloc_cases [OF v] by auto
qed simp

lemma count_if_all: "list_all P xs \<Longrightarrow> count_if P xs = length xs"
  by (induction xs) auto

lemma next_fault_heap: "next_fault w = (e, v) \<Longrightarrow> w_heap v = w_heap w"
  using next_fault_same by (fastforce simp: same_files_def)

lemma sys_pipe_heap: "sys_pipe pid w = (r, v) \<Longrightarrow> w_heap v = w_heap w"
  by (auto simp: sys_pipe_def install_file_def Let_def fail_with_def split: prod.splits option.splits dest!: next_fault_heap)

lemma faulty_heap:
  assumes "faulty pid call w = (r, v)" "\<And>u. w_heap (snd (call u)) = w_heap u"
  shows "w_heap v = w_heap w"
  using assms(1)
proof (cases rule: faulty_cases)
  case failed
  then show ?thesis by (simp add: same_files_def)
next
  case (ran u)
  then show ?thesis using assms(2) [of u] by (simp add: same_files_def)
qed

lemma sys_epoll_heap:
  "sys_epoll_create pid w = (r, v) \<Longrightarrow> w_heap v = w_heap w"
  "sys_epoll_add pid ep fd dat w = (r, v) \<Longrightarrow> w_heap v = w_heap w"
  unfolding sys_epoll_create_def sys_epoll_add_def
  by (erule faulty_heap; auto simp: install_file_def Let_def fail_with_def split: option.splits descr.splits)+

text \<open>A dispatcher is eight blocks: its struct and seven arrays.\<close>

lemma create_heap:
  assumes "create_host_function_dispatcher pid n w = Some (Some d, started, w')"
  shows "w_heap w' = w_heap w + 8 \<and> d_cnt_func d = 0"
proof -
  obtain ok a where a: "sys_alloc w = (ok, a)" by fastforce
  obtain to_d b where b: "sys_pipe pid a = (to_d, b)" by fastforce
  obtain from_d c where c: "sys_pipe pid b = (from_d, c)" by fastforce
  obtain ep e where e: "sys_epoll_create pid c = (ep, e)" by fastforce
  obtain r f where f: "sys_epoll_add pid ep (fst (the to_d)) (-1) e = (r, f)" by fastforce
  obtain x g where g: "next_fault f = (x, g)" by fastforce
  obtain oks h where h: "alloc_many 7 g = (oks, h)" by fastforce
  have ok: "ok" "list_all id oks" "w' = h" "d_cnt_func d = 0"
    using assms a b c e f g h
    by (auto simp: create_host_function_dispatcher_def Let_def split: if_splits option.splits)
  have "w_heap h = w_heap a + 7"
    using sys_pipe_heap [OF b] sys_pipe_heap [OF c] sys_epoll_heap(1) [OF e] sys_epoll_heap(2) [OF f]
      next_fault_heap [OF g] alloc_many_heap [OF h] count_if_all [OF ok(2)] by simp
  then show ?thesis using sys_alloc_cases [OF a] ok by simp
qed

lemma unlink_heap:
  assumes "unlink_host_function pid c w = (ret, w')"
  shows "w_heap w' = w_heap w - (if ret = ROBOT_OK then 1 else 0)"
proof -
  obtain r v where v: "sys_close pid (c_req_fd c) w = (r, v)" by fastforce
  obtain s u where u: "sys_close pid (c_res_fd c) v = (s, u)" by fastforce
  show ?thesis
    using assms v u sys_close_heap [OF v] sys_close_heap [OF u]
    by (auto simp: unlink_host_function_def ROBOT_OK_def ERR_PIPE_CLOSE_def sys_free_def split: if_splits)
qed

lemma link_heap:
  assumes "link_host_function pid x a b w = Some (Some c, w')"
  shows "w_heap w' = w_heap w + 1"
  using assms
proof (cases rule: link_host_function_cases)
  case (linked v r u fd y fd')
  then show ?thesis
    using sys_alloc_cases [OF linked(1)] sys_mkdir_spec [OF linked(4)]
      caller_open_pipe_spec [OF linked(6)] caller_open_pipe_spec [OF linked(8)] by simp
qed auto

text \<open>Attached functions own their contexts.\<close>

lemma owned_contexts_cong:
  "same_upto (d_cnt_func d) d d' \<Longrightarrow> d_cnt_func d' = d_cnt_func d \<Longrightarrow> owned_contexts d' = owned_contexts d"
  unfolding owned_contexts_def by (auto simp: same_upto_def intro!: count_if_cong)

lemma owned_contexts_snoc:
  assumes "attach_done pid x foo user_data b sz_arg sz_ret d w d' w'"
  shows "owned_contexts d' = owned_contexts d + (if b \<and> user_data \<noteq> NoData then 1 else 0) \<and> w_heap w' = w_heap w"
proof -
  let ?k = "d_cnt_func d" and ?P = "\<lambda>d i. entry (d_owns d) i = Some True \<and> entry (d_user_data d) i \<noteq> Some NoData"
  have k: "d_cnt_func d' = Suc ?k" and same: "same_upto ?k d d'" and heap: "w_heap w' = w_heap w"
    and new: "\<exists>n m. new_entry d' ?k foo user_data b sz_arg sz_ret (int n) (int m)"
    using assms unfolding attach_done_def by auto
  have "count_if (?P d') [0..<?k] = count_if (?P d) [0..<?k]"
    using same by (intro count_if_cong) (simp add: same_upto_def)
  then show ?thesis
    using new heap by (auto simp: owned_contexts_def k new_entry_def)
qed

lemma attach_heap:
  assumes "attach_host_function_ex pid d x foo user_data a b w = Some (ret, d', w')"
  shows "w_heap w' = w_heap w \<and> owned_contexts d' = owned_contexts d"
  using attach_host_function_ex_spec [OF assms]
proof (elim disjE conjE)
  assume "attach_undone d w d' w'"
  then show ?thesis using owned_contexts_cong [of d d'] by (simp add: attach_undone_def)
next
  assume "attach_done pid x foo user_data False a b d w d' w'"
  from owned_contexts_snoc [OF this] show ?thesis by simp
qed

lemma attach_legacy_heap:
  assumes "attach_host_function pid d x foo a b w = Some (ret, d', w')"
  shows "w_heap w' + owned_contexts d = w_heap w + owned_contexts d'"
  using attach_host_function_spec [OF assms]
proof (elim disjE conjE exE)
  assume "attach_undone d w d' w'"
  then show ?thesis using owned_contexts_cong [of d d'] by (simp add: attach_undone_def)
next
  fix v assume "w_heap v = w_heap w + 1"
    and A: "attach_done pid x legacy_host_function_adapter (LegacyContext foo) True a b d v d' w'"
  then show ?thesis using owned_contexts_snoc [OF A] by simp
qed

text \<open>Reading and writing.\<close>

lemma sys_write_heap: "sys_write pid fd bs w = Done (n, w') \<Longrightarrow> w_heap w' = w_heap w"
  by (auto simp: sys_write_def fail_with_def Let_def split: prod.splits option.splits if_splits dest!: next_fault_heap)

lemma sys_read_heap: "sys_read pid fd k w = Done (n, bs, w') \<Longrightarrow> w_heap w' = w_heap w"
  by (auto simp: sys_read_def fail_with_def Let_def split: prod.splits option.splits if_splits dest!: next_fault_heap)

lemma call_heap: "call_host_function pid c arg w = Done (ret, w') \<Longrightarrow> w_heap w' = w_heap w"
  using sys_write_heap by (auto simp: call_host_function_def split: io.splits)

lemma respond_heap: "get_response_host_function pid c w = Done (ret, bs, w') \<Longrightarrow> w_heap w' = w_heap w"
  using sys_read_heap by (auto simp: get_response_host_function_def split: io.splits)

text \<open>The daemon has one buffer from its allocation to the end of the reply.\<close>

fun buffers :: "daemon_pc \<Rightarrow> nat" where
  "buffers (DmRead i evs) = 1"
| "buffers (DmCall i args evs) = 1"
| "buffers (DmReply i args ret evs) = 1"
| "buffers _ = 0"

lemma daemon_heap:
  assumes "daemon_step pid d w dm (dm_pc dm) = (dm', w')" "dm_pc dm' \<noteq> DmFault" "buffers (dm_pc dm) \<le> w_heap w"
  shows "w_heap w' + buffers (dm_pc dm) = w_heap w + buffers (dm_pc dm')"
proof (cases "dm_pc dm")
  case (DmBatch evs)
  then show ?thesis
    using assms by (cases evs) (auto split: io.splits prod.splits if_splits dest!: sys_read_heap sys_alloc_cases)
qed (use assms in \<open>auto simp: sys_free_def split: io.splits prod.splits option.splits if_splits dest!: sys_read_heap sys_write_heap\<close>)

section \<open>The account\<close>

definition held_blocks :: "service \<Rightarrow> nat" where
  "held_blocks s =
     8 + owned_contexts (sv_disp s) + length (sv_callers s) + buffers (dm_pc (sv_daemon s)) + sv_lost s"

lemma heap_plan [simp]: "w_heap (with_plan p w) = w_heap w"
  by (simp add: with_plan_def)

lemma length_remove_caller: "c \<in> set cs \<Longrightarrow> length cs = Suc (length (remove1 c cs))"
  using length_pos_if_in_set [of c cs] by (simp add: length_remove1)

lemma step_heap:
  assumes step: "sv_step lib s s'" and ok: "dm_pc (sv_daemon s') \<noteq> DmFault"
    and acc: "w_heap (sv_world s) = base + held_blocks s"
  shows "w_heap (sv_world s') = base + held_blocks s'"
  using step
proof cases
  case (attach x p ret d' w')
  then show ?thesis using attach_heap [OF attach(3)] acc by (simp add: held_blocks_def)
next
  case (attach_legacy x foo p ret d' w')
  then show ?thesis using attach_legacy_heap [OF attach_legacy(5)] acc by (simp add: held_blocks_def)
next
  case (link pid x p c w')
  then show ?thesis using link_heap [OF link(2)] acc by (simp add: held_blocks_def)
next
  case (link_null pid x p w')
  then show ?thesis using null_link [OF link_null(2)] acc by (simp add: held_blocks_def files_undone_def)
next
  case (unlink x pid c p ret w')
  then show ?thesis
    using unlink_heap [OF unlink(4)] length_remove_caller [OF unlink(2)] acc by (simp add: held_blocks_def)
next
  case (call x pid c arg p ret w')
  then show ?thesis using call_heap [OF call(4)] acc by (simp add: held_blocks_def)
next
  case (respond x pid c p ret bytes w')
  then show ?thesis using respond_heap [OF respond(3)] acc by (simp add: held_blocks_def)
next
  case (wait evs)
  then show ?thesis using acc by (simp add: held_blocks_def daemon_wait_def)
next
  case (daemon p dm' w')
  then show ?thesis using daemon_heap [OF daemon(3)] ok acc by (simp add: held_blocks_def)
next
  case (stop p ret w')
  then show ?thesis using sys_write_heap acc by (fastforce simp: held_blocks_def delete_request_def)
qed

text \<open>
  C32: the account of the heap. In every run of a service, with failing system calls, the blocks that were
  allocated since before the dispatcher was created are its struct and arrays, the
  contexts of the functions it owns, one handle for every linked caller, the argument buffer the daemon
  works on, and one handle for every \<open>unlink_host_function\<close> that reported an error: nothing else
  leaks, and nothing is freed twice. Deleting the dispatcher gives back what is the
  dispatcher's, but not the buffer of a daemon that has not ended.
\<close>

theorem service_heap_accounted:
  assumes "lib_ok lib" "sv_start w n s0" "(sv_step lib)\<^sup>*\<^sup>* s0 s"
  shows "w_heap (sv_world s) = w_heap w + 8 + owned_contexts (sv_disp s) + length (sv_callers s) +
      buffers (dm_pc (sv_daemon s)) + sv_lost s \<and>
    w_heap (snd (delete_finish 0 (sv_disp s) reply (with_plan p (sv_world s)))) =
      w_heap w + length (sv_callers s) + buffers (dm_pc (sv_daemon s)) + sv_lost s"
proof -
  have "w_heap (sv_world s) = w_heap w + held_blocks s \<and> sv_reach lib s"
    using assms(3)
  proof (induction rule: rtranclp_induct)
    case base
    obtain d w' where "create_host_function_dispatcher 0 n w = Some (Some d, True, w')"
        "sv_world s0 = w'" "sv_disp s0 = d" "sv_callers s0 = []" "dm_pc (sv_daemon s0) = DmWait" "sv_lost s0 = 0"
      using assms(2) by (auto simp: sv_start_def)
    then show ?case
      using create_heap [of 0 n w d True w'] sv_reach.start [OF assms(2)] by (simp add: held_blocks_def owned_contexts_def)
  next
    case (step s s')
    then have reach: "sv_reach lib s'" by (blast intro: sv_reach.step)
    then obtain ctl rep e where "sv_inv lib ctl rep e s'" using sv_reach_inv [OF assms(1)] by blast
    then have "dm_pc (sv_daemon s') \<noteq> DmFault" by (auto simp: sv_inv_def sv_data_def)
    from step_heap [OF step(2) this] show ?case using step.IH reach by blast
  qed
  then show ?thesis
    using close_all_heap
    by (auto simp: held_blocks_def delete_finish_def free_many_heap Let_def simp del: close_all.simps split: prod.splits)
qed

end
