(* ===== verification/Dispatcher_Group.thy ===== *)
theory Dispatcher_Group
  imports Function_Service_Heap
begin

text \<open>
  Several dispatchers of one process, each with its daemon, that may have the same functions attached, as the
  sixteen dispatchers of examples/host_function_latency_test/receiver.c: their daemons
  compete for the requests in one FIFO. Dispatchers are created and functions attached at any
  time; the steps are those of Function_Service.
\<close>

section \<open>The machine\<close>

text \<open>
  Histories for every name: the arguments whose call returned 0; which dispatcher took which
  request out of the FIFO, in this order; which dispatcher finished which request, with the
  bytes it wrote; and the bytes that the callers received.
\<close>

record server =
  srv_disp :: dispatcher
  srv_daemon :: daemon
  srv_names :: "string list"

record group =
  gr_world :: world
  gr_servers :: "server list"
  gr_callers :: "(string \<times> nat \<times> caller) list"
  gr_sent :: "string \<Rightarrow> u8 list list"
  gr_taken :: "string \<Rightarrow> (nat \<times> u8 list) list"
  gr_finished :: "string \<Rightarrow> (nat \<times> u8 list \<times> u8 list) list"
  gr_got :: "string \<Rightarrow> u8 list"

definition log_taken ::
    "nat \<Rightarrow> string list \<Rightarrow> daemon_pc \<Rightarrow> daemon_pc \<Rightarrow> (string \<Rightarrow> (nat \<times> u8 list) list) \<Rightarrow>
     string \<Rightarrow> (nat \<times> u8 list) list" where
  "log_taken k names pc pc' taken =
     (case (pc, pc') of
        (DmRead i evs, DmCall j args evs') \<Rightarrow> taken(names ! i := taken (names ! i) @ [(k, args)])
      | _ \<Rightarrow> taken)"

definition log_finished ::
    "nat \<Rightarrow> string list \<Rightarrow> world \<Rightarrow> world \<Rightarrow> daemon_pc \<Rightarrow> daemon_pc \<Rightarrow>
     (string \<Rightarrow> (nat \<times> u8 list \<times> u8 list) list) \<Rightarrow> string \<Rightarrow> (nat \<times> u8 list \<times> u8 list) list" where
  "log_finished k names w w' pc pc' fin =
     (case (pc, pc') of
        (DmReply i args ret evs, DmBatch evs') \<Rightarrow>
          let res = pipe_name (names ! i) ''_res''
          in fin(names ! i := fin (names ! i) @ [(k, args, drop (length (bytes_in w res)) (bytes_in w' res))])
      | _ \<Rightarrow> fin)"

definition new_server :: "dispatcher \<Rightarrow> server" where
  "new_server d = \<lparr>srv_disp = d, srv_daemon = \<lparr>dm_pc = DmWait, dm_exit = False\<rparr>, srv_names = []\<rparr>"

definition attached :: "server \<Rightarrow> int \<Rightarrow> dispatcher \<Rightarrow> string \<Rightarrow> server" where
  "attached sv ret d x = sv\<lparr>srv_disp := d, srv_names := srv_names sv @ (if ret = 0 then [x] else [])\<rparr>"

inductive gr_step :: "library \<Rightarrow> group \<Rightarrow> group \<Rightarrow> bool" for lib where
  create: "create_host_function_dispatcher 0 n (gr_world s) = Some (Some d, True, w') \<Longrightarrow>
     gr_step lib s (s\<lparr>gr_world := w', gr_servers := gr_servers s @ [new_server d]\<rparr>)"
| attach: "k < length (gr_servers s) \<Longrightarrow> sv = gr_servers s ! k \<Longrightarrow> x \<notin> set (srv_names sv) \<Longrightarrow>
     attach_host_function_ex 0 (srv_disp sv) x (hf_foo (lib x)) (hf_data (lib x)) (hf_sz_arg (lib x))
       (hf_sz_ret (lib x)) (with_plan p (gr_world s)) = Some (ret, d', w') \<Longrightarrow>
     gr_step lib s (s\<lparr>gr_world := with_plan [] w', gr_servers := (gr_servers s)[k := attached sv ret d' x]\<rparr>)"
| attach_legacy: "k < length (gr_servers s) \<Longrightarrow> sv = gr_servers s ! k \<Longrightarrow> x \<notin> set (srv_names sv) \<Longrightarrow>
     hf_foo (lib x) = legacy_host_function_adapter \<Longrightarrow> hf_data (lib x) = LegacyContext foo \<Longrightarrow>
     attach_host_function 0 (srv_disp sv) x foo (hf_sz_arg (lib x)) (hf_sz_ret (lib x)) (with_plan p (gr_world s)) =
       Some (ret, d', w') \<Longrightarrow>
     gr_step lib s (s\<lparr>gr_world := with_plan [] w', gr_servers := (gr_servers s)[k := attached sv ret d' x]\<rparr>)"
| link: "link_host_function pid x (hf_sz_arg (lib x)) (hf_sz_ret (lib x)) (with_plan p (gr_world s)) = Some (Some c, w') \<Longrightarrow>
     ERR_PIPE_REQ \<notin> {c_req_fd c, c_res_fd c} \<Longrightarrow>
     gr_step lib s (s\<lparr>gr_world := with_plan [] w', gr_callers := gr_callers s @ [(x, pid, c)]\<rparr>)"
| link_null: "link_host_function pid x (hf_sz_arg (lib x)) (hf_sz_ret (lib x)) (with_plan p (gr_world s)) = Some (None, w') \<Longrightarrow>
     file_of (gr_world s) pid ERR_PIPE_REQ = None \<Longrightarrow>
     gr_step lib s (s\<lparr>gr_world := with_plan [] w'\<rparr>)"
| unlink: "(x, pid, c) \<in> set (gr_callers s) \<Longrightarrow> \<exists>sv \<in> set (gr_servers s). x \<in> set (srv_names sv) \<Longrightarrow>
     unlink_host_function pid c (with_plan p (gr_world s)) = (ret, w') \<Longrightarrow>
     gr_step lib s (s\<lparr>gr_world := with_plan [] w', gr_callers := remove1 (x, pid, c) (gr_callers s)\<rparr>)"
| call: "(x, pid, c) \<in> set (gr_callers s) \<Longrightarrow> length arg = hf_sz_arg (lib x) \<Longrightarrow>
     call_host_function pid c arg (with_plan p (gr_world s)) = Done (ret, w') \<Longrightarrow>
     gr_step lib s (s\<lparr>gr_world := with_plan [] w',
       gr_sent := (gr_sent s)(x := gr_sent s x @ (if ret = 0 then [arg] else []))\<rparr>)"
| respond: "(x, pid, c) \<in> set (gr_callers s) \<Longrightarrow>
     get_response_host_function pid c (with_plan p (gr_world s)) = Done (ret, bytes, w') \<Longrightarrow>
     gr_step lib s (s\<lparr>gr_world := with_plan [] w', gr_got := (gr_got s)(x := gr_got s x @ bytes)\<rparr>)"
| wait: "k < length (gr_servers s) \<Longrightarrow> sv = gr_servers s ! k \<Longrightarrow>
     epoll_reports 0 (srv_disp sv) (gr_world s) evs \<Longrightarrow> dm_pc (srv_daemon sv) = DmWait \<Longrightarrow>
     gr_step lib s (s\<lparr>gr_servers := (gr_servers s)[k :=
       sv\<lparr>srv_daemon := daemon_wait 0 (srv_disp sv) evs (gr_world s) (srv_daemon sv)\<rparr>]\<rparr>)"
| daemon: "k < length (gr_servers s) \<Longrightarrow> sv = gr_servers s ! k \<Longrightarrow> p = [] \<or> \<not> at_control (dm_pc (srv_daemon sv)) \<Longrightarrow>
     daemon_step 0 (srv_disp sv) (with_plan p (gr_world s)) (srv_daemon sv) (dm_pc (srv_daemon sv)) = (dm', w') \<Longrightarrow>
     gr_step lib s (s\<lparr>gr_world := with_plan [] w', gr_servers := (gr_servers s)[k := sv\<lparr>srv_daemon := dm'\<rparr>],
       gr_taken := log_taken k (srv_names sv) (dm_pc (srv_daemon sv)) (dm_pc dm') (gr_taken s),
       gr_finished := log_finished k (srv_names sv) (gr_world s) w' (dm_pc (srv_daemon sv)) (dm_pc dm') (gr_finished s)\<rparr>)"
| stop: "k < length (gr_servers s) \<Longrightarrow>
     delete_request 0 (srv_disp (gr_servers s ! k)) (with_plan p (gr_world s)) = Done (ret, w') \<Longrightarrow>
     gr_step lib s (s\<lparr>gr_world := with_plan [] w'\<rparr>)"

definition gr_start :: "world \<Rightarrow> group \<Rightarrow> bool" where
  "gr_start w s \<longleftrightarrow>
     w_plan w = [] \<and> fifos_ok w \<and> (\<forall>path. bytes_in w path = []) \<and>
     s = \<lparr>gr_world = w, gr_servers = [], gr_callers = [], gr_sent = (\<lambda>_. []), gr_taken = (\<lambda>_. []),
          gr_finished = (\<lambda>_. []), gr_got = (\<lambda>_. [])\<rparr>"

inductive gr_reach :: "library \<Rightarrow> group \<Rightarrow> bool" for lib where
  start: "gr_start w s \<Longrightarrow> gr_reach lib s"
| step: "gr_reach lib s \<Longrightarrow> gr_step lib s s' \<Longrightarrow> gr_reach lib s'"

section \<open>The invariant\<close>

text \<open>
  The events of a batch name attached functions; unlike with one dispatcher, the request
  may be gone when the daemon comes to read it.
\<close>

definition events_known :: "string list \<Rightarrow> int list \<Rightarrow> bool" where
  "events_known names evs \<longleftrightarrow> (\<forall>ev \<in> set evs. ev = -1 \<or> (\<exists>i < length names. ev = int i))"

fun server_pc_ok :: "library \<Rightarrow> string list \<Rightarrow> daemon_pc \<Rightarrow> bool" where
  "server_pc_ok lib names (DmBatch evs) = events_known names evs"
| "server_pc_ok lib names (DmControl r evs) = events_known names evs"
| "server_pc_ok lib names (DmRead i evs) = (i < length names \<and> events_known names evs)"
| "server_pc_ok lib names (DmCall i args evs) =
     (i < length names \<and> length args = hf_sz_arg (lib (names ! i)) \<and> events_known names evs)"
| "server_pc_ok lib names (DmReply i args ret evs) =
     (i < length names \<and> length args = hf_sz_arg (lib (names ! i)) \<and> events_known names evs \<and>
      ret = hf_foo (lib (names ! i)) args (hf_data (lib (names ! i))))"
| "server_pc_ok lib names DmFault = False"
| "server_pc_ok lib names _ = True"

text \<open>Every dispatcher has an epoll of its own.\<close>

definition server_files :: "library \<Rightarrow> nat \<Rightarrow> world \<Rightarrow> (string \<times> nat \<times> caller) list \<Rightarrow> server \<Rightarrow> bool" where
  "server_files lib e w callers sv \<longleftrightarrow> (\<exists>ctl rep. sv_files lib ctl rep e w (srv_disp sv) (srv_names sv) callers)"

definition callers_open :: "library \<Rightarrow> world \<Rightarrow> (string \<times> nat \<times> caller) list \<Rightarrow> bool" where
  "callers_open lib w callers \<longleftrightarrow> (\<forall>(x, pid, c) \<in> set callers. caller_of lib w x pid c) \<and> distinct (caller_fds callers)"

definition gr_files :: "library \<Rightarrow> world \<Rightarrow> server list \<Rightarrow> (string \<times> nat \<times> caller) list \<Rightarrow> nat list \<Rightarrow> bool" where
  "gr_files lib w srvs callers es \<longleftrightarrow>
     fifos_ok w \<and> callers_open lib w callers \<and>
     length es = length srvs \<and> distinct es \<and> (\<forall>e \<in> set es. e < length (w_epolls w)) \<and>
     (\<forall>k < length srvs. server_files lib (es ! k) w callers (srvs ! k))"

definition by_server :: "nat \<Rightarrow> (nat \<times> 'a) list \<Rightarrow> 'a list" where
  "by_server k xs = map snd (filter (\<lambda>(j, _). j = k) xs)"

text \<open>What server \<open>k\<close> took, it has finished, but for the one it works on.\<close>

definition server_ok :: "library \<Rightarrow> nat \<Rightarrow> server \<Rightarrow> (string \<Rightarrow> (nat \<times> u8 list) list) \<Rightarrow>
    (string \<Rightarrow> (nat \<times> u8 list \<times> u8 list) list) \<Rightarrow> bool" where
  "server_ok lib k sv taken fin \<longleftrightarrow>
     server_pc_ok lib (srv_names sv) (dm_pc (srv_daemon sv)) \<and>
     (\<forall>x. by_server k (taken x) = map fst (by_server k (fin x)) @ in_work (srv_names sv) (dm_pc (srv_daemon sv)) x)"

definition fifos_hold :: "library \<Rightarrow> (string \<Rightarrow> u8 list) \<Rightarrow> (string \<Rightarrow> u8 list list) \<Rightarrow>
    (string \<Rightarrow> (nat \<times> u8 list) list) \<Rightarrow> (string \<Rightarrow> (nat \<times> u8 list \<times> u8 list) list) \<Rightarrow> (string \<Rightarrow> u8 list) \<Rightarrow> bool" where
  "fifos_hold lib bytes sent taken fin got \<longleftrightarrow>
     (\<forall>x. requests_ok lib x (bytes (pipe_name x ''_req'')) [] (sent x) (map snd (taken x)) \<and>
          responses_ok lib x (bytes (pipe_name x ''_res'')) (map snd (fin x)) (got x))"

definition gr_data :: "library \<Rightarrow> (string \<Rightarrow> u8 list) \<Rightarrow> server list \<Rightarrow> (string \<Rightarrow> u8 list list) \<Rightarrow>
    (string \<Rightarrow> (nat \<times> u8 list) list) \<Rightarrow> (string \<Rightarrow> (nat \<times> u8 list \<times> u8 list) list) \<Rightarrow> (string \<Rightarrow> u8 list) \<Rightarrow> bool" where
  "gr_data lib bytes srvs sent taken fin got \<longleftrightarrow>
     fifos_hold lib bytes sent taken fin got \<and> (\<forall>k < length srvs. server_ok lib k (srvs ! k) taken fin) \<and>
     (\<forall>x. (\<forall>(k, _) \<in> set (taken x). k < length srvs) \<and> (\<forall>(k, _) \<in> set (fin x). k < length srvs))"

definition gr_inv :: "library \<Rightarrow> group \<Rightarrow> nat list \<Rightarrow> bool" where
  "gr_inv lib s es \<longleftrightarrow>
     w_plan (gr_world s) = [] \<and> gr_files lib (gr_world s) (gr_servers s) (gr_callers s) es \<and>
     gr_data lib (bytes_in (gr_world s)) (gr_servers s) (gr_sent s) (gr_taken s) (gr_finished s) (gr_got s)"

lemma by_server_simps [simp]:
  "by_server k [] = []" "by_server k (xs @ ys) = by_server k xs @ by_server k ys"
  "by_server k ((j, y) # xs) = (if j = k then y # by_server k xs else by_server k xs)"
  by (simp_all add: by_server_def)

lemma by_server_none: "\<forall>(j, _) \<in> set xs. j < k \<Longrightarrow> by_server k xs = []"
  by (auto simp: by_server_def filter_empty_conv)

lemma gr_dataD:
  assumes "gr_data lib bytes srvs sent taken fin got"
  shows "requests_ok lib x (bytes (pipe_name x ''_req'')) [] (sent x) (map snd (taken x))"
    "responses_ok lib x (bytes (pipe_name x ''_res'')) (map snd (fin x)) (got x)"
    "k < length srvs \<Longrightarrow> server_pc_ok lib (srv_names (srvs ! k)) (dm_pc (srv_daemon (srvs ! k)))"
    "k < length srvs \<Longrightarrow> by_server k (taken x) =
       map fst (by_server k (fin x)) @ in_work (srv_names (srvs ! k)) (dm_pc (srv_daemon (srvs ! k))) x"
    "(k, a) \<in> set (taken x) \<Longrightarrow> k < length srvs" "(k, b) \<in> set (fin x) \<Longrightarrow> k < length srvs"
  using assms unfolding gr_data_def fifos_hold_def server_ok_def by fast+

lemma gr_filesD:
  assumes "gr_files lib w srvs callers es"
  shows "fifos_ok w" "callers_open lib w callers" "k < length srvs \<Longrightarrow> server_files lib (es ! k) w callers (srvs ! k)"
    "k < length srvs \<Longrightarrow> k < length es" "k < length srvs \<Longrightarrow> es ! k < length (w_epolls w)"
  using assms unfolding gr_files_def by simp_all

lemma server_filesD:
  assumes "server_files lib e w callers sv"
  shows "fifos_ok w" "callers_open lib w callers" "distinct (open_fds (srv_disp sv) callers)" "e < length (w_epolls w)"
  using assms by (auto simp: server_files_def sv_files_def callers_open_def open_fds_def disp_ok_def)

section \<open>The files of all dispatchers\<close>

text \<open>A step that changes one pipe, and maybe what the daemons do.\<close>

lemma server_files_pipe:
  assumes "server_files lib e w callers sv" "quiet (pipe_set q bs w) w'"
    and "srv_disp sv' = srv_disp sv" "srv_names sv' = srv_names sv"
  shows "server_files lib e w' callers sv'"
  using assms sv_files_pipe unfolding server_files_def by metis

lemma gr_files_pipe:
  assumes F: "gr_files lib w srvs callers es" and Q: "quiet (pipe_set q bs w) w'"
    and srvs: "length srvs' = length srvs" "\<And>k. k < length srvs \<Longrightarrow>
      srv_disp (srvs' ! k) = srv_disp (srvs ! k) \<and> srv_names (srvs' ! k) = srv_names (srvs ! k)"
  shows "gr_files lib w' srvs' callers es"
proof -
  note P = pipe_set_files [OF Q]
  have "callers_open lib w' callers"
    using gr_filesD(2) [OF F] by (simp add: callers_open_def caller_of_def caller_ok_def P cong: prod.case_cong)
  moreover have "server_files lib (es ! k) w' callers (srvs' ! k)" if "k < length srvs" for k
    using server_files_pipe [OF gr_filesD(3) [OF F that] Q] srvs(2) [OF that] by blast
  ultimately show ?thesis using F srvs(1) P by (simp add: gr_files_def)
qed

text \<open>A step that adds files.\<close>

lemma server_files_other:
  assumes "server_files lib e w callers sv" "extends w w'" "fifos_ok w'" "keeps_epolls E w w'" "e \<notin> E"
  shows "server_files lib e w' callers sv"
proof -
  obtain ctl rep where F: "sv_files lib ctl rep e w (srv_disp sv) (srv_names sv) callers"
    using assms(1) by (auto simp: server_files_def)
  have "distinct (open_fds (srv_disp sv) callers)" by (rule server_filesD(3) [OF assms(1)])
  then have "sv_files lib ctl rep e w' (srv_disp sv) (srv_names sv) (callers @ [])"
    by (intro sv_files_other [OF F assms(2-5)]) simp_all
  then show ?thesis by (auto simp: server_files_def)
qed

lemma callers_open_extends:
  "callers_open lib w callers \<Longrightarrow> extends w w' \<Longrightarrow> callers_open lib w' callers"
  using caller_of_extends unfolding callers_open_def by fast

lemma callers_open_joins:
  assumes C: "callers_open lib w callers" and j: "caller_joins lib w w' newc"
  shows "callers_open lib w' (callers @ newc)"
proof -
  have X: "extends w w'" using j by (simp add: caller_joins_def)
  have "file_of w pid fd \<noteq> None" if "(pid, fd) \<in> set (caller_fds callers)" for pid fd
    using C that by (fastforce simp: callers_open_def caller_fds_def caller_of_def caller_ok_def)
  then have "set (caller_fds callers) \<inter> set (caller_fds newc) = {}"
    using j unfolding caller_joins_def by fastforce
  then show ?thesis
    using callers_open_extends [OF C X] j by (auto simp: callers_open_def caller_joins_def)
qed

lemma gr_files_joins:
  assumes F: "gr_files lib w srvs callers es" and j: "caller_joins lib w w' newc"
  shows "gr_files lib w' srvs (callers @ newc) es"
proof -
  have "server_files lib (es ! k) w' (callers @ newc) (srvs ! k)" if "k < length srvs" for k
    using gr_filesD(3) [OF F that] joins_files [OF _ j] unfolding server_files_def by fast
  moreover have "fifos_ok w'" "length (w_epolls w) \<le> length (w_epolls w')"
    using j by (simp_all add: caller_joins_def keeps_epolls_def)
  ultimately show ?thesis
    using F callers_open_joins [OF gr_filesD(2) [OF F] j] by (auto simp: gr_files_def)
qed

lemma gr_files_unlink:
  assumes F: "gr_files lib w srvs callers es" and c: "(x, pid, c) \<in> set callers" and srv: "k < length srvs"
    and un: "unlink_host_function pid c (with_plan p w) = (ret, w')"
  shows "gr_files lib w' srvs (remove1 (x, pid, c) callers) es" "bytes_in w' = bytes_in w"
proof -
  have S: "server_files lib (es ! j) w' (remove1 (x, pid, c) callers) (srvs ! j)" if "j < length srvs" for j
    using gr_filesD(3) [OF F that] unlink_files(1) [OF _ c un] unfolding server_files_def by fast
  have "w_epolls w' = w_epolls w"
    using unlink_closes [OF un] by (simp add: closes_def)
  then show "gr_files lib w' srvs (remove1 (x, pid, c) callers) es"
    using F S server_filesD(1,2) [OF S [OF srv]] by (simp add: gr_files_def)
  show "bytes_in w' = bytes_in w"
    using unlink_closes [OF un] same_bytes(1) [of w' w] by (simp add: closes_def)
qed

lemma gr_files_create:
  assumes F: "gr_files lib w srvs callers es" and plan: "w_plan w = []"
    and C: "create_host_function_dispatcher 0 n w = Some (Some d, b, w')"
  shows "gr_files lib w' (srvs @ [new_server d]) callers (es @ [length (w_epolls w)]) \<and> bytes_in w' = bytes_in w \<and> w_plan w' = []"
proof -
  have "\<forall>(x, pid, c) \<in> set callers. caller_of lib w x pid c" "distinct (caller_fds callers)"
    using gr_filesD(2) [OF F] by (simp_all add: callers_open_def)
  note N = create_files [OF plan gr_filesD(1) [OF F] C this]
  then have X: "extends w w'" "fifos_ok w'" "keeps_epolls {} w w'" by blast+
  have "server_files lib (es ! k) w' callers (srvs ! k)" if "k < length srvs" for k
    using server_files_other [OF gr_filesD(3) [OF F that] X] by simp
  moreover have new: "server_files lib (length (w_epolls w)) w' callers (new_server d)"
    using N by (auto simp: server_files_def new_server_def)
  ultimately have "server_files lib ((es @ [length (w_epolls w)]) ! k) w' callers ((srvs @ [new_server d]) ! k)"
    if "k < length (srvs @ [new_server d])" for k
    using that F by (auto simp: nth_append gr_files_def less_Suc_eq)
  then show ?thesis
    using F N X(1,2) callers_open_extends [OF gr_filesD(2) [OF F] X(1)] server_filesD(4) [OF new]
    unfolding gr_files_def by (auto simp: extends_def)
qed

text \<open>Attaching: the dispatcher itself, and the others.\<close>

lemma gr_files_attach:
  assumes F: "gr_files lib w srvs callers es" and k: "k < length srvs" and w': "extends w w'" "fifos_ok w'" "keeps_epolls {es ! k} w w'"
    and own: "server_files lib (es ! k) w' callers sv"
  shows "gr_files lib w' (srvs[k := sv]) callers es"
proof -
  have "server_files lib (es ! j) w' callers (srvs[k := sv] ! j)" if j: "j < length srvs" for j
  proof (cases "j = k")
    case False
    then have "es ! j \<notin> {es ! k}"
      using F j k by (auto simp: gr_files_def nth_eq_iff_index_eq)
    then show ?thesis using server_files_other [OF gr_filesD(3) [OF F j] w'] False by simp
  qed (use own k in simp)
  moreover have "e < length (w_epolls w')" if "e \<in> set es" for e
    using F that w'(3) by (fastforce simp: gr_files_def keeps_epolls_def)
  ultimately show ?thesis
    using F w'(2) callers_open_extends [OF gr_filesD(2) [OF F] w'(1)] by (simp add: gr_files_def)
qed

section \<open>A step of a daemon\<close>

text \<open>
  It leaves the FIFOs alone, or takes a request, or puts a response. What the histories
  become is said for any history.
\<close>

definition unlogged :: "string list \<Rightarrow> world \<Rightarrow> world \<Rightarrow> daemon_pc \<Rightarrow> daemon_pc \<Rightarrow> bool" where
  "unlogged names w w' pc pc' \<longleftrightarrow>
     (\<forall>k taken. log_taken k names pc pc' taken = taken) \<and> (\<forall>k fin. log_finished k names w w' pc pc' fin = fin) \<and>
     in_work names pc' = in_work names pc"

lemma unlogged_simps [simp]:
  "unlogged names w w' pc pc"
  "unlogged names w w' (DmBatch evs) (DmBatch evs')" "unlogged names w w' (DmBatch evs) (DmControl r evs')"
  "unlogged names w w' (DmBatch evs) (DmRead i evs')" "unlogged names w w' (DmControl r evs) (DmBatch evs')"
  "unlogged names w w' (DmRead i evs) (DmBatch evs')" "unlogged names w w' (DmCall i args evs) (DmReply i args ret evs')"
  "unlogged names w w' (DmBatch evs) DmWait" "unlogged names w w' (DmBatch evs) DmEnd"
  by (auto simp: unlogged_def log_taken_def log_finished_def fun_eq_iff split: daemon_pc.splits)

inductive effect :: "library \<Rightarrow> nat set \<Rightarrow> string list \<Rightarrow> world \<Rightarrow> world \<Rightarrow> daemon_pc \<Rightarrow> daemon_pc \<Rightarrow> bool"
  for lib :: library and own :: "nat set" and names :: "string list" and w :: world and w' :: world where
  other: "q \<in> own \<Longrightarrow> quiet (pipe_set q bs w) w' \<Longrightarrow> unlogged names w w' pc pc' \<Longrightarrow>
     effect lib own names w w' pc pc'"
| takes: "i < length names \<Longrightarrow> n = hf_sz_arg (lib (names ! i)) \<Longrightarrow> w_fifos w (pipe_name (names ! i) ''_req'') = Some q \<Longrightarrow>
     w_pipes w ! q \<noteq> [] \<Longrightarrow> quiet (pipe_set q (drop n (w_pipes w ! q)) w) w' \<Longrightarrow>
     effect lib own names w w' (DmRead i evs) (DmCall i (take n (w_pipes w ! q)) evs)"
| replies: "i < length names \<Longrightarrow> w_fifos w (pipe_name (names ! i) ''_res'') = Some q \<Longrightarrow>
     quiet (pipe_set q (w_pipes w ! q @ r) w) w' \<Longrightarrow> hf_sz_ret (lib (names ! i)) dvd length r \<Longrightarrow>
     r = response (lib (names ! i)) args \<or> r = [] \<Longrightarrow>
     effect lib own names w w' (DmReply i args ret evs) (DmBatch evs)"

lemma quiet_effect:
  assumes "quiet w w'" "unlogged names w w' pc pc'"
  shows "effect lib {ctl, rep} names w w' pc pc'"
  using assms other [of ctl "{ctl, rep}" "w_pipes w ! ctl" w w'] by (simp add: pipe_set_same)

lemma batch_effect:
  assumes q: "Option.bind (file_of w 0 (fst (d_to_daemon d))) read_end = Some ctl"
    and known: "events_known names evs" and p: "p = [] \<or> \<not> at_control (DmBatch evs)"
    and step: "daemon_step 0 d (with_plan p w) dm (DmBatch evs) = (dm', w')" "dm_pc dm = DmBatch evs"
  shows "effect lib {ctl, rep} names w w' (DmBatch evs) (dm_pc dm') \<and> server_pc_ok lib names (dm_pc dm')"
proof (cases evs)
  case Nil
  then show ?thesis using step by (auto intro: quiet_effect split: if_splits)
next
  case (Cons ev evs')
  then have known': "events_known names evs'" "ev = -1 \<or> nat ev < length names"
    using known by (auto simp: events_known_def)
  show ?thesis
  proof (cases "ev = -1")
    case False
    obtain ok v where A: "sys_alloc (with_plan p w) = (ok, v)" by fastforce
    have "w' = v" "dm_pc dm' = (if ok then DmRead (nat ev) evs' else DmBatch evs')"
      using step Cons False A by (auto split: if_splits)
    then show ?thesis using quiet_heap(2) [OF A] known' False by (auto intro: quiet_effect)
  next
    case True
    show ?thesis
    proof (cases "sys_read 0 (fst (d_to_daemon d)) 4 (with_plan p w)")
      case Blocked
      then have "w' = with_plan p w" "dm_pc dm' = DmBatch evs" using step Cons True by auto
      then show ?thesis using known by (auto intro: quiet_effect)
    next
      case (Done t)
      then obtain n bs v where W: "sys_read 0 (fst (d_to_daemon d)) 4 (with_plan p w) = Done (n, bs, v)" by (cases t) auto
      from W q show ?thesis
      proof (cases rule: read_cases)
        case failed
        then show ?thesis using p Cons True by simp
      next
        case got
        then obtain r where "dm_pc dm' = DmControl r evs'" "w' = v" using step Cons True W by (auto split: if_splits)
        then show ?thesis using other [of ctl "{ctl, rep}", OF _ got(3)] known' by simp
      qed
    qed
  qed
qed

lemma control_effect:
  assumes q: "Option.bind (file_of w 0 (snd (d_from_daemon d))) write_end = Some rep"
    and known: "events_known names evs"
    and step: "daemon_step 0 d (with_plan p w) dm (DmControl r evs) = (dm', w')" "dm_pc dm = DmControl r evs"
  shows "effect lib {ctl, rep} names w w' (DmControl r evs) (dm_pc dm') \<and> server_pc_ok lib names (dm_pc dm')"
proof (cases "sys_write 0 (snd (d_from_daemon d)) (int_bytes r) (with_plan p w)")
  case Blocked
  then have "w' = with_plan p w" "dm_pc dm' = DmControl r evs" using step by auto
  then show ?thesis using known by (auto intro: quiet_effect)
next
  case (Done t)
  then obtain n where W: "sys_write 0 (snd (d_from_daemon d)) (int_bytes r) (with_plan p w) = Done (n, w')"
      and pc': "dm_pc dm' = DmBatch evs"
    using step by (auto split: prod.splits)
  from W q show ?thesis
  proof (cases rule: write_cases)
    case failed
    then show ?thesis using known pc' by (auto intro: quiet_effect)
  next
    case written
    then show ?thesis using other [of rep "{ctl, rep}", OF _ written(2)] known pc' by simp
  qed
qed

text \<open>The request may be gone: then \<open>read\<close> waits.\<close>

lemma read_effect:
  assumes F: "sv_files lib ctl rep e w d names callers" and pos: "0 < hf_sz_arg (lib (names ! i))"
    and i: "i < length names" and known: "events_known names evs"
    and dvd: "hf_sz_arg (lib (names ! i)) dvd length (bytes_in w (pipe_name (names ! i) ''_req''))"
    and step: "daemon_step 0 d (with_plan p w) dm (DmRead i evs) = (dm', w')" "dm_pc dm = DmRead i evs"
  shows "effect lib {ctl, rep} names w w' (DmRead i evs) (dm_pc dm') \<and> server_pc_ok lib names (dm_pc dm')"
proof -
  let ?n = "hf_sz_arg (lib (names ! i))"
  from sv_filesD(3) [OF F i] obtain fd q where e: "entry (d_req_fd d) i = Some fd" "entry (d_sz_arg d) i = Some ?n"
      and q: "w_fifos w (pipe_name (names ! i) ''_req'') = Some q" "Option.bind (file_of w 0 fd) read_end = Some q"
    by (rule entry_okD)
  show ?thesis
  proof (cases "sys_read 0 fd ?n (with_plan p w)")
    case Blocked
    then have "w' = with_plan p w" "dm_pc dm' = DmRead i evs" using step e by auto
    then show ?thesis using i known by (auto intro: quiet_effect)
  next
    case (Done t)
    then obtain r bs v where W: "sys_read 0 fd ?n (with_plan p w) = Done (r, bs, v)" by (cases t) auto
    from W q(2) show ?thesis
    proof (cases rule: read_cases)
      case failed
      then have "w' = sys_free v" "dm_pc dm' = DmBatch evs" using step e W by auto
      then show ?thesis using quiet_trans [OF failed(4) quiet_heap(1)] known by (auto intro: quiet_effect)
    next
      case got
      show ?thesis
      proof (cases "w_pipes w ! q = []")
        case True
        then have "quiet w v" using got pipe_set_same [of q w] by simp
        moreover have "w' = sys_free v" "dm_pc dm' = DmBatch evs" using step e W got pos True by auto
        ultimately show ?thesis using quiet_trans [OF _ quiet_heap(1)] known by (auto intro: quiet_effect)
      next
        case False
        then have "?n \<le> length (w_pipes w ! q)" using dvd q(1) by (auto simp: bytes_in_def intro: dvd_imp_le)
        then have "w' = v" "dm_pc dm' = DmCall i (take ?n (w_pipes w ! q)) evs" using step e W got by auto
        then show ?thesis
          using takes [OF i refl q(1) False, where own = "{ctl, rep}" and evs = evs] got(3) i known \<open>?n \<le> _\<close> by simp
      qed
    qed
  qed
qed

lemma server_step:
  assumes F: "sv_files lib ctl rep e w d names callers" and lib: "lib_ok lib"
    and pc: "server_pc_ok lib names (dm_pc dm)" "p = [] \<or> \<not> at_control (dm_pc dm)"
    and dvd: "\<And>x. hf_sz_arg (lib x) dvd length (bytes_in w (pipe_name x ''_req''))"
    and step: "daemon_step 0 d (with_plan p w) dm (dm_pc dm) = (dm', w')"
  shows "effect lib {ctl, rep} names w w' (dm_pc dm) (dm_pc dm') \<and> server_pc_ok lib names (dm_pc dm')"
proof -
  have ends: "Option.bind (file_of w 0 (fst (d_to_daemon d))) read_end = Some ctl"
      "Option.bind (file_of w 0 (snd (d_from_daemon d))) write_end = Some rep"
    using sv_filesD(2) [OF F] by (simp_all add: disp_ok_def)
  show ?thesis
  proof (cases "dm_pc dm")
    case (DmBatch evs)
    show ?thesis
      using batch_effect [OF ends(1), where dm = dm and evs = evs] pc step DmBatch by simp
  next
    case (DmControl r evs)
    show ?thesis
      using control_effect [OF ends(2), where dm = dm and evs = evs] pc step DmControl by simp
  next
    case (DmRead i evs)
    have "0 < hf_sz_arg (lib (names ! i))" using lib by (simp add: lib_ok_def fun_ok_def)
    then show ?thesis using read_effect [OF F, where dm = dm and evs = evs] pc dvd step DmRead by simp
  next
    case (DmCall i args evs)
    then have i: "i < length names" using pc(1) by simp
    from sv_filesD(3) [OF F i]
    have "entry (d_foo d) i = Some (hf_foo (lib (names ! i)))" "entry (d_user_data d) i = Some (hf_data (lib (names ! i)))"
      by (elim entry_okD; simp)+
    then have "w' = with_plan p w" "dm_pc dm' = DmReply i args (hf_foo (lib (names ! i)) args (hf_data (lib (names ! i)))) evs"
      using step DmCall by auto
    then show ?thesis using pc(1) DmCall by (auto intro: quiet_effect)
  next
    case (DmReply i args ret evs)
    have ok: "i < length names" "length args = hf_sz_arg (lib (names ! i))"
        "ret = hf_foo (lib (names ! i)) args (hf_data (lib (names ! i)))" "events_known names evs"
      using pc(1) DmReply by simp_all
    from F lib ok(1-3) step [unfolded DmReply] show ?thesis
    proof (cases rule: reply_outcome)
      case waits
      then show ?thesis using pc(1) by (auto intro: quiet_effect)
    next
      case R: (replies q r)
      then show ?thesis using replies [where lib = lib, OF ok(1) R(2-4), where args = args] DmReply ok(4) by auto
    qed
  qed (use step pc(1) in \<open>auto intro: quiet_effect\<close>)
qed

section \<open>Histories\<close>

lemma gr_data_send:
  assumes D: "gr_data lib bytes srvs sent taken fin got" and m: "length m = hf_sz_arg (lib x)" "0 < hf_sz_arg (lib x)"
  shows "gr_data lib (bytes(pipe_name x ''_req'' := bytes (pipe_name x ''_req'') @ m)) srvs
    (sent(x := sent x @ [m])) taken fin got"
  using D requests_send [OF gr_dataD(1) [OF D] m]
  by (simp add: gr_data_def fifos_hold_def pipe_name_eq_iff)

lemma gr_data_got:
  assumes D: "gr_data lib bytes srvs sent taken fin got" and n: "n = hf_sz_ret (lib x)"
  shows "gr_data lib (bytes(pipe_name x ''_res'' := drop n (bytes (pipe_name x ''_res'')))) srvs sent taken fin
    (got(x := got x @ take n (bytes (pipe_name x ''_res''))))"
  using D responses_take [OF gr_dataD(2) [OF D]]
  by (simp add: gr_data_def fifos_hold_def pipe_name_eq_iff n)

text \<open>One server goes on.\<close>

lemma gr_data_server:
  assumes D: "gr_data lib bytes srvs sent taken fin got" and k: "k < length srvs"
    and ok: "server_pc_ok lib (srv_names sv) (dm_pc (srv_daemon sv))"
    and work: "in_work (srv_names sv) (dm_pc (srv_daemon sv)) = in_work (srv_names (srvs ! k)) (dm_pc (srv_daemon (srvs ! k)))"
  shows "gr_data lib bytes (srvs[k := sv]) sent taken fin got"
  using D k ok work by (auto simp: gr_data_def server_ok_def nth_list_update)

lemma gr_data_take:
  assumes D: "gr_data lib bytes srvs sent taken fin got" and k: "k < length srvs"
    and sv: "dm_pc (srv_daemon (srvs ! k)) = DmRead i evs" "x = srv_names (srvs ! k) ! i"
      "srv_names sv = srv_names (srvs ! k)" "dm_pc (srv_daemon sv) = DmCall i (take n req) evs" "server_pc_ok lib (srv_names sv) (dm_pc (srv_daemon sv))"
    and req: "req = bytes (pipe_name x ''_req'')" "req \<noteq> []" "n = hf_sz_arg (lib x)" "0 < n"
  shows "gr_data lib (bytes(pipe_name x ''_req'' := drop n req)) (srvs[k := sv]) sent
    (taken(x := taken x @ [(k, take n req)])) fin got"
proof -
  have "requests_ok lib x (drop n req) [] (sent x) (map snd (taken x) @ [take n req])"
    using requests_served [OF requests_recv(1) [OF gr_dataD(1) [OF D, of x]]] req by simp
  then have "fifos_hold lib (bytes(pipe_name x ''_req'' := drop n req)) sent (taken(x := taken x @ [(k, take n req)])) fin got"
    using D by (simp add: gr_data_def fifos_hold_def pipe_name_eq_iff)
  moreover have "server_ok lib j (srvs[k := sv] ! j) (taken(x := taken x @ [(k, take n req)])) fin" if "j < length srvs" for j
    using D that k sv by (cases "j = k") (auto simp: gr_data_def server_ok_def)
  ultimately show ?thesis using D k by (auto simp: gr_data_def)
qed

lemma gr_data_reply:
  assumes D: "gr_data lib bytes srvs sent taken fin got" and k: "k < length srvs"
    and sv: "dm_pc (srv_daemon (srvs ! k)) = DmReply i args ret evs" "x = srv_names (srvs ! k) ! i"
      "srv_names sv = srv_names (srvs ! k)" "dm_pc (srv_daemon sv) = DmBatch evs" "server_pc_ok lib (srv_names sv) (dm_pc (srv_daemon sv))"
    and r: "hf_sz_ret (lib x) dvd length r" "r = response (lib x) args \<or> r = []"
  shows "gr_data lib (bytes(pipe_name x ''_res'' := bytes (pipe_name x ''_res'') @ r)) (srvs[k := sv]) sent taken
    (fin(x := fin x @ [(k, args, r)])) got"
proof -
  have "responses_ok lib x (bytes (pipe_name x ''_res'') @ r) (map snd (fin x) @ [(args, r)]) (got x)"
    using responses_put [OF gr_dataD(2) [OF D]] r by blast
  then have "fifos_hold lib (bytes(pipe_name x ''_res'' := bytes (pipe_name x ''_res'') @ r)) sent taken
      (fin(x := fin x @ [(k, args, r)])) got"
    using D by (simp add: gr_data_def fifos_hold_def pipe_name_eq_iff)
  moreover have "server_ok lib j (srvs[k := sv] ! j) taken (fin(x := fin x @ [(k, args, r)]))" if "j < length srvs" for j
    using D that k sv by (cases "j = k") (auto simp: gr_data_def server_ok_def)
  ultimately show ?thesis using D k by (auto simp: gr_data_def)
qed

text \<open>New dispatchers and new functions.\<close>

lemma gr_data_create:
  assumes D: "gr_data lib bytes srvs sent taken fin got"
  shows "gr_data lib bytes (srvs @ [new_server d]) sent taken fin got"
proof -
  have "by_server (length srvs) (taken x) = []" "by_server (length srvs) (fin x) = []" for x
    using gr_dataD(5,6) [OF D] by (auto intro!: by_server_none)
  then show ?thesis
    using D by (auto simp: gr_data_def server_ok_def nth_append new_server_def less_Suc_eq)
qed

lemma server_pc_ok_append: "server_pc_ok lib names pc \<Longrightarrow> server_pc_ok lib (names @ new) pc"
  by (cases pc) (fastforce simp: events_known_def nth_append)+

lemma server_work_append: "server_pc_ok lib names pc \<Longrightarrow> in_work (names @ new) pc = in_work names pc"
  by (cases pc) (auto simp: nth_append fun_eq_iff)

lemma gr_data_attach:
  assumes D: "gr_data lib bytes srvs sent taken fin got" and k: "k < length srvs"
  shows "gr_data lib bytes (srvs[k := attached (srvs ! k) ret d x]) sent taken fin got"
  using gr_dataD(3) [OF D k]
  by (intro gr_data_server [OF D k]) (simp_all add: attached_def server_pc_ok_append server_work_append)

section \<open>Every step keeps the invariant\<close>

lemma gr_files_quiet:
  assumes "gr_files lib w srvs callers es" "quiet w w'"
  shows "gr_files lib w' srvs callers es" "bytes_in w' = bytes_in w"
  using gr_files_pipe [OF assms(1), of 0 "w_pipes w ! 0" w' srvs] assms(2) quiet_files(2) by (simp_all add: pipe_set_same)

lemma gr_files_plan: "gr_files lib w' srvs callers es \<Longrightarrow> gr_files lib (with_plan p w') srvs callers es"
  using gr_files_quiet(1) [of lib w' srvs callers es "with_plan p w'"] by simp

lemma gr_fifo_change:
  assumes "gr_files lib w srvs callers es" "w_fifos w path = Some q" "quiet (pipe_set q bs w) w'"
  shows "bytes_in w' = (bytes_in w)(path := bs)" "w_pipes w ! q = bytes_in w path"
  using bytes_in_pipe [OF assms(3) gr_filesD(1) [OF assms(1)] assms(2)] assms(2)
  by (simp_all add: fun_eq_iff bytes_in_def)

lemma gr_call:
  assumes F: "gr_files lib w srvs callers es" and D: "gr_data lib (bytes_in w) srvs sent taken fin got"
    and lib: "lib_ok lib" and c: "(x, pid, c) \<in> set callers" "length arg = hf_sz_arg (lib x)"
    and call: "call_host_function pid c arg (with_plan p w) = Done (ret, w')"
  shows "gr_files lib w' srvs callers es \<and>
    gr_data lib (bytes_in w') srvs (sent(x := sent x @ (if ret = 0 then [arg] else []))) taken fin got"
proof -
  have "caller_of lib w x pid c" using gr_filesD(2) [OF F] c(1) by (auto simp: callers_open_def)
  then obtain q where sz: "c_sz_arg c = hf_sz_arg (lib x)"
      and q: "w_fifos w (pipe_name x ''_req'') = Some q" "Option.bind (file_of w pid (c_req_fd c)) write_end = Some q"
    by (rule caller_ofD)
  obtain n where n: "sys_write pid (c_req_fd c) arg (with_plan p w) = Done (n, w')"
      "ret = (if n < 0 \<or> nat n \<noteq> length arg then -1 else 0)"
    using call c(2) sz by (auto simp: call_host_function_def split: io.splits)
  have pos: "0 < hf_sz_arg (lib x)" using lib by (simp add: lib_ok_def fun_ok_def)
  from n(1) q(2) show ?thesis
  proof (cases rule: write_cases)
    case failed
    then show ?thesis using D n(2) gr_files_quiet [OF F failed(3)] by simp
  next
    case written
    then show ?thesis
      using gr_files_pipe [OF F written(2)] gr_fifo_change [OF F q(1) written(2)] gr_data_send [OF D c(2) pos] n(2) by simp
  qed
qed

lemma gr_respond:
  assumes F: "gr_files lib w srvs callers es" and D: "gr_data lib (bytes_in w) srvs sent taken fin got"
    and c: "(x, pid, c) \<in> set callers"
    and resp: "get_response_host_function pid c (with_plan p w) = Done (ret, bytes, w')"
  shows "gr_files lib w' srvs callers es \<and> gr_data lib (bytes_in w') srvs sent taken fin (got(x := got x @ bytes))"
proof -
  have "caller_of lib w x pid c" using gr_filesD(2) [OF F] c(1) by (auto simp: callers_open_def)
  then obtain q where sz: "c_sz_ret c = hf_sz_ret (lib x)"
      and q: "w_fifos w (pipe_name x ''_res'') = Some q" "Option.bind (file_of w pid (c_res_fd c)) read_end = Some q"
    by (rule caller_ofD)
  obtain n where n: "sys_read pid (c_res_fd c) (hf_sz_ret (lib x)) (with_plan p w) = Done (n, bytes, w')"
    using resp sz by (auto simp: get_response_host_function_def split: io.splits)
  from n q(2) show ?thesis
  proof (cases rule: read_cases)
    case failed
    then show ?thesis using D gr_files_quiet [OF F failed(4)] by simp
  next
    case got
    then show ?thesis
      using gr_files_pipe [OF F got(3)] gr_fifo_change [OF F q(1) got(3)] gr_data_got [OF D refl, of x] by simp
  qed
qed

lemma gr_daemon:
  assumes F: "gr_files lib w srvs callers es" and D: "gr_data lib (bytes_in w) srvs sent taken fin got"
    and lib: "lib_ok lib" and k: "k < length srvs" "sv = srvs ! k" and p: "p = [] \<or> \<not> at_control (dm_pc (srv_daemon sv))"
    and step: "daemon_step 0 (srv_disp sv) (with_plan p w) (srv_daemon sv) (dm_pc (srv_daemon sv)) = (dm', w')"
  shows "gr_files lib w' (srvs[k := sv\<lparr>srv_daemon := dm'\<rparr>]) callers es \<and>
    gr_data lib (bytes_in w') (srvs[k := sv\<lparr>srv_daemon := dm'\<rparr>]) sent
      (log_taken k (srv_names sv) (dm_pc (srv_daemon sv)) (dm_pc dm') taken)
      (log_finished k (srv_names sv) w w' (dm_pc (srv_daemon sv)) (dm_pc dm') fin) got"
proof -
  let ?srvs = "srvs[k := sv\<lparr>srv_daemon := dm'\<rparr>]"
  obtain ctl rep where S: "sv_files lib ctl rep (es ! k) w (srv_disp sv) (srv_names sv) callers"
    using gr_filesD(3) [OF F k(1)] k(2) by (auto simp: server_files_def)
  have "effect lib {ctl, rep} (srv_names sv) w w' (dm_pc (srv_daemon sv)) (dm_pc dm')"
    and ok: "server_pc_ok lib (srv_names sv) (dm_pc dm')"
    using server_step [OF S lib _ p _ step] gr_dataD(3) [OF D k(1)] gr_dataD(1) [OF D] k(2)
    by (auto simp: requests_ok_def)
  have files: "gr_files lib w' ?srvs callers es" if "quiet (pipe_set q bs w) w'" for q bs
    by (rule gr_files_pipe [OF F that]) (auto simp: k nth_list_update)
  from \<open>effect _ _ _ _ _ _ _\<close> show ?thesis
  proof cases
    case (other q bs)
    then have "bytes_in w' = bytes_in w" by (intro private_bytes(1) [OF S])
    then show ?thesis
      using files [OF other(2)] gr_data_server [OF D k(1), of "sv\<lparr>srv_daemon := dm'\<rparr>"] ok other(3) k(2)
      by (simp add: unlogged_def)
  next
    case (takes i n q evs)
    have "0 < n" using lib takes(4) by (simp add: lib_ok_def fun_ok_def)
    then show ?thesis
      using files [OF takes(7)] gr_fifo_change [OF F takes(5,7)] takes(6) ok
        gr_data_take [OF D k(1), of i evs "srv_names sv ! i" "sv\<lparr>srv_daemon := dm'\<rparr>" n "w_pipes w ! q"] takes(1,2,4) k(2)
      by (simp add: log_taken_def log_finished_def)
  next
    case (replies i q r args ret evs)
    note B = gr_fifo_change [OF F replies(4,5)]
    have "drop (length (bytes_in w (pipe_name (srv_names sv ! i) ''_res''))) (bytes_in w' (pipe_name (srv_names sv ! i) ''_res'')) = r"
      using B by simp
    then show ?thesis
      using files [OF replies(5)] B ok
        gr_data_reply [OF D k(1), of i args ret evs "srv_names sv ! i" "sv\<lparr>srv_daemon := dm'\<rparr>" r] replies(1,2,6,7) k(2)
      by (simp add: log_taken_def log_finished_def Let_def)
  qed
qed

text \<open>Dispatchers and functions.\<close>

lemma gr_attach:
  assumes F: "gr_files lib w srvs callers es" and D: "gr_data lib (bytes_in w) srvs sent taken fin got"
    and k: "k < length srvs" "sv = srvs ! k" and x: "x \<notin> set (srv_names sv)"
    and att: "ret = 0 \<and> hf_sz_arg (lib x) \<le> PIPE_BUF \<and> hf_sz_ret (lib x) \<le> PIPE_BUF \<and>
        attach_done 0 x (hf_foo (lib x)) (hf_data (lib x)) b (hf_sz_arg (lib x)) (hf_sz_ret (lib x)) (srv_disp sv) w d' w' \<or>
      ret \<noteq> 0 \<and> attach_undone (srv_disp sv) w d' w'"
  shows "gr_files lib w' (srvs[k := attached sv ret d' x]) callers es \<and>
    gr_data lib (bytes_in w') (srvs[k := attached sv ret d' x]) sent taken fin got"
proof -
  obtain ctl rep where S: "sv_files lib ctl rep (es ! k) w (srv_disp sv) (srv_names sv) callers"
    using gr_filesD(3) [OF F k(1)] k(2) by (auto simp: server_files_def)
  note fifos = gr_filesD(1) [OF F] and e = disp_okD(1) [OF sv_filesD(2) [OF S]]
  have X: "extends w w' \<and> fifos_ok w' \<and> keeps_epolls {es ! k} w w'"
    using att attach_done_extends [OF _ fifos e] attach_undone_extends [OF _ fifos] by (auto simp: keeps_epolls_def)
  have "sv_files lib ctl rep (es ! k) w' d' (srv_names sv @ (if ret = 0 then [x] else [])) callers"
    using att attach_done_own [OF S x] attach_undone_own [OF S] by auto
  then have "server_files lib (es ! k) w' callers (attached sv ret d' x)"
    unfolding server_files_def by (intro exI [of _ ctl] exI [of _ rep]) (simp add: attached_def)
  moreover have "bytes_in w' = bytes_in w" using X by (auto simp: extends_def)
  ultimately show ?thesis
    using gr_files_attach [OF F k(1)] X gr_data_attach [OF D k(1), of ret d' x] k(2) by simp
qed

lemma gr_attach_legacy:
  assumes F: "gr_files lib w srvs callers es" and D: "gr_data lib (bytes_in w) srvs sent taken fin got"
    and k: "k < length srvs" "sv = srvs ! k" and x: "x \<notin> set (srv_names sv)"
    and lib: "hf_foo (lib x) = legacy_host_function_adapter" "hf_data (lib x) = LegacyContext foo"
    and att: "attach_host_function 0 (srv_disp sv) x foo (hf_sz_arg (lib x)) (hf_sz_ret (lib x)) (with_plan p w) = Some (ret, d', w')"
  shows "gr_files lib w' (srvs[k := attached sv ret d' x]) callers es \<and>
    gr_data lib (bytes_in w') (srvs[k := attached sv ret d' x]) sent taken fin got"
proof -
  have F': "gr_files lib v srvs callers es" and D': "gr_data lib (bytes_in v) srvs sent taken fin got"
    if "quiet (with_plan p w) v" for v
    using gr_files_quiet [OF F, of v] D that by simp_all
  note Q = quiet_refl [of "with_plan p w"]
  from attach_host_function_spec [OF att] show ?thesis
  proof (elim disjE conjE exE)
    assume "ret \<in> {-1, -2, -3, -4, -5}" "attach_undone (srv_disp sv) (with_plan p w) d' w'"
    then show ?thesis by (intro gr_attach [OF F' [OF Q] D' [OF Q] k x, of ret True]) auto
  next
    fix v assume "ret = 0" and sz: "hf_sz_arg (lib x) \<le> PIPE_BUF" "hf_sz_ret (lib x) \<le> PIPE_BUF"
      and v: "sys_alloc (with_plan p w) = (True, v)" and
      A: "attach_done 0 x legacy_host_function_adapter (LegacyContext foo) True (hf_sz_arg (lib x)) (hf_sz_ret (lib x))
        (srv_disp sv) v d' w'"
    note Q = quiet_heap(2) [OF v]
    show ?thesis using lib A sz \<open>ret = 0\<close> by (intro gr_attach [OF F' [OF Q] D' [OF Q] k x, of ret True]) simp
  qed
qed

lemma gr_stop:
  assumes F: "gr_files lib w srvs callers es" and k: "k < length srvs"
    and stop: "delete_request 0 (srv_disp (srvs ! k)) (with_plan p w) = Done (ret, w')"
  shows "gr_files lib w' srvs callers es \<and> bytes_in w' = bytes_in w"
proof -
  obtain ctl rep where S: "sv_files lib ctl rep (es ! k) w (srv_disp (srvs ! k)) (srv_names (srvs ! k)) callers"
    using gr_filesD(3) [OF F k] by (auto simp: server_files_def)
  have "Option.bind (file_of w 0 (snd (d_to_daemon (srv_disp (srvs ! k))))) write_end = Some ctl"
    using sv_filesD(2) [OF S] by (simp add: disp_ok_def)
  from stop [unfolded delete_request_def] this show ?thesis
  proof (cases rule: write_cases)
    case failed
    then show ?thesis using gr_files_quiet [OF F failed(3)] by simp
  next
    case written
    then show ?thesis using gr_files_pipe [OF F written(2)] private_bytes(1) [OF S _ written(2)] by simp
  qed
qed

lemma joins_bytes: "caller_joins lib w w' newc \<Longrightarrow> bytes_in w' = bytes_in w"
  by (auto simp: caller_joins_def extends_def)

lemma gr_wait:
  assumes F: "gr_files lib w srvs callers es" and D: "gr_data lib bytes srvs sent taken fin got"
    and k: "k < length srvs" "sv = srvs ! k" and evs: "epoll_reports 0 (srv_disp sv) w evs" "dm_pc (srv_daemon sv) = DmWait"
  shows "gr_files lib w (srvs[k := sv\<lparr>srv_daemon := daemon_wait 0 (srv_disp sv) evs w (srv_daemon sv)\<rparr>]) callers es \<and>
    gr_data lib bytes (srvs[k := sv\<lparr>srv_daemon := daemon_wait 0 (srv_disp sv) evs w (srv_daemon sv)\<rparr>]) sent taken fin got"
proof
  obtain ctl rep where S: "sv_files lib ctl rep (es ! k) w (srv_disp sv) (srv_names sv) callers"
    using gr_filesD(3) [OF F k(1)] k(2) by (auto simp: server_files_def)
  have "events_known (srv_names sv) evs"
    using reported_events [OF S evs(1)] by (auto simp: events_ok_def events_known_def)
  then show "gr_data lib bytes (srvs[k := sv\<lparr>srv_daemon := daemon_wait 0 (srv_disp sv) evs w (srv_daemon sv)\<rparr>]) sent taken fin got"
    using k(2) evs by (intro gr_data_server [OF D k(1)]) (auto simp: daemon_wait_def)
  show "gr_files lib w (srvs[k := sv\<lparr>srv_daemon := daemon_wait 0 (srv_disp sv) evs w (srv_daemon sv)\<rparr>]) callers es"
    by (rule gr_files_pipe [OF F, of 0 "w_pipes w ! 0"]) (auto simp: pipe_set_same k nth_list_update)
qed

lemma gr_invI:
  assumes "gr_files lib w (gr_servers s) (gr_callers s) es \<and>
      gr_data lib (bytes_in w) (gr_servers s) (gr_sent s) (gr_taken s) (gr_finished s) (gr_got s)"
    and "gr_world s = with_plan [] w"
  shows "\<exists>es. gr_inv lib s es"
  using assms gr_files_plan [of lib w] unfolding gr_inv_def by (intro exI [of _ es]) simp

lemma gr_attach_ex:
  assumes F: "gr_files lib w srvs callers es" and D: "gr_data lib (bytes_in w) srvs sent taken fin got"
    and k: "k < length srvs" "sv = srvs ! k" and x: "x \<notin> set (srv_names sv)"
    and att: "attach_host_function_ex 0 (srv_disp sv) x (hf_foo (lib x)) (hf_data (lib x)) (hf_sz_arg (lib x))
       (hf_sz_ret (lib x)) (with_plan p w) = Some (ret, d', w')"
  shows "gr_files lib w' (srvs[k := attached sv ret d' x]) callers es \<and>
    gr_data lib (bytes_in w') (srvs[k := attached sv ret d' x]) sent taken fin got"
proof -
  have D': "gr_data lib (bytes_in (with_plan p w)) srvs sent taken fin got" using D by simp
  show ?thesis
    using attach_host_function_ex_spec [OF att] by (intro gr_attach [OF gr_files_plan [OF F] D' k x, of ret False]) auto
qed

lemma gr_joins:
  assumes "gr_files lib w srvs callers es" "gr_data lib (bytes_in w) srvs sent taken fin got" "caller_joins lib w w' newc"
  shows "gr_files lib w' srvs (callers @ newc) es \<and> gr_data lib (bytes_in w') srvs sent taken fin got"
  using gr_files_joins [OF assms(1,3)] assms(2) joins_bytes [OF assms(3)] by simp

lemma gr_unlink:
  assumes F: "gr_files lib w srvs callers es" and D: "gr_data lib (bytes_in w) srvs sent taken fin got"
    and "(x, pid, c) \<in> set callers" "\<exists>sv \<in> set srvs. x \<in> set (srv_names sv)"
      "unlink_host_function pid c (with_plan p w) = (ret, w')"
  shows "gr_files lib w' srvs (remove1 (x, pid, c) callers) es \<and> gr_data lib (bytes_in w') srvs sent taken fin got"
proof -
  obtain k where "k < length srvs" using assms(4) by (auto simp: in_set_conv_nth)
  then show ?thesis using gr_files_unlink [OF F assms(3) _ assms(5)] D by simp
qed

lemma gr_step_keeps:
  assumes lib: "lib_ok lib" and "gr_step lib s s'" and I: "gr_inv lib s es"
  shows "\<exists>es. gr_inv lib s' es"
proof -
  have plan: "w_plan (gr_world s) = []"
    and F: "gr_files lib (gr_world s) (gr_servers s) (gr_callers s) es"
    and D: "gr_data lib (bytes_in (gr_world s)) (gr_servers s) (gr_sent s) (gr_taken s) (gr_finished s) (gr_got s)"
    using I by (simp_all add: gr_inv_def)
  note fifos = gr_filesD(1) [OF F]
  from assms(2) show ?thesis
  proof cases
    case (create n d w')
    show ?thesis by (rule gr_invI [of lib w' _ "es @ [length (w_epolls (gr_world s))]"])
        (use gr_files_create [OF F plan create(2)] gr_data_create [OF D, of d] in \<open>simp_all add: create(1) with_plan_def\<close>)
  next
    case (attach k sv x p ret d' w')
    show ?thesis by (rule gr_invI [of lib w' _ es]) (use gr_attach_ex [OF F D attach(2-5)] in \<open>simp_all add: attach(1)\<close>)
  next
    case (attach_legacy k sv x foo p ret d' w')
    show ?thesis
      by (rule gr_invI [of lib w' _ es]) (use gr_attach_legacy [OF F D attach_legacy(2-7)] in \<open>simp_all add: attach_legacy(1)\<close>)
  next
    case (link pid x p c w')
    note J = gr_joins [OF F D link_joins [where lib = lib, OF link(2,3) fifos]]
    show ?thesis by (rule gr_invI [of lib w' _ es]) (use J in \<open>simp_all add: link(1)\<close>)
  next
    case (link_null pid x p w')
    note J = gr_joins [OF F D link_null_joins [OF link_null(2,3) fifos]]
    show ?thesis by (rule gr_invI [of lib w' _ es]) (use J in \<open>simp_all add: link_null(1)\<close>)
  next
    case (unlink x pid c p ret w')
    show ?thesis by (rule gr_invI [of lib w' _ es]) (use gr_unlink [OF F D unlink(2-4)] in \<open>simp_all add: unlink(1)\<close>)
  next
    case (call x pid c arg p ret w')
    show ?thesis by (rule gr_invI [of lib w' _ es]) (use gr_call [OF F D lib call(2-4)] in \<open>simp_all add: call(1)\<close>)
  next
    case (respond x pid c p ret bytes w')
    show ?thesis by (rule gr_invI [of lib w' _ es]) (use gr_respond [OF F D respond(2,3)] in \<open>simp_all add: respond(1)\<close>)
  next
    case (wait k sv evs)
    show ?thesis
      by (rule gr_invI [of lib "gr_world s" _ es]) (use gr_wait [OF F D wait(2-5)] plan in \<open>simp_all add: wait(1) with_plan_def\<close>)
  next
    case (daemon k sv p dm' w')
    show ?thesis by (rule gr_invI [of lib w' _ es]) (use gr_daemon [OF F D lib daemon(2-5)] in \<open>simp_all add: daemon(1)\<close>)
  next
    case (stop k p ret w')
    show ?thesis by (rule gr_invI [of lib w' _ es]) (use gr_stop [OF F stop(2,3)] D in \<open>simp_all add: stop(1)\<close>)
  qed
qed

lemma gr_reach_inv:
  assumes "lib_ok lib" "gr_reach lib s"
  shows "\<exists>es. gr_inv lib s es"
  using assms(2)
proof induction
  case (start w s)
  then have "gr_inv lib s []"
    by (simp add: gr_start_def gr_inv_def gr_files_def gr_data_def fifos_hold_def callers_open_def requests_ok_def responses_ok_def)
  then show ?case by blast
next
  case (step s s')
  then show ?case using gr_step_keeps [OF assms(1)] by blast
qed

end
