(* ===== verification/Cpp_Layout.thy ===== *)
theory Cpp_Layout
  imports Ipc_Prelude
begin

text \<open>
  How C++ objects lie in memory (x86-64, Itanium ABI), as far as include/robot_ipc.hpp relies
  on it: the sizes and offsets of the types that are sent, the type traits its checks use, and
  the bytes a value is stored as. A value of a type may have several representations, since the
  padding of a class keeps what the memory held before.
\<close>

section \<open>Types\<close>

text \<open>
  A class has a name, its members in order, and what the traits ask for: whether it is packed,
  whether its members have the same access control, whether it has virtual functions, and
  whether its copy operations and its destructor are trivial.
\<close>

record class_info =
  cls_name :: string
  cls_packed :: bool
  cls_same_access :: bool
  cls_virtual :: bool
  cls_trivial_copy :: bool
  cls_trivial_destructor :: bool

datatype cpp_type =
    Integer nat
  | Floating nat
  | Pointer
  | Reference
  | Array cpp_type nat
  | Class class_info "cpp_type list"

definition plain_class :: "string \<Rightarrow> cpp_type list \<Rightarrow> cpp_type" where
  "plain_class name ts = Class \<lparr>cls_name = name, cls_packed = False, cls_same_access = True,
     cls_virtual = False, cls_trivial_copy = True, cls_trivial_destructor = True\<rparr> ts"

definition packed_class :: "string \<Rightarrow> cpp_type list \<Rightarrow> cpp_type" where
  "packed_class name ts = Class \<lparr>cls_name = name, cls_packed = True, cls_same_access = True,
     cls_virtual = False, cls_trivial_copy = True, cls_trivial_destructor = True\<rparr> ts"

section \<open>Sizes and offsets\<close>

definition round_up :: "nat \<Rightarrow> nat \<Rightarrow> nat" where
  "round_up off a = off + (a - off mod a) mod a"

fun alignof :: "cpp_type \<Rightarrow> nat" and max_align :: "cpp_type list \<Rightarrow> nat" where
  "alignof (Integer n) = n"
| "alignof (Floating n) = n"
| "alignof Pointer = 8"
| "alignof Reference = 8"
| "alignof (Array t n) = alignof t"
| "alignof (Class c ts) =
     (if cls_packed c then 1 else if cls_virtual c then max 8 (max_align ts) else max_align ts)"
| "max_align [] = 1"
| "max_align (t # ts) = max (alignof t) (max_align ts)"

text \<open>Where a member goes that comes at offset \<open>off\<close> or later.\<close>

definition place :: "bool \<Rightarrow> nat \<Rightarrow> cpp_type \<Rightarrow> nat" where
  "place packed off t = (if packed then off else round_up off (alignof t))"

definition first_offset :: "class_info \<Rightarrow> nat" where
  "first_offset c = (if cls_virtual c then 8 else 0)"

fun sizeof :: "cpp_type \<Rightarrow> nat" and fields_end :: "bool \<Rightarrow> nat \<Rightarrow> cpp_type list \<Rightarrow> nat" where
  "sizeof (Integer n) = n"
| "sizeof (Floating n) = n"
| "sizeof Pointer = 8"
| "sizeof Reference = 8"
| "sizeof (Array t n) = n * sizeof t"
| "sizeof (Class c ts) =
     max 1 (round_up (fields_end (cls_packed c) (first_offset c) ts) (alignof (Class c ts)))"
| "fields_end packed off [] = off"
| "fields_end packed off (t # ts) = fields_end packed (place packed off t + sizeof t) ts"

section \<open>Type traits of the standard library\<close>

fun is_pointer :: "cpp_type \<Rightarrow> bool" where
  "is_pointer Pointer = True"
| "is_pointer _ = False"

fun is_reference :: "cpp_type \<Rightarrow> bool" where
  "is_reference Reference = True"
| "is_reference _ = False"

fun is_standard_layout :: "cpp_type \<Rightarrow> bool" where
  "is_standard_layout (Integer n) = True"
| "is_standard_layout (Floating n) = True"
| "is_standard_layout Pointer = True"
| "is_standard_layout Reference = False"
| "is_standard_layout (Array t n) = is_standard_layout t"
| "is_standard_layout (Class c ts) =
     (cls_same_access c \<and> \<not> cls_virtual c \<and> (\<forall>t \<in> set ts. is_standard_layout t))"

fun is_trivially_destructible :: "cpp_type \<Rightarrow> bool" where
  "is_trivially_destructible (Array t n) = is_trivially_destructible t"
| "is_trivially_destructible (Class c ts) =
     (cls_trivial_destructor c \<and> (\<forall>t \<in> set ts. is_trivially_destructible t))"
| "is_trivially_destructible _ = True"

fun is_trivially_copyable :: "cpp_type \<Rightarrow> bool" where
  "is_trivially_copyable Reference = False"
| "is_trivially_copyable (Array t n) = is_trivially_copyable t"
| "is_trivially_copyable (Class c ts) =
     (cls_trivial_copy c \<and> cls_trivial_destructor c \<and> \<not> cls_virtual c \<and>
      (\<forall>t \<in> set ts. is_reference t \<or> is_trivially_copyable t))"
| "is_trivially_copyable _ = True"

fun has_unique_object_representations :: "cpp_type \<Rightarrow> bool" where
  "has_unique_object_representations (Floating n) = False"
| "has_unique_object_representations Reference = False"
| "has_unique_object_representations (Array t n) = has_unique_object_representations t"
| "has_unique_object_representations (Class c ts) =
     (is_trivially_copyable (Class c ts) \<and> (\<forall>t \<in> set ts. has_unique_object_representations t) \<and>
      sizeof (Class c ts) = sum_list (map sizeof ts))"
| "has_unique_object_representations _ = True"

section \<open>Values and their bytes\<close>

text \<open>A scalar is its bits (of an integer, a floating-point number or an address).\<close>

datatype cpp_value = Bits u64 | Values "cpp_value list"

fun scalar_size :: "cpp_type \<Rightarrow> nat option" where
  "scalar_size (Array t n) = None"
| "scalar_size (Class c ts) = None"
| "scalar_size t = Some (sizeof t)"

fun fits :: "cpp_type \<Rightarrow> cpp_value \<Rightarrow> bool" and fits_fields :: "cpp_type list \<Rightarrow> cpp_value list \<Rightarrow> bool" where
  "fits (Array t n) (Values vs) = (length vs = n \<and> (\<forall>v \<in> set vs. fits t v))"
| "fits (Class c ts) (Values vs) = fits_fields ts vs"
| "fits t (Bits v) = (case scalar_size t of None \<Rightarrow> False | Some n \<Rightarrow> take_bit (8 * n) v = v)"
| "fits t (Values vs) = False"
| "fits_fields [] vs = (vs = [])"
| "fits_fields (t # ts) vs = (case vs of [] \<Rightarrow> False | v # vs \<Rightarrow> fits t v \<and> fits_fields ts vs)"

primrec store_elems :: "(cpp_value \<Rightarrow> u8 list \<Rightarrow> u8 list) \<Rightarrow> nat \<Rightarrow> cpp_value list \<Rightarrow> u8 list \<Rightarrow> u8 list" where
  "store_elems f w [] mem = mem"
| "store_elems f w (v # vs) mem =
     (let mem' = f v mem in take w mem' @ store_elems f w vs (drop w mem'))"

text \<open>
  Storing a value at the front of a piece of memory: what is not a member stays as it was.
  \<open>store_fields\<close> gets the memory from offset \<open>off\<close> of the object on.
\<close>

fun store :: "cpp_type \<Rightarrow> cpp_value \<Rightarrow> u8 list \<Rightarrow> u8 list"
  and store_fields :: "bool \<Rightarrow> nat \<Rightarrow> cpp_type list \<Rightarrow> cpp_value list \<Rightarrow> u8 list \<Rightarrow> u8 list" where
  "store (Array t n) (Values vs) mem = store_elems (\<lambda>v m. store t v m) (sizeof t) vs mem"
| "store (Class c ts) (Values vs) mem =
     take (first_offset c) mem @ store_fields (cls_packed c) (first_offset c) ts vs (drop (first_offset c) mem)"
| "store t (Bits v) mem = bytes_of (sizeof t) v @ drop (sizeof t) mem"
| "store t (Values vs) mem = mem"
| "store_fields packed off [] vs mem = mem"
| "store_fields packed off (t # ts) vs mem =
     (case vs of
        [] \<Rightarrow> mem
      | v # vs \<Rightarrow>
          let gap = place packed off t - off; mem' = store t v (drop gap mem) in
          take gap mem @ take (sizeof t) mem' @
            store_fields packed (place packed off t + sizeof t) ts vs (drop (sizeof t) mem'))"

fun load :: "cpp_type \<Rightarrow> u8 list \<Rightarrow> cpp_value"
  and load_fields :: "bool \<Rightarrow> nat \<Rightarrow> cpp_type list \<Rightarrow> u8 list \<Rightarrow> cpp_value list" where
  "load (Array t n) mem = Values (map (\<lambda>i. load t (drop (i * sizeof t) mem)) [0..<n])"
| "load (Class c ts) mem = Values (load_fields (cls_packed c) (first_offset c) ts (drop (first_offset c) mem))"
| "load t mem = Bits (word_of (take (sizeof t) mem))"
| "load_fields packed off [] mem = []"
| "load_fields packed off (t # ts) mem =
     (let gap = place packed off t - off in
      load t (drop gap mem) # load_fields packed (place packed off t + sizeof t) ts (drop (gap + sizeof t) mem))"

section \<open>Offsets\<close>

lemma place_ge [simp]: "off \<le> place packed off t"
  by (simp add: place_def round_up_def)

lemma round_up_ge [simp]: "off \<le> round_up off a"
  by (simp add: round_up_def)

lemma fields_end_ge: "off + sum_list (map sizeof ts) \<le> fields_end packed off ts"
proof (induction ts arbitrary: off)
  case (Cons t ts)
  have "off + sizeof t + sum_list (map sizeof ts) \<le> place packed off t + sizeof t + sum_list (map sizeof ts)"
    by simp
  also note Cons.IH
  finally show ?case by (simp add: add.assoc)
qed simp

lemma fields_end_mono [simp]: "off \<le> fields_end packed off ts"
  using fields_end_ge [of off ts packed] by simp

lemma class_fits [simp]: "fields_end (cls_packed c) (first_offset c) ts \<le> sizeof (Class c ts)"
  unfolding sizeof.simps by (rule max.coboundedI2) simp

text \<open>A class whose size is the sum of its members' sizes has no padding.\<close>

lemma no_gap:
  assumes "fields_end packed off (t # ts) = off + sum_list (map sizeof (t # ts))"
  shows "place packed off t = off" "fields_end packed (off + sizeof t) ts = (off + sizeof t) + sum_list (map sizeof ts)"
  using assms fields_end_ge [of "place packed off t + sizeof t" ts packed] place_ge [of off packed t]
  by (auto simp: le_antisym)

section \<open>What is stored is what is loaded\<close>

lemma take_split_eq: "take (n + k) m = take (n + k) m' \<Longrightarrow> take k (drop n m) = take k (drop n m')"
  by (metis add.commute drop_take diff_add_inverse2)

lemma take_less_eq: "take n m = take n m' \<Longrightarrow> k \<le> n \<Longrightarrow> take k m = take k m'"
  by (metis min.absorb1 take_take)

lemma take_inner_eq: "take n m = take n m' \<Longrightarrow> i + k \<le> n \<Longrightarrow> take k (drop i m) = take k (drop i m')"
  by (rule take_split_eq) (rule take_less_eq)

text \<open>A load depends on the bytes of the object only.\<close>

text \<open>The gap before the first member, and the bytes from its end to the last member's end.\<close>

lemma member_cases:
  obtains g r where "place packed off t = off + g"
    "fields_end packed (off + (g + sizeof t)) ts = off + (g + sizeof t) + r"
    "fields_end packed off (t # ts) = off + (g + sizeof t) + r"
proof -
  obtain g where g: "place packed off t = off + g" using place_ge le_Suc_ex by blast
  moreover obtain r where r: "fields_end packed (off + (g + sizeof t)) ts = off + (g + sizeof t) + r"
    using fields_end_mono le_Suc_ex by blast
  ultimately show ?thesis using that [OF g r] by (simp add: add.assoc)
qed

lemma load_fields_local:
  assumes "\<And>t m m'. t \<in> set ts \<Longrightarrow> take (sizeof t) m = take (sizeof t) m' \<Longrightarrow> load t m = load t m'"
    and "take (fields_end packed off ts - off) m = take (fields_end packed off ts - off) m'"
  shows "load_fields packed off ts m = load_fields packed off ts m'"
  using assms
proof (induction ts arbitrary: off m m')
  case (Cons t ts)
  obtain g r where o: "place packed off t = off + g"
      "fields_end packed (off + (g + sizeof t)) ts = off + (g + sizeof t) + r"
      "fields_end packed off (t # ts) = off + (g + sizeof t) + r"
    by (rule member_cases)
  have same: "take (g + sizeof t + r) m = take (g + sizeof t + r) m'"
    using Cons.prems(2) unfolding o(3) by (simp add: add.assoc)
  have "load t (drop g m) = load t (drop g m')"
    by (intro Cons.prems(1) take_inner_eq [OF same]) simp_all
  moreover have "load_fields packed (off + (g + sizeof t)) ts (drop (g + sizeof t) m) =
      load_fields packed (off + (g + sizeof t)) ts (drop (g + sizeof t) m')"
  proof (rule Cons.IH)
    show "take (fields_end packed (off + (g + sizeof t)) ts - (off + (g + sizeof t))) (drop (g + sizeof t) m) =
        take (fields_end packed (off + (g + sizeof t)) ts - (off + (g + sizeof t))) (drop (g + sizeof t) m')"
      unfolding o(2) diff_add_inverse by (rule take_inner_eq [OF same]) simp
  qed (rule Cons.prems(1), auto)
  ultimately show ?case by (simp add: Let_def o(1) add.assoc)
qed simp

lemma load_local: "take (sizeof t) m = take (sizeof t) m' \<Longrightarrow> load t m = load t m'"
proof (induction t arbitrary: m m')
  case (Array t n)
  have "load t (drop (i * sizeof t) m) = load t (drop (i * sizeof t) m')" if "i < n" for i
  proof (rule Array.IH)
    have "Suc i * sizeof t \<le> n * sizeof t" using that by (intro mult_le_mono1) simp
    then have "i * sizeof t + sizeof t \<le> n * sizeof t" by simp
    then show "take (sizeof t) (drop (i * sizeof t) m) = take (sizeof t) (drop (i * sizeof t) m')"
      using Array.prems by (intro take_inner_eq [of "n * sizeof t"]) simp_all
  qed
  then show ?case by simp
next
  case (Class c ts)
  let ?e = "fields_end (cls_packed c) (first_offset c) ts"
  have "take (?e - first_offset c) (drop (first_offset c) m) = take (?e - first_offset c) (drop (first_offset c) m')"
    using class_fits [of c ts] fields_end_mono [of "first_offset c" "cls_packed c" ts]
    by (intro take_inner_eq [OF Class.prems]) (simp del: sizeof.simps)
  then have "load_fields (cls_packed c) (first_offset c) ts (drop (first_offset c) m) =
      load_fields (cls_packed c) (first_offset c) ts (drop (first_offset c) m')"
    by (rule load_fields_local [rotated]) (rule Class.IH)
  then show ?case by simp
qed auto

text \<open>
  What storing a value does, for one type: the length of the memory and what lies behind the
  object are as before, and the object is the value.
\<close>

definition stores_well :: "cpp_type \<Rightarrow> bool" where
  "stores_well t \<longleftrightarrow> (\<forall>v m. fits t v \<longrightarrow> sizeof t \<le> length m \<longrightarrow>
     length (store t v m) = length m \<and> drop (sizeof t) (store t v m) = drop (sizeof t) m \<and>
     load t (store t v m) = v)"

lemma stores_wellD:
  assumes "stores_well t" "fits t v" "sizeof t \<le> length m"
  shows "length (store t v m) = length m" "drop (sizeof t) (store t v m) = drop (sizeof t) m"
    "load t (store t v m) = v" "load t (take (sizeof t) (store t v m) @ rest) = v"
proof -
  show *: "length (store t v m) = length m" "drop (sizeof t) (store t v m) = drop (sizeof t) m"
    "load t (store t v m) = v"
    using assms by (simp_all add: stores_well_def)
  have "load t (take (sizeof t) (store t v m) @ rest) = load t (store t v m)"
    using assms(3) *(1) by (intro load_local) simp
  then show "load t (take (sizeof t) (store t v m) @ rest) = v" using *(3) by simp
qed

lemma store_fields_well:
  assumes "\<And>t. t \<in> set ts \<Longrightarrow> stores_well t" "fits_fields ts vs" "fields_end packed off ts - off \<le> length m"
  shows "length (store_fields packed off ts vs m) = length m \<and>
    drop (fields_end packed off ts - off) (store_fields packed off ts vs m) = drop (fields_end packed off ts - off) m \<and>
    load_fields packed off ts (store_fields packed off ts vs m) = vs"
  using assms
proof (induction ts arbitrary: off vs m)
  case (Cons t ts)
  obtain v ws where vs: "vs = v # ws" "fits t v" "fits_fields ts ws"
    using Cons.prems(2) by (auto split: list.splits)
  obtain g r where o: "place packed off t = off + g"
      "fields_end packed (off + (g + sizeof t)) ts = off + (g + sizeof t) + r"
      "fields_end packed off (t # ts) = off + (g + sizeof t) + r"
    by (rule member_cases)
  have len: "g + sizeof t + r \<le> length m" using Cons.prems(3) unfolding o(3) by simp
  define m' where "m' = store t v (drop g m)"
  define rest where "rest = store_fields packed (off + (g + sizeof t)) ts ws (drop (sizeof t) m')"
  have "sizeof t \<le> length (drop g m)" using len by simp
  note w = stores_wellD [OF Cons.prems(1) [of t] vs(2) this, folded m'_def]
  have front: "length (take g m) = g" "length (take (sizeof t) m') = sizeof t"
    using len w(1) by simp_all
  have IH: "length rest = length (drop (sizeof t) m')" "drop r rest = drop r (drop (sizeof t) m')"
      "load_fields packed (off + (g + sizeof t)) ts rest = ws"
    using Cons.IH [of ws "off + (g + sizeof t)" "drop (sizeof t) m'"] Cons.prems(1) vs(3) len w(1)
    by (simp_all add: o(2) rest_def)
  have s: "store_fields packed off (t # ts) vs m = take g m @ take (sizeof t) m' @ rest"
    by (simp add: vs(1) Let_def o(1) m'_def rest_def add.assoc)
  have "load_fields packed off (t # ts) (take g m @ take (sizeof t) m' @ rest) = vs"
    using w(4) [of rest] IH(3) front by (simp add: Let_def vs(1) o(1) add.assoc)
  moreover have "drop (g + sizeof t + r) (take g m @ take (sizeof t) m' @ rest) = drop (g + sizeof t + r) m"
  proof -
    have "drop (g + sizeof t + r) (take g m @ take (sizeof t) m' @ rest) = drop r rest"
      using front by simp
    also have "\<dots> = drop r (drop (sizeof t) (drop g m))" unfolding IH(2) using w(2) by simp
    finally show ?thesis by (simp add: ac_simps)
  qed
  moreover have "length (take g m @ take (sizeof t) m' @ rest) = length m"
    using len IH(1) w(1) front by simp
  ultimately show ?case unfolding s o(3) by (simp add: add.assoc)
qed auto

lemma store_elems_well:
  assumes "stores_well t" "\<forall>v \<in> set vs. fits t v" "length vs * sizeof t \<le> length m"
  shows "length (store_elems (store t) (sizeof t) vs m) = length m \<and>
    drop (length vs * sizeof t) (store_elems (store t) (sizeof t) vs m) = drop (length vs * sizeof t) m \<and>
    map (\<lambda>i. load t (drop (i * sizeof t) (store_elems (store t) (sizeof t) vs m))) [0..<length vs] = vs"
  using assms
proof (induction vs arbitrary: m)
  case (Cons v vs)
  define m' where "m' = store t v m"
  define rest where "rest = store_elems (store t) (sizeof t) vs (drop (sizeof t) m')"
  have len: "sizeof t + length vs * sizeof t \<le> length m" "sizeof t \<le> length m" "fits t v"
    using Cons.prems by simp_all
  note w = stores_wellD [OF Cons.prems(1) len(3,2), folded m'_def]
  have front: "length (take (sizeof t) m') = sizeof t" using len w(1) by simp
  have IH: "length rest = length (drop (sizeof t) m')"
      "drop (length vs * sizeof t) rest = drop (length vs * sizeof t) (drop (sizeof t) m')"
      "map (\<lambda>i. load t (drop (i * sizeof t) rest)) [0..<length vs] = vs"
    using Cons.IH [of "drop (sizeof t) m'"] Cons.prems len w(1) by (simp_all add: rest_def)
  have s: "store_elems (store t) (sizeof t) (v # vs) m = take (sizeof t) m' @ rest"
    by (simp add: Let_def m'_def rest_def)
  have "drop (length (v # vs) * sizeof t) (take (sizeof t) m' @ rest) = drop (length vs * sizeof t) rest"
    using front by simp
  moreover have "\<dots> = drop (length (v # vs) * sizeof t) m"
    unfolding IH(2) using w(2) by (simp add: add.commute)
  moreover have "map (\<lambda>i. load t (drop (i * sizeof t) (take (sizeof t) m' @ rest))) [0..<Suc (length vs)] =
      load t (take (sizeof t) m' @ rest) # map (\<lambda>i. load t (drop (i * sizeof t) rest)) [0..<length vs]"
    using front by (simp add: upt_conv_Cons map_Suc_upt [symmetric] o_def del: upt_Suc)
  ultimately show ?case
    unfolding s using IH(1,3) w(1) w(4) [of rest] len(1) front by simp
qed simp

lemma stores_well [simp]: "stores_well t"
proof (induction t)
  case (Array t n)
  have "store (Array t n) (Values vs) m = store_elems (store t) (sizeof t) vs m" for vs m by simp
  then show ?case
    unfolding stores_well_def using store_elems_well [OF Array.IH]
    by (auto simp del: store.simps sizeof.simps elim!: fits.elims) fastforce+
next
  case (Class c ts)
  have "length (store (Class c ts) (Values vs) m) = length m \<and>
      drop (sizeof (Class c ts)) (store (Class c ts) (Values vs) m) = drop (sizeof (Class c ts)) m \<and>
      load (Class c ts) (store (Class c ts) (Values vs) m) = Values vs"
    if "fits_fields ts vs" "sizeof (Class c ts) \<le> length m" for vs m
  proof -
    obtain e where e: "fields_end (cls_packed c) (first_offset c) ts = first_offset c + e"
      using fields_end_mono le_Suc_ex by blast
    then obtain k where k: "sizeof (Class c ts) = first_offset c + e + k"
      using class_fits [of c ts] le_Suc_ex by metis
    have len: "first_offset c \<le> length m" "e \<le> length (drop (first_offset c) m)"
      using that(2) unfolding k by simp_all
    define r where "r = store_fields (cls_packed c) (first_offset c) ts vs (drop (first_offset c) m)"
    have r: "length r = length m - first_offset c" "drop e r = drop e (drop (first_offset c) m)"
        "load_fields (cls_packed c) (first_offset c) ts r = vs"
      using store_fields_well [OF Class.IH that(1), of "cls_packed c" "first_offset c" "drop (first_offset c) m"]
        len e by (simp_all add: r_def)
    have "drop (first_offset c + e + k) (take (first_offset c) m @ r) = drop k (drop e r)"
      using len by (simp add: add.commute)
    then have "drop (first_offset c + e + k) (take (first_offset c) m @ r) = drop (first_offset c + e + k) m"
      unfolding r(2) by (simp add: ac_simps)
    then show ?thesis
      using r(1,3) len unfolding k by (simp flip: r_def)
  qed
  then show ?case
    unfolding stores_well_def by (auto simp del: store.simps sizeof.simps load.simps elim!: fits.elims)
qed (auto simp: stores_well_def word_of_bytes_of elim!: fits.elims)

section \<open>Padding\<close>

text \<open>A type without padding: every byte of an object belongs to a scalar of its value.\<close>

fun padding_free :: "cpp_type \<Rightarrow> bool" where
  "padding_free (Array t n) = padding_free t"
| "padding_free (Class c ts) =
     (\<not> cls_virtual c \<and> (\<forall>t \<in> set ts. padding_free t) \<and> sizeof (Class c ts) = sum_list (map sizeof ts))"
| "padding_free _ = True"

lemma unique_padding_free: "has_unique_object_representations t \<Longrightarrow> padding_free t"
  by (induction t) auto

lemma round_up_one [simp]: "round_up off 1 = off" "round_up off (Suc 0) = off"
  by (simp_all add: round_up_def)

lemma packed_end: "fields_end True off ts = off + sum_list (map sizeof ts)"
  by (induction ts arbitrary: off) (simp_all add: place_def)

lemma packed_padding_free:
  "\<forall>t \<in> set ts. padding_free t \<Longrightarrow> 0 < sum_list (map sizeof ts) \<Longrightarrow> padding_free (packed_class name ts)"
  by (simp add: packed_class_def packed_end first_offset_def max_def)

text \<open>The bytes of a value, if there is no padding.\<close>

definition repr :: "cpp_type \<Rightarrow> cpp_value \<Rightarrow> u8 list" where
  "repr t v = take (sizeof t) (store t v (replicate (sizeof t) 0))"

lemma store_fields_bytes:
  assumes "\<And>t v m. t \<in> set ts \<Longrightarrow> fits t v \<Longrightarrow> sizeof t \<le> length m \<Longrightarrow> take (sizeof t) (store t v m) = repr t v"
    and "fits_fields ts vs" "fields_end packed off ts = off + sum_list (map sizeof ts)"
    and "sum_list (map sizeof ts) \<le> length m"
  shows "take (sum_list (map sizeof ts)) (store_fields packed off ts vs m) = concat (map2 repr ts vs)"
  using assms
proof (induction ts arbitrary: off vs m)
  case (Cons t ts)
  obtain v ws where vs: "vs = v # ws" "fits t v" "fits_fields ts ws"
    using Cons.prems(2) by (auto split: list.splits)
  note gap = no_gap [OF Cons.prems(3)]
  have len: "sizeof t \<le> length m" "sum_list (map sizeof ts) \<le> length m - sizeof t"
    using Cons.prems(4) by simp_all
  let ?m = "store t v m"
  note w = stores_wellD [OF stores_well vs(2) len(1)]
  have v: "take (sizeof t) ?m = repr t v" by (rule Cons.prems(1)) (simp_all add: vs len)
  have "take (sum_list (map sizeof ts)) (store_fields packed (off + sizeof t) ts ws (drop (sizeof t) ?m)) =
      concat (map2 repr ts ws)"
    using Cons.prems(1) gap(2) len(2) w(1) by (intro Cons.IH vs(3)) simp_all
  moreover have "length (repr t v) = sizeof t"
    unfolding v [symmetric] using w(1) len(1) by simp
  ultimately show ?case
    by (simp add: vs(1) gap(1) Let_def v)
qed simp

lemma store_elems_bytes:
  assumes "\<And>v m. fits t v \<Longrightarrow> sizeof t \<le> length m \<Longrightarrow> take (sizeof t) (store t v m) = repr t v"
    and "\<forall>v \<in> set vs. fits t v" "length vs * sizeof t \<le> length m"
  shows "take (length vs * sizeof t) (store_elems (store t) (sizeof t) vs m) = concat (map (repr t) vs)"
  using assms(2,3)
proof (induction vs arbitrary: m)
  case (Cons v vs)
  let ?m = "store t v m"
  have len: "sizeof t \<le> length m" "fits t v" "length vs * sizeof t \<le> length m - sizeof t"
    using Cons.prems by simp_all
  note w = stores_wellD [OF stores_well len(2,1)]
  have v: "take (sizeof t) ?m = repr t v" by (rule assms(1)) (simp_all add: len)
  have "length (repr t v) = sizeof t"
    unfolding v [symmetric] using w(1) len(1) by simp
  then show ?case
    using Cons.IH [of "drop (sizeof t) ?m"] Cons.prems len w(1) by (simp add: Let_def v)
qed simp

lemma store_repr:
  "padding_free t \<Longrightarrow> fits t v \<Longrightarrow> sizeof t \<le> length m \<Longrightarrow> take (sizeof t) (store t v m) = repr t v"
proof (induction t arbitrary: v m)
  case (Array t n)
  obtain vs where v: "v = Values vs" "length vs = n" "\<forall>v \<in> set vs. fits t v"
    using Array.prems(2) by (cases v) auto
  have "take (n * sizeof t) (store_elems (store t) (sizeof t) vs m') = concat (map (repr t) vs)"
    if "n * sizeof t \<le> length m'" for m'
    unfolding v(2) [symmetric] by (rule store_elems_bytes [OF Array.IH v(3)]) (use Array.prems that v(2) in auto)
  then show ?case using Array.prems(3) by (simp add: v(1) repr_def)
next
  case (Class c ts)
  obtain vs where v: "v = Values vs" "fits_fields ts vs"
    using Class.prems(2) by (cases v) auto
  have off: "first_offset c = 0" and size: "sizeof (Class c ts) = sum_list (map sizeof ts)"
      "\<forall>t \<in> set ts. padding_free t"
    using Class.prems(1) by (auto simp: first_offset_def)
  have "fields_end (cls_packed c) 0 ts = 0 + sum_list (map sizeof ts)"
    using class_fits [of c ts] fields_end_ge [of 0 ts "cls_packed c"] unfolding off size(1) by simp
  then have "take (sum_list (map sizeof ts)) (store_fields (cls_packed c) 0 ts vs m') = concat (map2 repr ts vs)"
    if "sum_list (map sizeof ts) \<le> length m'" for m'
    using Class.IH size(2) v(2) that by (intro store_fields_bytes) auto
  then show ?case
    using Class.prems(3) unfolding size(1) repr_def by (simp add: v(1) off del: sizeof.simps)
qed (auto simp: repr_def elim!: fits.elims)

end
