(* ===== verification/Example_Variables.thy ===== *)
theory Example_Variables
  imports Cpp_Layout Ipc_Logger Host_Variable_Time
begin

text \<open>
  The example programs with host variables: examples/host_variable (an int),
  examples/host_variable_struct (a packed struct with a flexible array, of which a part is sent)
  and examples/host_variable_latency_test (the age of what is read), and examples/delete_shm.c. The
  calls of the library run on the machine of Host_Variable; the definitions are what the programs
  do between them. Output is a list of lines.
\<close>

section \<open>An integer\<close>

text \<open>\<open>writer.c\<close>: exit code and output, given whether the variable is linked and what the write returns.\<close>

definition int_bytes_of :: "int \<Rightarrow> u8 list" where
  "int_bytes_of i = bytes_of 4 (word_of_int i)"

definition int_at :: "u8 list \<Rightarrow> int" where
  "int_at bs = sint (ucast (word_of (take 4 bs)) :: u32)"

definition int_writer_main :: "bool \<Rightarrow> int \<Rightarrow> int \<times> string list" where
  "int_writer_main linked ret =
     (if \<not> linked then (-1, [''can not link to test: ''])
      else (0, [if ret = 0 then ''Write data = '' @ fmt_d 100 else ''can not write: '']))"

text \<open>\<open>reader.c\<close>: one turn of its loop, given the result of the read and the buffer after it.\<close>

definition int_reader_turn :: "int \<Rightarrow> u8 list \<Rightarrow> string" where
  "int_reader_turn ret buf = (if ret = 0 then ''data = '' @ fmt_d (int_at buf) else ''Can not read data'')"

text \<open>The C++ programs look at no result: the writer says that it has written, and the reader prints the 0 it set.\<close>

definition cpp_int_writer_output :: "int \<Rightarrow> string" where
  "cpp_int_writer_output ret = ''Write data = 100''"

definition cpp_int_reader_turn :: "int \<Rightarrow> u8 list \<Rightarrow> string" where
  "cpp_int_reader_turn ret buf = ''data = '' @ fmt_d (int_at buf)"

section \<open>A struct with a flexible array\<close>

text \<open>\<open>struct DataFormat\<close>: the array at its end adds nothing to its size.\<close>

definition DataFormat :: cpp_type where
  "DataFormat = packed_class ''DataFormat'' [Integer 4, Array (Integer 1) 10]"

definition total_size :: nat where "total_size = sizeof DataFormat + 32"
definition operate_size :: nat where "operate_size = sizeof DataFormat + 16"

definition OFF_y :: nat where "OFF_y = 4"
definition OFF_appendix :: nat where "OFF_appendix = sizeof DataFormat"

definition poke :: "nat \<Rightarrow> u8 list \<Rightarrow> u8 list \<Rightarrow> u8 list" where
  "poke off bs mem = take off mem @ bs @ drop (off + length bs) mem"

text \<open>\<open>strcpy\<close> writes the characters and a zero; \<open>%s\<close> prints up to a zero.\<close>

definition chars :: "string \<Rightarrow> u8 list" where
  "chars s = map (\<lambda>c. of_nat (of_char c)) s"

definition strcpy :: "nat \<Rightarrow> string \<Rightarrow> u8 list \<Rightarrow> u8 list" where
  "strcpy off s mem = poke off (chars s @ [0]) mem"

definition c_string :: "nat \<Rightarrow> u8 list \<Rightarrow> u8 list" where
  "c_string off mem = takeWhile (\<lambda>b. b \<noteq> 0) (drop off mem)"

text \<open>\<open>writer.c\<close>: the struct it sends; \<open>mem\<close> is what \<open>malloc\<close> returned.\<close>

definition struct_writer_data :: "u8 list \<Rightarrow> u8 list" where
  "struct_writer_data mem =
     (let data = poke 0 (int_bytes_of 100) mem; data = strcpy OFF_y ''struct'' data
      in strcpy OFF_appendix ''change'' data)"

definition struct_writer_call :: "u8 list \<Rightarrow> u8 list \<times> nat \<times> nat" where
  "struct_writer_call mem = (struct_writer_data mem, total_size, operate_size)"

text \<open>\<open>reader.c\<close>: its buffer before the loop, its call, and the fields it prints.\<close>

definition struct_reader_data :: "u8 list \<Rightarrow> u8 list" where
  "struct_reader_data mem = strcpy (OFF_appendix + 16) ''fixed'' mem"

definition struct_reader_call :: "u8 list \<Rightarrow> u8 list \<times> nat \<times> nat" where
  "struct_reader_call buf = (buf, total_size, operate_size)"

definition struct_reader_prints :: "u8 list \<Rightarrow> int \<times> u8 list \<times> u8 list \<times> u8 list" where
  "struct_reader_prints buf =
     (int_at buf, c_string OFF_y buf, c_string OFF_appendix buf, c_string (OFF_appendix + 16) buf)"

section \<open>Latency\<close>

text \<open>
  \<open>reader.c\<close> of the latency test: the delay it prints, in nanoseconds, from the nanosecond parts of
  the two clocks only.
\<close>

definition ipc_delay :: "timespec \<Rightarrow> timespec \<Rightarrow> int" where
  "ipc_delay sent now =
     (let diff = sint (tv_nsec now) - sint (tv_nsec sent) in if diff < 0 then diff + 1000000000 else diff)"

text \<open>\<open>diff\<close> of host_function_latency_test/receiver.c, with the signed fields of \<open>timespec\<close>.\<close>

definition diff_timespec :: "int \<times> int \<Rightarrow> int \<times> int \<Rightarrow> int \<times> int" where
  "diff_timespec start stop =
     (if snd stop - snd start < 0
      then (fst stop - fst start - 1, 1000000000 + snd stop - snd start)
      else (fst stop - fst start, snd stop - snd start))"

section \<open>Deleting all shared memory\<close>

definition NAME_MAX :: nat where "NAME_MAX = 255"

text \<open>\<open>snprintf\<close> to a buffer of \<open>NAME_MAX + 2\<close> bytes.\<close>

definition shm_name :: "string \<Rightarrow> string" where
  "shm_name d_name = take (NAME_MAX + 1) (CHR ''/'' # d_name)"

text \<open>
  \<open>main\<close>: the exit code, the names it passes to \<open>shm_unlink\<close>, and its output; \<open>entries\<close> is what
  \<open>readdir\<close> returns (\<open>None\<close> if the directory cannot be opened), \<open>unlinks\<close> the names that can be unlinked.
\<close>

definition delete_shm_main :: "string list option \<Rightarrow> (string \<Rightarrow> bool) \<Rightarrow> int \<times> string list \<times> string list" where
  "delete_shm_main entries unlinks =
     (case entries of
        None \<Rightarrow> (1, [], [''opendir /dev/shm failed''])
      | Some es \<Rightarrow>
          let names = map shm_name (filter (\<lambda>e. \<not> (e = ''.'' \<or> e = ''..'')) es) in
          (0, names, map (\<lambda>n. if unlinks n then ''Deleted shm object: '' @ n else ''shm_unlink failed'') names))"

section \<open>What the programs print\<close>

text \<open>A call never touches the buffer beyond \<open>op_size\<close>, whatever threads make steps.\<close>

lemma step_keeps_tail:
  "drop (th_op (threads s ! i)) (th_buf (threads (hv_step s j) ! i)) = drop (th_op (threads s ! i)) (th_buf (threads s ! i))"
  "length (th_buf (threads (hv_step s j) ! i)) = length (th_buf (threads s ! i))"
  "th_op (threads (hv_step s j) ! i) = th_op (threads s ! i)"
proof -
  have "drop (th_op (threads s ! i)) (th_buf (threads (hv_step s j) ! i)) = drop (th_op (threads s ! i)) (th_buf (threads s ! i)) \<and>
    length (th_buf (threads (hv_step s j) ! i)) = length (th_buf (threads s ! i)) \<and>
    th_op (threads (hv_step s j) ! i) = th_op (threads s ! i)"
  proof (cases "j = i \<and> i < length (threads s)")
    case True
    then show ?thesis by (cases "th_pc (threads s ! i)") (auto simp: hv_step_unfold)
  next
    case False
    then show ?thesis by (cases "j = i") (simp_all add: hv_step_threads, simp_all add: hv_step_def)
  qed
  then show "drop (th_op (threads s ! i)) (th_buf (threads (hv_step s j) ! i)) = drop (th_op (threads s ! i)) (th_buf (threads s ! i))"
    "length (th_buf (threads (hv_step s j) ! i)) = length (th_buf (threads s ! i))"
    "th_op (threads (hv_step s j) ! i) = th_op (threads s ! i)" by simp_all
qed

lemma run_keeps_tail:
  "drop (th_op (threads s ! i)) (th_buf (threads (hv_run s (map Step js)) ! i)) =
     drop (th_op (threads s ! i)) (th_buf (threads s ! i)) \<and>
   length (th_buf (threads (hv_run s (map Step js)) ! i)) = length (th_buf (threads s ! i)) \<and>
   th_op (threads (hv_run s (map Step js)) ! i) = th_op (threads s ! i)"
proof (induction js arbitrary: s)
  case (Cons j js)
  then show ?case using Cons.IH [of "hv_step s j"] by (simp add: step_keeps_tail)
qed simp

lemma begin_read_run_tail:
  assumes "may_begin s j m buf"
  shows "drop m (th_buf (threads (hv_run s (BeginRead j m buf # replicate k (Step j))) ! j)) = drop m buf"
    "length (th_buf (threads (hv_run s (BeginRead j m buf # replicate k (Step j))) ! j)) = length buf"
  using run_keeps_tail [of "hv_act s (BeginRead j m buf)" j "replicate k j"] assms
  by (auto simp: may_begin_def)

text \<open>
  The struct example: the part that is sent arrives, and the part of the reader's buffer beyond
  it is the one the reader has prepared.
\<close>

lemma format_sizes: "sizeof DataFormat = 14" "total_size = 46" "operate_size = 30" "OFF_appendix = 14"
  by (simp_all add: DataFormat_def packed_class_def first_offset_def place_def total_size_def operate_size_def
      OFF_appendix_def)

lemma struct_data_bytes:
  assumes "length mem = 46"
  shows "take 30 (struct_writer_data mem) = [100, 0, 0, 0, 115, 116, 114, 117, 99, 116, 0] @ take 3 (drop 11 mem) @
      [99, 104, 97, 110, 103, 101, 0] @ take 9 (drop 21 mem)" "length (struct_writer_data mem) = 46"
    "drop 30 (struct_reader_data mem) = [102, 105, 120, 101, 100, 0] @ drop 36 mem" "length (struct_reader_data mem) = 46"
proof -
  have c: "int_bytes_of 100 = [100, 0, 0, 0]" "chars ''struct'' = [115, 116, 114, 117, 99, 116]"
      "chars ''change'' = [99, 104, 97, 110, 103, 101]" "chars ''fixed'' = [102, 105, 120, 101, 100]"
    by code_simp+
  show "take 30 (struct_writer_data mem) = [100, 0, 0, 0, 115, 116, 114, 117, 99, 116, 0] @ take 3 (drop 11 mem) @
      [99, 104, 97, 110, 103, 101, 0] @ take 9 (drop 21 mem)" "length (struct_writer_data mem) = 46"
    "drop 30 (struct_reader_data mem) = [102, 105, 120, 101, 100, 0] @ drop 36 mem" "length (struct_reader_data mem) = 46"
    using assms
    by (simp_all add: struct_writer_data_def struct_reader_data_def strcpy_def poke_def c format_sizes OFF_y_def Let_def
        take_drop add.commute)
qed

lemma may_begin_second:
  assumes "s = hv_run (hv_init no_debug sz procs) as" "\<forall>th \<in> set (threads s). at_rest (th_pc th)"
    and "i < length procs" "j < length procs" "m \<le> sz" "m \<le> length buf"
    and "s1 = hv_run s (BeginWrite i n bytes # replicate k (Step i))" "th_pc (threads s1 ! i) = Ret 0"
  shows "may_begin s1 j m buf"
proof -
  have len: "length (threads s) = length procs" "length (threads s1) = length procs" "var_size s1 = sz"
    using assms(1,7) by (simp_all add: hv_run_shape hv_init_shape hv_act_shape)
  have other: "threads (hv_run t (replicate k (Step i))) ! j = threads t ! j" if "j \<noteq> i" for t k
    by (induction k arbitrary: t) (use that in \<open>simp_all add: hv_step_threads\<close>)
  have "at_rest (th_pc (threads s1 ! j))"
  proof (cases "j = i")
    case False
    then have "threads s1 ! j = threads s ! j" using assms(7) by (simp add: other)
    then show ?thesis using assms(2,4) len(1) by simp
  qed (use assms(8) in simp)
  then show ?thesis using assms(4-6) len by (simp add: may_begin_def)
qed

text \<open>
  The struct example. From every reachable state with no call in progress and a newer
  clock, the writer's call followed by the reader's call makes the reader print 100, ``struct'',
  ``change'' and, from the part of its buffer that is not sent, ``fixed''; whatever the memory
  of both programs held before.
\<close>

lemma struct_example_prints:
  assumes s: "s = hv_run (hv_init no_debug total_size procs) as"
    and rest: "\<forall>th \<in> set (threads s). at_rest (th_pc th)"
    and ij: "i < length procs" "j < length procs"
    and newer: "timestamps s ! target_of (flags s) < get_compressed_timestamp (boot_clock s)"
    and mem: "length mem = total_size" "length mem' = total_size"
    and w: "struct_writer_call mem = (bytes, wsz, n)" and r: "struct_reader_call (struct_reader_data mem') = (buf, rsz, m)"
    and s1: "s1 = hv_run s (BeginWrite i n bytes # replicate (n + 12) (Step i))"
    and s2: "s2 = hv_run s1 (BeginRead j m buf # replicate (m + 12) (Step j))"
  shows "th_pc (threads s1 ! i) = Ret 0 \<and> th_pc (threads s2 ! j) = Ret 0 \<and>
    struct_reader_prints (th_buf (threads s2 ! j)) = (100, chars ''struct'', chars ''change'', chars ''fixed'')"
proof -
  note D = struct_data_bytes [OF mem(1) [unfolded format_sizes]] and D' = struct_data_bytes [OF mem(2) [unfolded format_sizes]]
  have c: "n = 30" "bytes = struct_writer_data mem" "m = 30" "buf = struct_reader_data mem'"
    using w r by (simp_all add: struct_writer_call_def struct_reader_call_def format_sizes)
  have le: "n \<le> total_size" "n \<le> length bytes" "m \<le> total_size" "m \<le> length buf"
    using D D' by (simp_all add: c format_sizes)
  note rb = write_read_back [OF s rest ij le newer s1 s2]
  have tail: "drop 30 (th_buf (threads s2 ! j)) = [102, 105, 120, 101, 100, 0] @ drop 36 mem'"
    using begin_read_run_tail(1) [OF may_begin_second [OF s rest ij le(3,4) s1 rb(1)], of "m + 12"] D'(3) c(3,4)
    by (simp add: s2)
  have "take 30 (th_buf (threads s2 ! j)) = take 30 (struct_writer_data mem)"
    using rb(3,4) by (simp add: c)
  then have "th_buf (threads s2 ! j) = take 30 (struct_writer_data mem) @ [102, 105, 120, 101, 100, 0] @ drop 36 mem'"
    using tail by (metis append_take_drop_id)
  moreover have "int_at ([100, 0, 0, 0] @ xs) = 100" for xs
  proof -
    have "int_at [100, 0, 0, 0] = 100" by code_simp
    then show ?thesis by (simp add: int_at_def)
  qed
  moreover have "chars ''struct'' = [115, 116, 114, 117, 99, 116]" "chars ''change'' = [99, 104, 97, 110, 103, 101]"
      "chars ''fixed'' = [102, 105, 120, 101, 100]" by code_simp+
  ultimately show ?thesis
    using rb(1,2) mem unfolding D(1)
    by (simp add: struct_reader_prints_def c_string_def format_sizes OFF_y_def)
qed

lemma struct_example_prints_witness:
  "let s = hv_run (hv_init True total_size [0, 1]) [clock_at 5];
       s1 = hv_run s (BeginWrite 0 30 (struct_writer_data (replicate 46 7)) # replicate 42 (Step 0));
       s2 = hv_run s1 (BeginRead 1 30 (struct_reader_data (replicate 46 9)) # replicate 42 (Step 1))
   in struct_reader_prints (th_buf (threads s2 ! 1)) = (100, chars ''struct'', chars ''change'', chars ''fixed'')"
proof -
  let ?s = "hv_run (hv_init True total_size [0, 1]) [clock_at 5]"
  have 1: "\<forall>th \<in> set (threads ?s). at_rest (th_pc th)" by code_simp
  have 2: "timestamps ?s ! target_of (flags ?s) < get_compressed_timestamp (boot_clock ?s)" by code_simp
  have 3: "struct_writer_call (replicate 46 7) = (struct_writer_data (replicate 46 7), 46, 30)"
      "struct_reader_call (struct_reader_data (replicate 46 9)) = (struct_reader_data (replicate 46 9), 46, 30)"
    by (simp_all add: struct_writer_call_def struct_reader_call_def format_sizes)
  show ?thesis
    unfolding Let_def
    using struct_example_prints [OF refl 1 _ _ 2 _ _ 3 refl refl, of 0 1] by (simp add: format_sizes)
qed

section \<open>Latency\<close>

definition nanos :: "int \<times> int \<Rightarrow> int" where
  "nanos ts = fst ts * 1000000000 + snd ts"

lemma diff_timespec_nanos:
  assumes "0 \<le> snd a" "snd a < 1000000000" "0 \<le> snd b" "snd b < 1000000000"
  shows "nanos (diff_timespec a b) = nanos b - nanos a" "0 \<le> snd (diff_timespec a b)"
    "snd (diff_timespec a b) < 1000000000"
  using assms by (auto simp: diff_timespec_def nanos_def algebra_simps)

lemma ipc_delay_mod:
  assumes "0 \<le> sint (tv_nsec a)" "sint (tv_nsec a) < 1000000000" "0 \<le> sint (tv_nsec b)" "sint (tv_nsec b) < 1000000000"
  shows "ipc_delay a b = (nanos (sint (tv_sec b), sint (tv_nsec b)) - nanos (sint (tv_sec a), sint (tv_nsec a))) mod 1000000000"
proof -
  have e: "nanos (sint (tv_sec b), sint (tv_nsec b)) - nanos (sint (tv_sec a), sint (tv_nsec a)) =
      (sint (tv_nsec b) - sint (tv_nsec a)) + (sint (tv_sec b) - sint (tv_sec a)) * 1000000000"
    by (simp add: nanos_def algebra_simps)
  have "(sint (tv_nsec b) - sint (tv_nsec a)) mod 1000000000 = ipc_delay a b"
  proof (cases "sint (tv_nsec b) - sint (tv_nsec a) < 0")
    case True
    then have "(sint (tv_nsec b) - sint (tv_nsec a)) mod 1000000000 =
        (sint (tv_nsec b) - sint (tv_nsec a) + 1000000000) mod 1000000000" by simp
    also have "\<dots> = sint (tv_nsec b) - sint (tv_nsec a) + 1000000000"
      using True assms by (intro mod_pos_pos_trivial) linarith+
    finally show ?thesis using True by (simp add: ipc_delay_def Let_def)
  next
    case False
    then show ?thesis using assms by (simp add: ipc_delay_def Let_def mod_pos_pos_trivial)
  qed
  then show ?thesis unfolding e mod_mult_self1 by simp
qed

section \<open>Shared memory names\<close>

lemma shm_name_whole: "length d_name \<le> NAME_MAX \<Longrightarrow> shm_name d_name = CHR ''/'' # d_name"
  by (simp add: shm_name_def)

lemma delete_shm_all:
  "e \<in> set es \<Longrightarrow> e \<noteq> ''.'' \<Longrightarrow> e \<noteq> ''..'' \<Longrightarrow> length e \<le> NAME_MAX \<Longrightarrow>
   CHR ''/'' # e \<in> set (fst (snd (delete_shm_main (Some es) unlinks)))"
  by (auto simp: delete_shm_main_def simp flip: shm_name_whole)

end
