(* ===== verification/Example_Functions.thy ===== *)
theory Example_Functions
  imports Function_Service_Props Example_Variables
begin

text \<open>
  The example programs with host functions (examples/host_function and
  examples/host_function_latency_test): the functions they serve, the main programs of the
  receivers and callers in C (those in C++ are in Cpp_Wrapper), and what a caller gets from
  the service. What the main programs print is left out.
\<close>

section \<open>The functions\<close>

text \<open>
  \<open>foo\<close> of \<open>receiver.c\<close>: the argument less one, and the line it prints. The subtraction is
  undefined for the least \<open>int\<close>; \<open>overflows\<close> says when. \<open>ret\<close> is static, so that it outlives the
  call.
\<close>

definition overflows :: "u32 \<Rightarrow> bool" where
  "overflows d \<longleftrightarrow> sint d = - (2 ^ 31)"

definition c_foo :: host_function where
  "c_foo args = Some (int_bytes (int_of_bytes args - 1))"

definition c_foo_line :: "u8 list \<Rightarrow> string" where
  "c_foo_line args =
     (let data = int_of_bytes args; ret = data - 1
      in ''foo called: data = '' @ fmt_d (sint data) @ '' return = '' @ fmt_d (sint ret))"

text \<open>
  \<open>foo\<close> of \<open>receiver.cpp\<close>: its static variable is initialised by the first call only. Its state is
  that variable; the result is the value the returned pointer leads to.
\<close>

definition cpp_foo :: "u32 option \<Rightarrow> u32 \<Rightarrow> u32 option \<times> u32" where
  "cpp_foo ret arg =
     (let ret = (case ret of None \<Rightarrow> arg - 1 | Some r \<Rightarrow> r) in (Some ret, ret))"

fun cpp_foo_results :: "u32 option \<Rightarrow> u32 list \<Rightarrow> u32 list" where
  "cpp_foo_results ret [] = []"
| "cpp_foo_results ret (arg # args) = (let (ret, r) = cpp_foo ret arg in r # cpp_foo_results ret args)"

text \<open>
  \<open>foo\<close> of the latency test: the number of calls, what it prints at every 10000th, and the null
  pointer; \<open>now\<close> is what \<open>clock_gettime\<close> reports. The counter is one of the process, and atomic;
  \<open>seen\<close> is its value when the line is decided, which other threads may have counted up.
\<close>

definition timespec_at :: "u8 list \<Rightarrow> int \<times> int" where
  "timespec_at bs = (sint (word_of (take 8 bs)), sint (word_of (take 8 (drop 8 bs))))"

definition fmt_pad :: "nat \<Rightarrow> int \<Rightarrow> string" where
  "fmt_pad w i = replicate (w - length (fmt_d i)) CHR '' '' @ fmt_d i"

definition fmt_time :: "nat \<Rightarrow> int \<times> int \<Rightarrow> string" where
  "fmt_time w t = ''('' @ fmt_pad w (fst t) @ ''.'' @ fmt_0d 9 (snd t) @ '')''"

definition latency_foo :: "u32 \<Rightarrow> u32 \<Rightarrow> int \<times> int \<Rightarrow> u8 list \<Rightarrow> u32 \<times> string list \<times> u8 list option" where
  "latency_foo called_cnt seen now args =
     (let sent = timespec_at args; diff = diff_timespec sent now in
      (called_cnt + 1,
       if seen mod 10000 = 0
       then [''latency = '' @ fmt_time 1 diff @ '', sent_ts='' @ fmt_time 5 sent @ '', curr_ts='' @ fmt_time 5 now]
       else [],
       None))"

text \<open>The main thread waits for the last call: one turn of its loop, with the counter at the test and after \<open>sleep\<close>.\<close>

definition latency_wait_turn :: "u32 \<Rightarrow> u32 \<Rightarrow> string list option" where
  "latency_wait_turn tested slept =
     (if tested < 10000000 then Some (if slept mod 100000 = 0 then [''total call cnt = '' @ fmt_d (sint slept)] else []) else None)"

section \<open>The receivers\<close>

text \<open>
  \<open>main\<close> of \<open>receiver.c\<close> up to \<open>sleep\<close>: an exit code, or the running dispatcher; then, after the
  daemon has answered the exit signal with \<open>reply\<close>, its exit code.
\<close>

definition receiver_main :: "nat \<Rightarrow> world \<Rightarrow> ((int + dispatcher) \<times> world) option" where
  "receiver_main pid w =
     (case create_host_function_dispatcher pid 64 w of
        None \<Rightarrow> None
      | Some (None, _, w) \<Rightarrow> Some (Inl (-1), w)
      | Some (Some x, _, w) \<Rightarrow>
     (case attach_host_function pid x ''host_function'' c_foo 4 4 w of
        None \<Rightarrow> None
      | Some (ret, x, w) \<Rightarrow>
          if ret \<noteq> 0 then Some (Inl ret, w)
          else let (ret, x) = start_host_function_dispatcher x in
            if ret \<noteq> 0 then Some (Inl ret, w) else Some (Inr x, w)))"

definition receiver_main_end :: "nat \<Rightarrow> dispatcher \<Rightarrow> u8 list \<Rightarrow> world \<Rightarrow> int \<times> world" where
  "receiver_main_end pid x reply w =
     (let (ret, w) = delete_finish pid x reply w in (if ret \<noteq> 0 then ret else 0, w))"

text \<open>
  \<open>main\<close> of the latency test up to its waiting loop: sixteen dispatchers of one function each, all
  on the same name. A dispatcher that could not be created is a null pointer, at which \<open>attach\<close>
  faults; the results of \<open>attach\<close> and \<open>start\<close> are not looked at.
\<close>

fun create_dispatchers :: "nat \<Rightarrow> nat \<Rightarrow> world \<Rightarrow> (dispatcher option list \<times> world) option" where
  "create_dispatchers pid 0 w = Some ([], w)"
| "create_dispatchers pid (Suc n) w =
     (case create_host_function_dispatcher pid 1 w of
        None \<Rightarrow> None
      | Some (x, _, w) \<Rightarrow> map_option (\<lambda>(xs, w). (x # xs, w)) (create_dispatchers pid n w))"

fun attach_all :: "nat \<Rightarrow> host_function \<Rightarrow> dispatcher option list \<Rightarrow> world \<Rightarrow> (dispatcher list \<times> world) option" where
  "attach_all pid f [] w = Some ([], w)"
| "attach_all pid f (None # xs) w = None"
| "attach_all pid f (Some x # xs) w =
     (case attach_host_function pid x ''stress_test'' f 16 0 w of
        None \<Rightarrow> None
      | Some (_, x, w) \<Rightarrow> map_option (\<lambda>(xs, w). (x # xs, w)) (attach_all pid f xs w))"

definition latency_receiver_main :: "nat \<Rightarrow> host_function \<Rightarrow> world \<Rightarrow> (dispatcher list \<times> world) option" where
  "latency_receiver_main pid f w =
     (case create_dispatchers pid 16 w of
        None \<Rightarrow> None
      | Some (xs, w) \<Rightarrow>
          map_option (\<lambda>(xs, w). (map (snd \<circ> start_host_function_dispatcher) xs, w)) (attach_all pid f xs w))"

section \<open>The callers\<close>

text \<open>
  \<open>main\<close> of \<open>caller.c\<close>, one step for each call of the library: it looks at no result but that of
  the link. \<open>rand\<close> is the number it draws; \<open>uninit\<close> what \<open>ret\<close> holds if the response cannot be read.
\<close>

datatype caller_pc = CmLink | CmCall caller | CmWait caller | CmReturn caller u32 | CmExit int | CmFault

fun caller_main_step :: "nat \<Rightarrow> u32 \<Rightarrow> u32 \<Rightarrow> world \<Rightarrow> caller_pc \<Rightarrow> caller_pc \<times> world" where
  "caller_main_step pid rand uninit w CmLink =
     (case link_host_function pid ''host_function'' 4 4 w of
        None \<Rightarrow> (CmFault, w)
      | Some (None, w) \<Rightarrow> (CmExit (-1), w)
      | Some (Some x, w) \<Rightarrow> (CmCall x, w))"
| "caller_main_step pid rand uninit w (CmCall x) =
     (case call_host_function pid x (int_bytes rand) w of
        Blocked \<Rightarrow> (CmCall x, w)
      | Done (_, w) \<Rightarrow> (CmWait x, w))"
| "caller_main_step pid rand uninit w (CmWait x) =
     (case get_response_host_function pid x w of
        Blocked \<Rightarrow> (CmWait x, w)
      | Done (r, bytes, w) \<Rightarrow> (CmReturn x (if r = 0 then int_of_bytes bytes else uninit), w))"
| "caller_main_step pid rand uninit w (CmReturn x ret) = (CmExit 0, snd (unlink_host_function pid x w))"
| "caller_main_step pid rand uninit w pc = (pc, w)"

text \<open>\<open>main\<close> of the caller of the latency test, at its \<open>i\<close>-th call; \<open>ts\<close> is the clock.\<close>

datatype stress_pc = SpLink | SpCall caller nat | SpExit int | SpFault

definition STRESS_CALLS :: nat where "STRESS_CALLS = 1000000"

fun stress_caller_step :: "nat \<Rightarrow> u8 list \<Rightarrow> world \<Rightarrow> stress_pc \<Rightarrow> stress_pc \<times> world" where
  "stress_caller_step pid ts w SpLink =
     (case link_host_function pid ''stress_test'' 16 0 w of
        None \<Rightarrow> (SpFault, w)
      | Some (None, w) \<Rightarrow> (SpExit (-1), w)
      | Some (Some x, w) \<Rightarrow> (SpCall x 0, w))"
| "stress_caller_step pid ts w (SpCall x i) =
     (if i < STRESS_CALLS then
        case call_host_function pid x ts w of
          Blocked \<Rightarrow> (SpCall x i, w)
        | Done (_, w) \<Rightarrow> (SpCall x (i + 1), w)
      else (SpExit 0, snd (unlink_host_function pid x w)))"
| "stress_caller_step pid ts w pc = (pc, w)"

section \<open>What is returned\<close>

text \<open>What \<open>attach_host_function\<close> registers for \<open>foo\<close>.\<close>

definition example_fun :: host_fun where
  "example_fun = \<lparr>hf_foo = legacy_host_function_adapter, hf_data = LegacyContext c_foo, hf_sz_arg = 4, hf_sz_ret = 4\<rparr>"

lemma int_bytes_back [simp]: "int_of_bytes (int_bytes v) = v" "length (int_bytes v) = 4"
  by (simp_all add: int_of_bytes_def int_bytes_def word_of_bytes_of) (rule bit_word_eqI, simp add: bit_simps)

lemma example_fun_ok [simp]: "fun_ok example_fun" "hf_sz_arg example_fun = 4" "hf_sz_ret example_fun = 4"
  by (auto simp: fun_ok_def example_fun_def legacy_host_function_adapter_def c_foo_def)

lemma example_response [simp]: "response example_fun args = int_bytes (int_of_bytes args - 1)"
  by (simp add: response_def example_fun_def legacy_host_function_adapter_def c_foo_def)

lemma cpp_foo_frozen: "cpp_foo_results (Some r) args = replicate (length args) r"
  by (induction args) (simp_all add: cpp_foo_def Let_def)

lemma foo_sint:
  assumes "\<not> overflows d"
  shows "sint (d - 1) = sint d - 1"
proof -
  have "- (2 ^ 31) \<le> sint d - 1" "sint d - 1 < 2 ^ 31"
    using assms sint_ge [of d] sint_lt [of d] by (simp_all add: overflows_def)
  then show ?thesis by (simp add: sint_word_ariths(2) signed_take_bit_int_eq_self)
qed


end
