(* ===== verification/Function_Service_Demo.thy ===== *)
theory Function_Service_Demo
  imports Example_Functions Function_Service_Heap
begin

text \<open>
  The service at work on a concrete input: the function of the example program, one
  caller in process 2, one call with the argument 5, a stop signal. The states that are reached are the
  witnesses of the properties of the service.
\<close>

section \<open>A run of the service\<close>

abbreviation hf :: string where "hf \<equiv> ''host_function''"

definition demo_lib :: library where
  "demo_lib = (\<lambda>_. example_fun)"

lemma demo_lib_simps [simp]:
  "lib_ok demo_lib" "hf_sz_arg (demo_lib x) = 4" "hf_sz_ret (demo_lib x) = 4" "response (demo_lib x) [5, 0, 0, 0] = [4, 0, 0, 0]"
  by (simp_all add: lib_ok_def demo_lib_def) code_simp

lemma empty_world_simps [simp]:
  "w_plan (empty_world p) = p" "fifos_ok (empty_world p)" "bytes_in (empty_world p) path = []"
  "w_cap (empty_world p) = 65536" "w_pipes (empty_world p) = []" "w_fifos (empty_world p) path = None"
  by (simp_all add: empty_world_def fifos_ok_def bytes_in_def)

lemma looks_updates [simp]: "looks (w\<lparr>w_plan := p\<rparr>) = looks w" "looks (w\<lparr>w_pipes := ps\<rparr>) = looks w"
  by (simp_all add: looks_def fun_eq_iff)

text \<open>A state after the creation of the dispatcher.\<close>

definition demo_ready :: "service \<Rightarrow> bool" where
  "demo_ready s \<longleftrightarrow> sv_reach demo_lib s \<and> sv_names s = [] \<and> sv_callers s = [] \<and> sv_sent s = (\<lambda>_. []) \<and>
     sv_served s = (\<lambda>_. []) \<and> dm_pc (sv_daemon s) = DmWait \<and> has_room (sv_disp s) 0 \<and>
     w_cap (sv_world s) = 65536 \<and> length (w_pipes (sv_world s)) = 2 \<and> looks (sv_world s) 2 = Map.empty"

lemma demo_start: "\<exists>s. demo_ready s \<and> w_pipes (sv_world s) = [[], []] \<and> sv_start (empty_world []) 1 s \<and> sv_lost s = 0"
proof -
  obtain d w' where C: "create_host_function_dispatcher 0 1 (empty_world []) = Some (Some d, True, w')"
      "has_room d 0" "w_cap w' = 65536" "w_pipes w' = [[], []]" "w_fds w' 2 = []"
    using create_ok [of "empty_world []" 0 1] by (auto simp: array_length_def empty_world_def)
  have free: "looks w' 2 = Map.empty" by (simp add: looks_def fd_look_def C(5) fun_eq_iff)
  let ?s = "\<lparr>sv_world = w', sv_disp = d, sv_daemon = \<lparr>dm_pc = DmWait, dm_exit = False\<rparr>, sv_names = [],
     sv_callers = [], sv_sent = (\<lambda>_. []), sv_served = (\<lambda>_. []), sv_got = (\<lambda>_. []), sv_lost = 0\<rparr>"
  have "sv_start (empty_world []) 1 ?s" using C(1) by (auto simp: sv_start_def)
  moreover from this have "sv_reach demo_lib ?s" by (rule sv_reach.start)
  ultimately show ?thesis using C free by (intro exI [of _ ?s]) (simp add: demo_ready_def)
qed

text \<open>A run in which the control pipes keep their bytes.\<close>

lemma steps_keep:
  assumes "(sv_step lib)\<^sup>*\<^sup>* s s'"
  shows "sv_reach lib s \<Longrightarrow> sv_reach lib s'" "lib_ok lib \<Longrightarrow> sv_inv lib ctl rep e s \<Longrightarrow> sv_inv lib ctl rep e s'"
  using assms by (induction rule: rtranclp_induct) (auto intro: sv_reach.step sv_step_keeps)

lemma three_steps: "sv_step lib a b \<Longrightarrow> sv_step lib b c \<Longrightarrow> sv_step lib c d \<Longrightarrow> (sv_step lib)\<^sup>*\<^sup>* a d"
  by auto

lemma grows_private:
  assumes "grows w w'" "r < length (w_pipes w)" "\<forall>p. w_fifos w p \<noteq> Some r"
  shows "w_fifos w' p \<noteq> Some r"
proof (cases "w_fifos w p")
  case None
  have "\<forall>q. w_fifos w' p = Some q \<longrightarrow> length (w_pipes w) \<le> q" using assms(1) None by (simp add: grows_def)
  then show ?thesis using assms(2) by (meson not_le)
next
  case (Some r')
  then show ?thesis using grows_fifo [OF assms(1) Some] assms(3) by auto
qed

definition same_control :: "service \<Rightarrow> service \<Rightarrow> bool" where
  "same_control s s' \<longleftrightarrow> (sv_step demo_lib)\<^sup>*\<^sup>* s s' \<and>
     (\<forall>q < length (w_pipes (sv_world s)). (\<forall>p. w_fifos (sv_world s) p \<noteq> Some q) \<longrightarrow>
        w_pipes (sv_world s') ! q = w_pipes (sv_world s) ! q)"

lemma demo_attach:
  assumes "demo_ready s"
  shows "\<exists>s'. sv_step demo_lib s s' \<and> sv_names s' = [hf] \<and> sv_callers s' = [] \<and> sv_sent s' = (\<lambda>_. []) \<and>
    sv_served s' = (\<lambda>_. []) \<and> sv_daemon s' = sv_daemon s \<and> w_cap (sv_world s') = 65536 \<and>
    grows (sv_world s) (sv_world s'\<lparr>w_epolls := w_epolls (sv_world s)\<rparr>) \<and> looks (sv_world s') 2 = Map.empty"
proof -
  have R: "sv_reach demo_lib s" using assms by (simp add: demo_ready_def)
  obtain ctl rep e where I: "sv_inv demo_lib ctl rep e s" using sv_reach_inv [OF _ R] by auto
  note K = disp_okD [OF sv_filesD(2) [OF sv_invD(2) [OF I]]]
  have cnt: "d_cnt_func (sv_disp s) = 0" using K(4) assms by (simp add: demo_ready_def)
  let ?f = "demo_lib hf" and ?w = "with_plan [] (sv_world s)"
  obtain d' w' where A: "attach_host_function_ex 0 (sv_disp s) hf (hf_foo ?f) (hf_data ?f) (hf_sz_arg ?f)
      (hf_sz_ret ?f) ?w = Some (0, d', w')"
    using attach_host_function_ex_ok [of ?w hf 4 4 "sv_disp s" 0 e "hf_foo ?f" "hf_data ?f"] assms K(1) cnt
    by (auto simp: demo_ready_def PIPE_BUF_def)
  let ?s = "s\<lparr>sv_disp := d', sv_world := with_plan [] w', sv_names := sv_names s @ [hf]\<rparr>"
  have st: "sv_step demo_lib s ?s"
    using sv_step.attach [where lib = demo_lib and x = hf and s = s and p = "[]" and d' = d' and w' = w'
        and ret = 0] A assms by (simp add: demo_ready_def)
  have "attach_done 0 hf (hf_foo ?f) (hf_data ?f) False 4 4 (sv_disp s) ?w d' w'"
    using attach_host_function_ex_spec [OF A] by simp
  then obtain v x n m q q' where v: "grows ?w v" "w' = v\<lparr>w_epolls := x\<rparr>"
      and l: "looks w' = (looks ?w)(0 := (looks ?w 0)(n \<mapsto> Fifo q, m \<mapsto> Fifo q'))"
    unfolding attach_done_def by blast
  have "looks w' 2 = Map.empty" using assms by (simp add: l demo_ready_def)
  have "grows (sv_world s) (w'\<lparr>w_plan := [], w_epolls := w_epolls (sv_world s)\<rparr>)" "w_cap w' = w_cap (sv_world s)"
    using v(1,2) by (auto simp: grows_def)
  with \<open>looks w' 2 = Map.empty\<close> show ?thesis
    using assms st by (intro exI [of _ ?s]) (simp add: demo_ready_def with_plan_def)
qed

text \<open>With \<open>attach_host_function\<close>, as in the example, the dispatcher owns one context.\<close>

lemma demo_attach_legacy:
  assumes "demo_ready s"
  shows "\<exists>s'. sv_step demo_lib s s' \<and> sv_names s' = [hf] \<and> sv_callers s' = [] \<and> owned_contexts (sv_disp s') = 1 \<and>
    sv_daemon s' = sv_daemon s \<and> sv_lost s' = sv_lost s"
proof -
  have R: "sv_reach demo_lib s" using assms by (simp add: demo_ready_def)
  obtain ctl rep e where I: "sv_inv demo_lib ctl rep e s" using sv_reach_inv [OF _ R] by auto
  note K = disp_okD [OF sv_filesD(2) [OF sv_invD(2) [OF I]]]
  have cnt: "d_cnt_func (sv_disp s) = 0" using K(4) assms by (simp add: demo_ready_def)
  let ?w = "with_plan [] (sv_world s)"
  let ?v = "?w\<lparr>w_heap := w_heap ?w + 1\<rparr>"
  have v: "sys_alloc ?w = (True, ?v)" by (simp add: sys_alloc_ok)
  have "file_of ?v = file_of ?w" by (simp add: file_of_def fun_eq_iff)
  then obtain d' w' where "attach_host_function_ex 0 (sv_disp s) hf legacy_host_function_adapter (LegacyContext c_foo) 4 4 ?v =
      Some (0, d', w')"
    using attach_host_function_ex_ok [of ?v hf 4 4 "sv_disp s" 0 e legacy_host_function_adapter "LegacyContext c_foo"] assms K(1) cnt
    by (auto simp: demo_ready_def PIPE_BUF_def)
  then obtain d' w' where A: "attach_host_function 0 (sv_disp s) hf c_foo 4 4 ?w = Some (0, d', w')"
    using v by (auto simp: attach_host_function_def)
  let ?s = "s\<lparr>sv_disp := d', sv_world := with_plan [] w', sv_names := sv_names s @ [hf]\<rparr>"
  have st: "sv_step demo_lib s ?s"
    using sv_step.attach_legacy [where lib = demo_lib and x = hf and s = s and p = "[]" and d' = d' and w' = w'
        and ret = 0 and foo = c_foo] A assms by (simp add: demo_ready_def demo_lib_def example_fun_def)
  have "owned_contexts d' = 1"
    using attach_host_function_spec [OF A] owned_contexts_snoc cnt by (fastforce simp: owned_contexts_def)
  then show ?thesis using assms st by (intro exI [of _ ?s]) (simp add: demo_ready_def)
qed

theorem service_heap_accounted_witness:
  "\<exists>s0 s. sv_start (empty_world []) 1 s0 \<and> (sv_step demo_lib)\<^sup>*\<^sup>* s0 s \<and> sv_names s = [hf] \<and>
     w_heap (sv_world s) = 9 \<and> w_heap (snd (delete_finish 0 (sv_disp s) [0, 0, 0, 0] (with_plan [] (sv_world s)))) = 0"
proof -
  obtain s0 where s0: "demo_ready s0" "sv_start (empty_world []) 1 s0" "sv_lost s0 = 0" using demo_start by blast
  then obtain s where s: "sv_step demo_lib s0 s" "sv_names s = [hf]" "sv_callers s = []" "owned_contexts (sv_disp s) = 1"
      "sv_daemon s = sv_daemon s0" "sv_lost s = 0"
    using demo_attach_legacy [OF s0(1)] by auto
  have "dm_pc (sv_daemon s) = DmWait" "w_heap (empty_world []) = 0"
    using s0(1) s(5) by (simp_all add: demo_ready_def empty_world_def)
  then show ?thesis
    using service_heap_accounted [OF demo_lib_simps(1) s0(2) r_into_rtranclp [of "sv_step demo_lib", OF s(1)], of "[0, 0, 0, 0]" "[]"]
      s0(2) s by auto
qed

lemma demo_link:
  assumes rt: "sv_reach demo_lib t" and t: "sv_names t = [hf]" "sv_sent t = (\<lambda>_. [])" "sv_served t = (\<lambda>_. [])"
    and free: "looks (sv_world t) 2 = Map.empty"
  obtains c q u where "sv_step demo_lib t u" "sv_callers u = sv_callers t @ [(hf, 2, c)]" "sv_names u = [hf]"
    "sv_daemon u = sv_daemon t" "sv_sent u = (\<lambda>_. [])" "sv_served u = (\<lambda>_. [])"
    "grows (sv_world t) (sv_world u)" "c_sz_arg c = 4" "w_pipes (sv_world u) ! q = []"
    "w_fifos (sv_world u) (pipe_name hf ''_req'') = Some q"
    "Option.bind (file_of (sv_world u) 2 (c_req_fd c)) write_end = Some q"
proof -
  have plan: "w_plan (sv_world t) = []" using sv_reach_inv [OF _ rt] sv_invD(1) by auto
  obtain c w' where L: "link_host_function 2 hf 4 4 (sv_world t) = Some (Some c, w')" "grows (sv_world t) w'"
      "ERR_PIPE_REQ \<notin> {c_req_fd c, c_res_fd c}"
    using link_host_function_links [OF plan, of hf 4 4 2] free by (auto simp: PIPE_BUF_def)
  have same: "with_plan [] (sv_world t) = sv_world t" using plan by (simp add: with_plan_def)
  let ?u = "t\<lparr>sv_world := with_plan [] w', sv_callers := sv_callers t @ [(hf, 2, c)]\<rparr>"
  have su: "sv_step demo_lib t ?u" using sv_step.link [of 2 hf demo_lib "[]" t c w'] L same by simp
  obtain ctl rep e where I: "sv_inv demo_lib ctl rep e ?u" using sv_reach_inv [OF _ sv_reach.step [OF rt su]] by auto
  note F = sv_invD(2) [OF I] and D = sv_invD(3) [OF I]
  have "caller_of demo_lib (sv_world ?u) hf 2 c" using sv_filesD(4) [OF F, of hf 2 c] by simp
  then obtain q where sz: "c_sz_arg c = 4"
      and q: "w_fifos w' (pipe_name hf ''_req'') = Some q" "Option.bind (file_of w' 2 (c_req_fd c)) write_end = Some q"
    by (rule caller_ofD) simp
  have "chunks 4 (w_pipes w' ! q) = []" "4 dvd length (w_pipes w' ! q)"
    using sv_dataD(3) [OF D, of hf] t(2,3) q(1) by (simp_all add: requests_ok_def bytes_in_def)
  then have "w_pipes w' ! q = []" using chunks_Nil_iff [of 4] by auto
  moreover have "grows (sv_world t) (sv_world ?u)" using L(2) by (simp add: grows_def)
  ultimately show thesis using that [OF su, of c q] sz q t by simp
qed

text \<open>Steps that only grow the world, and then write to a FIFO, leave the private pipes alone.\<close>

lemma private_kept:
  assumes g: "grows w v" "grows v u" and r: "r < length (w_pipes w)" "\<forall>p. w_fifos w p \<noteq> Some r"
    and q: "w_fifos u path = Some q"
  shows "w_pipes u ! r = w_pipes w ! r" "q \<noteq> r"
proof -
  have gv: "w_pipes v ! r = w_pipes w ! r" "r < length (w_pipes v)"
    using grows_pipe [OF g(1) r(1)] grows_length [OF g(1)] r(1) by simp_all
  then show "w_pipes u ! r = w_pipes w ! r" using grows_pipe [OF g(2) gv(2)] by simp
  have "w_fifos v p \<noteq> Some r" for p using grows_private [OF g(1) r] by simp
  then have "w_fifos u path \<noteq> Some r" using grows_private [OF g(2) gv(2)] by blast
  then show "q \<noteq> r" using q by auto
qed

lemma demo_call:
  assumes "demo_ready s"
  shows "\<exists>s'. sv_reach demo_lib s' \<and> sv_names s' = [hf] \<and> sv_sent s' hf = [[5, 0, 0, 0]] \<and>
    sv_served s' = (\<lambda>_. []) \<and> dm_pc (sv_daemon s') = DmWait \<and> w_cap (sv_world s') = 65536 \<and> same_control s s'"
proof -
  obtain t where st: "sv_step demo_lib s t" and t: "sv_names t = [hf]" "sv_callers t = []" "sv_sent t = (\<lambda>_. [])"
      "sv_served t = (\<lambda>_. [])" "sv_daemon t = sv_daemon s" "w_cap (sv_world t) = 65536"
      and g: "grows (sv_world s) (sv_world t\<lparr>w_epolls := w_epolls (sv_world s)\<rparr>)" and free: "looks (sv_world t) 2 = Map.empty"
    using demo_attach [OF assms] by blast
  have rt: "sv_reach demo_lib t" using sv_reach.step [OF _ st] assms by (simp add: demo_ready_def)
  obtain c q u where u: "sv_step demo_lib t u" "sv_callers u = [(hf, 2, c)]" "sv_names u = [hf]"
      "sv_daemon u = sv_daemon s" "sv_sent u = (\<lambda>_. [])" "sv_served u = (\<lambda>_. [])"
      and gu: "grows (sv_world t) (sv_world u)" and c: "c_sz_arg c = 4" and q: "w_pipes (sv_world u) ! q = []"
      "w_fifos (sv_world u) (pipe_name hf ''_req'') = Some q"
      "Option.bind (file_of (sv_world u) 2 (c_req_fd c)) write_end = Some q"
    by (rule demo_link [OF rt t(1,3,4) free], rule that) (assumption | simp add: t(2,5))+
  have cap: "w_cap (sv_world u) = 65536" using gu t(6) by (simp add: grows_def)
  let ?w = "with_plan [] (sv_world u)"
  have W: "call_host_function 2 c [5, 0, 0, 0] ?w = Done (0, pipe_set q [5, 0, 0, 0] ?w)"
    using sys_write_ok [of ?w 2 "c_req_fd c" q "[5, 0, 0, 0]"] q cap c by (simp add: call_host_function_def)
  let ?s = "u\<lparr>sv_world := with_plan [] (pipe_set q [5, 0, 0, 0] ?w), sv_sent := (sv_sent u)(hf := sv_sent u hf @ [[5, 0, 0, 0]])\<rparr>"
  have ss: "sv_step demo_lib u ?s"
    using sv_step.call [of hf 2 c u "[5, 0, 0, 0]" demo_lib "[]" 0, OF _ _ W] u(2) by simp
  have "grows (sv_world t\<lparr>w_epolls := w_epolls (sv_world s)\<rparr>) (sv_world u\<lparr>w_epolls := w_epolls (sv_world s)\<rparr>)"
    using gu by (auto simp: grows_def)
  note kept = private_kept [OF g this, of _ "pipe_name hf ''_req''" q]
  have "same_control s ?s"
    unfolding same_control_def using three_steps [OF st u(1) ss] kept q(2) by (auto simp: pipe_set_def)
  moreover have "sv_reach demo_lib ?s" by (rule sv_reach.step [OF sv_reach.step [OF rt u(1)] ss])
  ultimately show ?thesis
    using u(3-6) cap assms by (intro exI [of _ ?s]) (simp add: demo_ready_def pipe_set_def)
qed

section \<open>Witnesses\<close>

lemma demo_request:
  "\<exists>s. sv_reach demo_lib s \<and> sv_names s = [hf] \<and> sv_sent s hf = [[5, 0, 0, 0]] \<and> sv_served s = (\<lambda>_. []) \<and>
     dm_pc (sv_daemon s) = DmWait \<and> w_cap (sv_world s) = 65536 \<and>
     bytes_in (sv_world s) (pipe_name hf ''_req'') \<noteq> [] \<and>
     length (bytes_in (sv_world s) (pipe_name hf ''_res'')) + hf_sz_ret (demo_lib hf) \<le> w_cap (sv_world s)"
proof -
  obtain s where s: "sv_reach demo_lib s" "sv_names s = [hf]" "sv_sent s hf = [[5, 0, 0, 0]]"
      "sv_served s = (\<lambda>_. [])" "dm_pc (sv_daemon s) = DmWait" "w_cap (sv_world s) = 65536"
    using demo_start demo_call by blast
  obtain ctl rep e where I: "sv_inv demo_lib ctl rep e s" using sv_reach_inv [OF _ s(1)] by auto
  note D = sv_dataD(3,4) [OF sv_invD(3) [OF I], of hf]
  have "bytes_in (sv_world s) (pipe_name hf ''_res'') = []"
    using D(2) s(4) by (simp add: responses_ok_def)
  moreover have "bytes_in (sv_world s) (pipe_name hf ''_req'') \<noteq> []"
    using D(1) s(3-5) by (auto simp: requests_ok_def)
  ultimately show ?thesis using s by (intro exI [of _ s]) simp
qed

theorem service_exactly_once_witness:
  "\<exists>s. sv_reach demo_lib s \<and> sv_sent s hf = [[5, 0, 0, 0]] \<and>
     chunks 4 (bytes_in (sv_world s) (pipe_name hf ''_req'')) = [[5, 0, 0, 0]]"
proof -
  obtain s where s: "sv_reach demo_lib s" "sv_sent s hf = [[5, 0, 0, 0]]" "sv_served s = (\<lambda>_. [])"
      "dm_pc (sv_daemon s) = DmWait"
    using demo_request by blast
  then show ?thesis using service_exactly_once [of demo_lib s hf] by auto
qed

theorem service_well_formed_witness:
  "\<exists>s. sv_reach demo_lib s \<and> sv_names s = [hf] \<and> entry_ok demo_lib (sv_world s) (sv_disp s) 0 hf"
proof -
  obtain s where s: "sv_reach demo_lib s" "sv_names s = [hf]" using demo_request by blast
  then show ?thesis using service_well_formed [of demo_lib s] by auto
qed

lemma demo_answer:
  assumes "sv_sent s hf = [[5, 0, 0, 0]]" "sv_served s = (\<lambda>_. [])" "drop (length (sv_served s hf)) (sv_sent s hf) = arg # rest"
    and "sv_served s' = (sv_served s)(hf := sv_served s hf @ [(arg, response (demo_lib hf) arg)])"
  shows "sv_served s hf = []" "sv_served s' hf = [([5, 0, 0, 0], [4, 0, 0, 0])]"
  using assms by auto


text \<open>A state in which the request has been answered.\<close>

lemma demo_served: "\<exists>s. sv_reach demo_lib s \<and> sv_served s hf = [([5, 0, 0, 0], [4, 0, 0, 0])]"
proof -
  obtain s where s: "sv_reach demo_lib s" "sv_names s = [hf]" "sv_sent s hf = [[5, 0, 0, 0]]" "sv_served s = (\<lambda>_. [])"
      "dm_pc (sv_daemon s) = DmWait" "bytes_in (sv_world s) (pipe_name hf ''_req'') \<noteq> []"
      "length (bytes_in (sv_world s) (pipe_name hf ''_res'')) + hf_sz_ret (demo_lib hf) \<le> w_cap (sv_world s)"
    using demo_request by blast
  have "hf \<in> set (sv_names s)" using s(2) by simp
  from serves_waiting [OF demo_lib_simps(1) s(1,5) this s(6,7)] obtain s' where
      "(sv_step demo_lib ^^ 5) s s'" "sv_served s' hf = [([5, 0, 0, 0], [4, 0, 0, 0])]"
    using demo_answer [OF s(3,4)] by blast
  then show ?thesis using steps_keep(1) [OF relpowp_imp_rtranclp] s(1) by blast
qed


text \<open>The daemon answers the stop signal in a batch that also holds the request.\<close>

text \<open>A stop signal in front of the call: both control pipes, and what they hold.\<close>

lemma demo_stop:
  obtains ctl rep e t where "demo_ready t" "sv_inv demo_lib ctl rep e t" "ctl < 2" "rep < 2"
    "w_pipes (sv_world t) ! ctl = int_bytes DISPATCHER_EXIT" "w_pipes (sv_world t) ! rep = []"
proof -
  obtain s where s: "demo_ready s" "w_pipes (sv_world s) = [[], []]" using demo_start by blast
  then have Rs: "sv_reach demo_lib s" by (simp add: demo_ready_def)
  obtain ctl rep e where I: "sv_inv demo_lib ctl rep e s" using sv_reach_inv [OF _ Rs] by auto
  note F = sv_filesD [OF sv_invD(2) [OF I]]
  have d: "Option.bind (file_of (sv_world s) 0 (snd (d_to_daemon (sv_disp s)))) write_end = Some ctl" "rep < 2" "ctl < 2"
    using F(2) s(2) by (simp_all add: disp_ok_def)
  have empty: "w_pipes (sv_world s) ! ctl = []" "w_pipes (sv_world s) ! rep = []"
    using s(2) d(2,3) by (auto simp: less_2_cases_iff)
  let ?x = "int_bytes DISPATCHER_EXIT" and ?w = "with_plan [] (sv_world s)"
  let ?t = "s\<lparr>sv_world := with_plan [] (pipe_set ctl ?x ?w)\<rparr>"
  have D: "delete_request 0 (sv_disp s) ?w = Done (4, pipe_set ctl ?x ?w)"
    using sys_write_ok [of ?w 0 "snd (d_to_daemon (sv_disp s))" ctl ?x] d(1) empty(1) s(1)
    by (simp add: delete_request_def demo_ready_def int_bytes_def)
  then have st: "sv_step demo_lib s ?t" by (rule sv_step.stop)
  have wt: "w_pipes (sv_world ?t) = (w_pipes (sv_world s))[ctl := ?x]" by (simp add: pipe_set_def)
  have len: "length (w_pipes (sv_world s)) = 2" by (simp add: s(2))
  have "w_pipes (sv_world ?t) ! ctl = ?x" "w_pipes (sv_world ?t) ! rep = []" "length (w_pipes (sv_world ?t)) = 2"
    unfolding wt using d(2,3) F(7) len empty(2) by simp_all
  moreover from this have "demo_ready ?t"
    using sv_reach.step [OF Rs st] s(1) by (simp add: demo_ready_def pipe_set_def)
  moreover have "sv_inv demo_lib ctl rep e ?t" by (rule sv_step_keeps [OF demo_lib_simps(1) st I])
  ultimately show thesis
    using that [OF _ _ d(3,2)] by blast
qed

text \<open>The daemon reads the stop signal first, with the call left in its batch.\<close>

lemma demo_batch:
  assumes Ru: "sv_reach demo_lib u" and Iu: "sv_inv demo_lib ctl rep e u" and pc: "dm_pc (sv_daemon u) = DmWait"
    and hf: "sv_names u = [hf]" "bytes_in (sv_world u) (pipe_name hf ''_req'') \<noteq> []"
    and ctl: "w_pipes (sv_world u) ! ctl = int_bytes DISPATCHER_EXIT"
  obtains z r w' where "sv_reach demo_lib z" "sv_inv demo_lib ctl rep e z" "dm_pc (sv_daemon z) = DmControl r [0]"
    "sv_world z = with_plan [] (pipe_set ctl [] (sv_world u))"
proof -
  let ?x = "int_bytes DISPATCHER_EXIT"
  note Fu = sv_invD(2) [OF Iu]
  note K = disp_okD [OF sv_filesD(2) [OF Fu]]
  have x: "length ?x = 4" "?x \<noteq> []" by (simp_all add: int_bytes_def eval_nat_numeral)
  have "set [0] \<subseteq> set (epoll_ready 0 (sv_disp u) (sv_world u))"
    using wait_reports [OF Iu, of 0] hf by (simp add: epoll_reports_def)
  moreover have "-1 \<in> set (epoll_ready 0 (sv_disp u) (sv_world u))"
    using K(1,3) ctl x(2) by (force simp: epoll_ready_def watched_def)
  ultimately have E: "epoll_reports 0 (sv_disp u) (sv_world u) [-1, 0]"
    by (simp add: epoll_reports_def MAX_EPOLL_EVENTS_def)
  let ?v = "u\<lparr>sv_daemon := daemon_wait 0 (sv_disp u) [-1, 0] (sv_world u) (sv_daemon u)\<rparr>"
  have sv: "sv_step demo_lib u ?v" by (rule sv_step.wait [OF E pc])
  have pcv: "dm_pc (sv_daemon ?v) = DmBatch [-1, 0]" using E pc by (simp add: daemon_wait_def)
  note Iv = sv_step_keeps [OF demo_lib_simps(1) sv Iu]
  obtain dm' w' where D: "daemon_step 0 (sv_disp ?v) (with_plan [] (sv_world ?v)) (sv_daemon ?v) (DmBatch [-1, 0]) = (dm', w')"
    by fastforce
  obtain r where r: "dm_pc dm' = DmControl r [0]"
    using control_read_keeps [OF sv_invD(2) [OF Iv] sv_invD(3) [OF Iv, unfolded pcv] D pcv] by blast
  have "Option.bind (file_of (sv_world u) 0 (fst (d_to_daemon (sv_disp u)))) read_end = Some ctl"
    using sv_filesD(2) [OF Fu] by (simp add: disp_ok_def)
  then have "w' = pipe_set ctl [] (with_plan [] (sv_world u))"
    using D sys_read_ok [of "with_plan [] (sv_world u)" 0 "fst (d_to_daemon (sv_disp u))" ctl 4] ctl x
    by (auto split: if_splits)
  then have "sv_daemon (daemon_next ?v) = dm'" "sv_world (daemon_next ?v) = with_plan [] (pipe_set ctl [] (sv_world u))"
    using D pcv by (simp_all add: daemon_next_def with_plan_def pipe_set_def)
  then show thesis
    using that [OF sv_reach.step [OF sv_reach.step [OF Ru sv] daemon_next_step]
        sv_step_keeps [OF demo_lib_simps(1) daemon_next_step Iv]] r by simp
qed

lemma demo_shutdown:
  "\<exists>s. sv_reach demo_lib s \<and> (\<exists>r. dm_pc (sv_daemon s) = DmControl r [0]) \<and> w_cap (sv_world s) = 65536 \<and>
     (\<forall>q. file_of (sv_world s) 0 (snd (d_from_daemon (sv_disp s))) = Some (PipeWrite q) \<longrightarrow>
        w_pipes (sv_world s) ! q = [])"
proof -
  obtain ctl rep e t where t: "demo_ready t" "sv_inv demo_lib ctl rep e t" "ctl < 2" "rep < 2"
      "w_pipes (sv_world t) ! ctl = int_bytes DISPATCHER_EXIT" "w_pipes (sv_world t) ! rep = []"
    by (rule demo_stop)
  note F = sv_filesD [OF sv_invD(2) [OF t(2)]]
  obtain u where u: "sv_reach demo_lib u" "sv_names u = [hf]" "sv_sent u hf = [[5, 0, 0, 0]]"
      "sv_served u = (\<lambda>_. [])" "dm_pc (sv_daemon u) = DmWait" "w_cap (sv_world u) = 65536" "same_control t u"
    using demo_call [OF t(1)] by blast
  have st: "(sv_step demo_lib)\<^sup>*\<^sup>* t u" and pipes: "w_pipes (sv_world u) ! ctl = int_bytes DISPATCHER_EXIT"
      "w_pipes (sv_world u) ! rep = []"
    using u(7) t F(8,9) by (simp_all add: same_control_def demo_ready_def)
  have Iu: "sv_inv demo_lib ctl rep e u" by (rule steps_keep(2) [OF st demo_lib_simps(1) t(2)])
  have "bytes_in (sv_world u) (pipe_name hf ''_req'') \<noteq> []"
    using sv_dataD(3) [OF sv_invD(3) [OF Iu], of hf] u(3-5) by (auto simp: requests_ok_def)
  then obtain z r where z: "sv_reach demo_lib z" "sv_inv demo_lib ctl rep e z" "dm_pc (sv_daemon z) = DmControl r [0]"
      "sv_world z = with_plan [] (pipe_set ctl [] (sv_world u))"
    using demo_batch [OF u(1) Iu u(5,2) _ pipes(1)] by blast
  have "file_of (sv_world z) 0 (snd (d_from_daemon (sv_disp z))) = Some (PipeWrite rep)"
    using sv_filesD(2) [OF sv_invD(2) [OF z(2)]] by (simp add: disp_ok_def)
  moreover have "w_cap (sv_world z) = 65536" "w_pipes (sv_world z) ! rep = []"
    using u(6) pipes(2) F(7) by (simp_all add: z(4) pipe_set_def)
  ultimately show ?thesis using z(1,3) by (intro exI [of _ z]) simp
qed

theorem delete_overtakes_daemon_witness:
  "\<exists>s n bs w'. sv_reach demo_lib s \<and> dm_pc (sv_daemon s) = DmBatch [0] \<and>
     delete_wait 0 (sv_disp s) (sv_world s) = Done (n, bs, w') \<and> bs \<noteq> []"
proof -
  obtain s r where s: "sv_reach demo_lib s" "dm_pc (sv_daemon s) = DmControl r [0]" "w_cap (sv_world s) = 65536"
      "\<forall>q. file_of (sv_world s) 0 (snd (d_from_daemon (sv_disp s))) = Some (PipeWrite q) \<longrightarrow> w_pipes (sv_world s) ! q = []"
    using demo_shutdown by blast
  have "length (w_pipes (sv_world s) ! q) + 4 \<le> w_cap (sv_world s)"
    if "file_of (sv_world s) 0 (snd (d_from_daemon (sv_disp s))) = Some (PipeWrite q)" for q
    using s(3,4) that by simp
  then show ?thesis using delete_overtakes_daemon [OF demo_lib_simps(1) s(1,2)] by blast
qed

theorem delete_closes_dispatcher_witness:
  "\<exists>s w'. sv_reach demo_lib s \<and> sv_names s = [hf] \<and>
     delete_finish 0 (sv_disp s) [1, 0, 0, 0] (sv_world s) = (1, w') \<and>
     (\<forall>fd. disp_fd (sv_disp s) 1 fd \<longrightarrow> file_of (sv_world s) 0 fd \<noteq> None \<and> file_of w' 0 fd = None)"
proof -
  obtain s where s: "sv_reach demo_lib s" "sv_names s = [hf]" using demo_start demo_call by blast
  obtain ctl rep e where I: "sv_inv demo_lib ctl rep e s" using sv_reach_inv [OF _ s(1)] by auto
  have same: "with_plan [] (sv_world s) = sv_world s" using sv_invD(1) [OF I] by (simp add: with_plan_def)
  have opened: "file_of (sv_world s) 0 fd \<noteq> None" if "disp_fd (sv_disp s) 1 fd" for fd
    using open_fds_open [OF sv_invD(2) [OF I], of 0 fd] disp_fd_iff [OF sv_invD(2) [OF I], of fd] that s(2)
    by (auto simp: open_fds_def)
  obtain ret w' where D: "delete_finish 0 (sv_disp s) [1, 0, 0, 0] (with_plan [] (sv_world s)) = (ret, w')"
    by fastforce
  have one: "sint (int_of_bytes [1, 0, 0, 0]) = 1" by code_simp
  have "ret = 1" using delete_closes_dispatcher [OF demo_lib_simps(1) s(1) D] one by simp
  then show ?thesis
    using s D opened delete_closes_dispatcher [OF demo_lib_simps(1) s(1) D] unfolding same
    by (intro exI [of _ s] exI [of _ w']) auto
qed

end
