(* ===== verification/Dispatcher_Group_Props.thy ===== *)
theory Dispatcher_Group_Props
  imports Dispatcher_Group Function_Service_Demo "HOL-Library.Multiset"
begin

text \<open>
  What holds when several dispatchers serve one function: every call is served exactly once,
  by one of them, but a daemon that comes too late for a request waits in \<open>read\<close>, and cannot be
  stopped.
\<close>

section \<open>One dispatcher is a group of one\<close>

definition group_of :: "service \<Rightarrow> (string \<Rightarrow> (nat \<times> u8 list) list) \<Rightarrow> (string \<Rightarrow> (nat \<times> u8 list \<times> u8 list) list) \<Rightarrow> group" where
  "group_of s taken fin =
     \<lparr>gr_world = sv_world s, gr_servers = [\<lparr>srv_disp = sv_disp s, srv_daemon = sv_daemon s, srv_names = sv_names s\<rparr>],
      gr_callers = sv_callers s, gr_sent = sv_sent s, gr_taken = taken, gr_finished = fin, gr_got = sv_got s\<rparr>"

lemma log_finished_reply:
  assumes "\<forall>x. map snd (fin x) = served x"
  shows "map snd (log_finished k names w w' pc pc' fin x) = log_reply names w w' pc pc' served x"
  using assms by (simp add: log_finished_def log_reply_def Let_def split: daemon_pc.split)

lemma service_step_in_group:
  assumes "sv_step lib s s'" "\<forall>x. map snd (fin x) = sv_served s x"
  shows "\<exists>taken' fin'. gr_step lib (group_of s taken fin) (group_of s' taken' fin') \<and> (\<forall>x. map snd (fin' x) = sv_served s' x)"
  using assms(1)
proof cases
  case (attach x p ret d' w')
  then show ?thesis
    using gr_step.attach [of 0 "group_of s taken fin" _ x lib p ret d' w'] assms(2)
    by (intro exI [of _ taken] exI [of _ fin]) (simp add: group_of_def attached_def)
next
  case (attach_legacy x foo p ret d' w')
  then show ?thesis
    using gr_step.attach_legacy [of 0 "group_of s taken fin" _ x lib foo p ret d' w'] assms(2)
    by (intro exI [of _ taken] exI [of _ fin]) (simp add: group_of_def attached_def)
next
  case (link pid x p c w')
  then show ?thesis
    using gr_step.link [of pid x lib p "group_of s taken fin" c w'] assms(2) by (intro exI [of _ taken] exI [of _ fin]) (simp add: group_of_def)
next
  case (link_null pid x p w')
  then show ?thesis
    using gr_step.link_null [of pid x lib p "group_of s taken fin" w'] assms(2) by (intro exI [of _ taken] exI [of _ fin]) (simp add: group_of_def)
next
  case (unlink x pid c p ret w')
  then show ?thesis
    using gr_step.unlink [of x pid c "group_of s taken fin" p ret w' lib] assms(2) by (intro exI [of _ taken] exI [of _ fin]) (simp add: group_of_def)
next
  case (call x pid c arg p ret w')
  then show ?thesis
    using gr_step.call [of x pid c "group_of s taken fin" arg lib p ret w'] assms(2) by (intro exI [of _ taken] exI [of _ fin]) (simp add: group_of_def)
next
  case (respond x pid c p ret bytes w')
  then show ?thesis
    using gr_step.respond [of x pid c "group_of s taken fin" p ret bytes w' lib] assms(2) by (intro exI [of _ taken] exI [of _ fin]) (simp add: group_of_def)
next
  case (wait evs)
  then show ?thesis
    using gr_step.wait [of 0 "group_of s taken fin" _ evs lib] assms(2) by (intro exI [of _ taken] exI [of _ fin]) (simp add: group_of_def)
next
  case (daemon p dm' w')
  then show ?thesis
    using gr_step.daemon [of 0 "group_of s taken fin" _ p dm' w' lib] log_finished_reply [OF assms(2)]
    by (intro exI [of _ "log_taken 0 (sv_names s) (dm_pc (sv_daemon s)) (dm_pc dm') taken"]
          exI [of _ "log_finished 0 (sv_names s) (sv_world s) w' (dm_pc (sv_daemon s)) (dm_pc dm') fin"])
      (simp add: group_of_def)
next
  case (stop p ret w')
  then show ?thesis
    using gr_step.stop [of 0 "group_of s taken fin" p ret w' lib] assms(2) by (intro exI [of _ taken] exI [of _ fin]) (simp add: group_of_def)
qed

lemma service_in_group:
  assumes "sv_reach lib s"
  shows "\<exists>taken fin. gr_reach lib (group_of s taken fin) \<and> (\<forall>x. map snd (fin x) = sv_served s x)"
  using assms
proof induction
  case (start w n s)
  then obtain d w' where C: "w_plan w = []" "fifos_ok w" "\<forall>path. bytes_in w path = []"
      "create_host_function_dispatcher 0 n w = Some (Some d, True, w')"
      and s: "s = \<lparr>sv_world = w', sv_disp = d, sv_daemon = \<lparr>dm_pc = DmWait, dm_exit = False\<rparr>, sv_names = [],
         sv_callers = [], sv_sent = (\<lambda>_. []), sv_served = (\<lambda>_. []), sv_got = (\<lambda>_. []), sv_lost = 0\<rparr>"
    by (auto simp: sv_start_def)
  let ?g = "\<lparr>gr_world = w, gr_servers = [], gr_callers = [], gr_sent = (\<lambda>_. []), gr_taken = (\<lambda>_. []),
      gr_finished = (\<lambda>_. []), gr_got = (\<lambda>_. [])\<rparr>"
  have "gr_reach lib ?g" using C by (intro gr_reach.start) (simp add: gr_start_def)
  moreover have "gr_step lib ?g (group_of s (\<lambda>_. []) (\<lambda>_. []))"
    using gr_step.create [of n ?g d w' lib] C(4) by (simp add: group_of_def s new_server_def)
  ultimately have "gr_reach lib (group_of s (\<lambda>_. []) (\<lambda>_. []))" by (rule gr_reach.step)
  then show ?case by (intro exI [of _ "\<lambda>_. []"]) (simp add: s)
next
  case (step s s')
  then show ?case using service_step_in_group [OF step.hyps(2)] gr_reach.step by blast
qed

section \<open>Exactly once\<close>

lemma mset_by_server:
  "\<forall>(j, _) \<in> set xs. j < n \<Longrightarrow> mset (map (f \<circ> snd) xs) = (\<Sum>k<n. mset (map f (by_server k xs)))"
proof (induction xs)
  case (Cons p xs)
  obtain j y where p: "p = (j, y)" by fastforce
  have "(\<Sum>k<n. mset (map f (by_server k (p # xs)))) = (\<Sum>k<n. mset (map f (by_server k xs)) + (if j = k then {#f y#} else {#}))"
    by (rule sum.cong) (simp_all add: p)
  also have "\<dots> = (\<Sum>k<n. mset (map f (by_server k xs))) + {#f y#}"
    using Cons.prems p by (simp add: sum.distrib sum.delta')
  finally show ?case using Cons p by simp
qed simp

text \<open>The request that server \<open>k\<close> works on.\<close>

definition working :: "group \<Rightarrow> string \<Rightarrow> nat \<Rightarrow> u8 list list" where
  "working s x k = in_work (srv_names (gr_servers s ! k)) (dm_pc (srv_daemon (gr_servers s ! k))) x"

lemma taken_or_waiting:
  assumes "lib_ok lib" "gr_reach lib s"
  shows "gr_sent s x = map snd (gr_taken s x) @ chunks (hf_sz_arg (lib x)) (bytes_in (gr_world s) (pipe_name x ''_req''))"
    "hf_sz_arg (lib x) dvd length (bytes_in (gr_world s) (pipe_name x ''_req''))"
    "k < length (gr_servers s) \<Longrightarrow> by_server k (gr_taken s x) = map fst (by_server k (gr_finished s x)) @ working s x k"
    "mset (map snd (gr_taken s x)) =
       mset (map (fst \<circ> snd) (gr_finished s x)) + (\<Sum>k < length (gr_servers s). mset (working s x k))"
proof -
  obtain es where I: "gr_inv lib s es" using gr_reach_inv [OF assms] by blast
  then have D: "gr_data lib (bytes_in (gr_world s)) (gr_servers s) (gr_sent s) (gr_taken s) (gr_finished s) (gr_got s)"
    by (simp add: gr_inv_def)
  show "gr_sent s x = map snd (gr_taken s x) @ chunks (hf_sz_arg (lib x)) (bytes_in (gr_world s) (pipe_name x ''_req''))"
    "hf_sz_arg (lib x) dvd length (bytes_in (gr_world s) (pipe_name x ''_req''))"
    using gr_dataD(1) [OF D, of x] by (simp_all add: requests_ok_def)
  show server: "by_server k (gr_taken s x) = map fst (by_server k (gr_finished s x)) @ working s x k"
    if "k < length (gr_servers s)" for k
    unfolding working_def by (rule gr_dataD(4) [OF D that])
  have "mset (map (id \<circ> snd) (gr_taken s x)) = (\<Sum>k < length (gr_servers s). mset (map id (by_server k (gr_taken s x))))"
    using gr_dataD(5) [OF D] by (intro mset_by_server) auto
  moreover have "mset (map (fst \<circ> snd) (gr_finished s x)) = (\<Sum>k < length (gr_servers s). mset (map fst (by_server k (gr_finished s x))))"
    using gr_dataD(6) [OF D] by (intro mset_by_server) auto
  ultimately show "mset (map snd (gr_taken s x)) =
      mset (map (fst \<circ> snd) (gr_finished s x)) + (\<Sum>k < length (gr_servers s). mset (working s x k))"
    by (simp add: server sum.distrib)
qed

text \<open>
  C33: several dispatchers of one process share the calls of a function. In every reachable state, however
  their daemons compete for the request FIFO and whichever system calls fail, the calls that
  returned 0 are, each exactly once, those that some dispatcher has finished, those that some dispatcher
  works on, and those that wait in the FIFO. Requests are taken in the order of the calls, and
  every dispatcher finishes what it took in this order; a finished request has the response of its
  argument, or none; and what the callers received, followed by what waits in the response
  FIFO, are the responses in the order in which the requests were finished, which for several dispatchers need not be
  the order of the calls.
\<close>

theorem dispatchers_share_requests:
  assumes "lib_ok lib" "gr_reach lib s"
  shows "mset (gr_sent s x) = mset (map (fst \<circ> snd) (gr_finished s x)) +
      (\<Sum>k < length (gr_servers s). mset (working s x k)) +
      mset (chunks (hf_sz_arg (lib x)) (bytes_in (gr_world s) (pipe_name x ''_req''))) \<and>
    gr_sent s x = map snd (gr_taken s x) @ chunks (hf_sz_arg (lib x)) (bytes_in (gr_world s) (pipe_name x ''_req'')) \<and>
    (\<forall>k < length (gr_servers s). by_server k (gr_taken s x) = map fst (by_server k (gr_finished s x)) @ working s x k) \<and>
    (\<forall>(k, arg, res) \<in> set (gr_finished s x). res = response (lib x) arg \<or> res = []) \<and>
    concat (map (snd \<circ> snd) (gr_finished s x)) = gr_got s x @ bytes_in (gr_world s) (pipe_name x ''_res'')"
proof -
  obtain es where "gr_inv lib s es" using gr_reach_inv [OF assms] by blast
  then have "responses_ok lib x (bytes_in (gr_world s) (pipe_name x ''_res'')) (map snd (gr_finished s x)) (gr_got s x)"
    by (auto simp: gr_inv_def intro: gr_dataD(2))
  then have "concat (map (snd \<circ> snd) (gr_finished s x)) = gr_got s x @ bytes_in (gr_world s) (pipe_name x ''_res'')"
      "\<forall>(k, arg, res) \<in> set (gr_finished s x). res = response (lib x) arg \<or> res = []"
    by (auto simp: responses_ok_def)
  moreover note T = taken_or_waiting [OF assms]
  have "mset (gr_sent s x) = mset (map snd (gr_taken s x)) +
      mset (chunks (hf_sz_arg (lib x)) (bytes_in (gr_world s) (pipe_name x ''_req'')))"
    by (simp only: T(1) [of x] mset_append)
  ultimately show ?thesis using T(1,3,4) by (intro conjI) (simp_all only:, blast+)
qed

section \<open>A request that is gone\<close>

text \<open>
  C34: a daemon that comes too late cannot be stopped. When \<open>epoll_wait\<close> has reported a request to the daemons of
  several dispatchers and another one has taken it, the daemon waits in \<open>read\<close>; a stop signal
  from \<open>delete_host_function_dispatcher\<close> does not wake it, and as long as it has not answered, the call waits as well,
  although no function is running.
\<close>

theorem stolen_request_blocks_delete:
  assumes "lib_ok lib" "gr_reach lib s" "k < length (gr_servers s)" "sv = gr_servers s ! k"
    and "dm_pc (srv_daemon sv) = DmRead i evs" "bytes_in (gr_world s) (pipe_name (srv_names sv ! i) ''_req'') = []"
    and "file_of (gr_world s) 0 (fst (d_from_daemon (srv_disp sv))) = Some (PipeRead rep)" "w_pipes (gr_world s) ! rep = []"
    and "delete_request 0 (srv_disp sv) (gr_world s) = Done (n, w')"
  shows "daemon_step 0 (srv_disp sv) w' (srv_daemon sv) (DmRead i evs) = (srv_daemon sv, w') \<and>
    delete_wait 0 (srv_disp sv) w' = Blocked"
proof -
  obtain es where I: "gr_inv lib s es" using gr_reach_inv [OF assms(1,2)] by blast
  then have plan: "w_plan (gr_world s) = []" and F: "gr_files lib (gr_world s) (gr_servers s) (gr_callers s) es"
    and D: "gr_data lib (bytes_in (gr_world s)) (gr_servers s) (gr_sent s) (gr_taken s) (gr_finished s) (gr_got s)"
    by (simp_all add: gr_inv_def)
  obtain ctl rep' where S: "sv_files lib ctl rep' (es ! k) (gr_world s) (srv_disp sv) (srv_names sv) (gr_callers s)"
    using gr_filesD(3) [OF F assms(3)] assms(4) by (auto simp: server_files_def)
  have same: "with_plan [] (gr_world s) = gr_world s" using plan by (simp add: with_plan_def)
  have "Option.bind (file_of (gr_world s) 0 (snd (d_to_daemon (srv_disp sv)))) write_end = Some ctl" and rep: "rep' = rep"
    using sv_filesD(2) [OF S] assms(7) by (simp_all add: disp_ok_def)
  then have w': "w' = pipe_set ctl (w_pipes (gr_world s) ! ctl @ int_bytes DISPATCHER_EXIT) (gr_world s)"
    using assms(9) sys_write_ok [OF plan] by (auto simp: delete_request_def split: if_splits)
  have i: "i < length (srv_names sv)" using gr_dataD(3) [OF D assms(3)] assms(4,5) by simp
  from sv_filesD(3) [OF S i] obtain fd q where e: "entry (d_req_fd (srv_disp sv)) i = Some fd"
        "entry (d_sz_arg (srv_disp sv)) i = Some (hf_sz_arg (lib (srv_names sv ! i)))"
      and q: "w_fifos (gr_world s) (pipe_name (srv_names sv ! i) ''_req'') = Some q"
        "Option.bind (file_of (gr_world s) 0 fd) read_end = Some q"
    by (rule entry_okD)
  have pos: "hf_sz_arg (lib (srv_names sv ! i)) \<noteq> 0" using assms(1) by (simp add: lib_ok_def fun_ok_def)
  have "q \<noteq> ctl" "rep \<noteq> ctl" using sv_filesD(7,8) [OF S] q(1) rep by blast+
  moreover have "w_pipes (gr_world s) ! q = []" using q(1) assms(6) by (simp add: bytes_in_def)
  ultimately have P: "w_pipes w' ! q = []" "w_pipes w' ! rep = []" "w_plan w' = []" "file_of w' = file_of (gr_world s)"
    using plan assms(8) by (simp_all add: w' pipe_set_def file_of_def fun_eq_iff)
  then show ?thesis
    using e q(2) pos assms(7) sys_read_ok [OF P(3)] by (simp add: delete_wait_def)
qed

section \<open>Two dispatchers for one request\<close>

text \<open>A daemon that waits learns of a request; it then reads it, if no other does first.\<close>

lemma gr_wakes:
  assumes R: "lib_ok lib" "gr_reach lib g" and k: "k < length (gr_servers g)" "sv = gr_servers g ! k"
    and pc: "dm_pc (srv_daemon sv) = DmWait" and i: "i < length (srv_names sv)"
    and ne: "bytes_in (gr_world g) (pipe_name (srv_names sv ! i) ''_req'') \<noteq> []"
  obtains w' where "quiet (gr_world g) w'"
    "gr_reach lib (g\<lparr>gr_world := w', gr_servers := (gr_servers g)[k := sv\<lparr>srv_daemon := (srv_daemon sv)\<lparr>dm_pc := DmRead i []\<rparr>\<rparr>]\<rparr>)"
proof -
  obtain es where I: "gr_inv lib g es" using gr_reach_inv [OF R] by blast
  then have F: "gr_files lib (gr_world g) (gr_servers g) (gr_callers g) es" by (simp add: gr_inv_def)
  obtain ctl rep where S: "sv_files lib ctl rep (es ! k) (gr_world g) (srv_disp sv) (srv_names sv) (gr_callers g)"
    using gr_filesD(3) [OF F k(1)] k(2) by (auto simp: server_files_def)
  have E: "epoll_reports 0 (srv_disp sv) (gr_world g) [int i]" by (rule request_reported [OF S i ne])
  let ?sv = "sv\<lparr>srv_daemon := (srv_daemon sv)\<lparr>dm_pc := DmBatch [int i]\<rparr>\<rparr>"
  let ?g = "g\<lparr>gr_servers := (gr_servers g)[k := ?sv]\<rparr>" and ?w = "with_plan [] (gr_world g)"
  have "gr_step lib g ?g" using gr_step.wait [OF k E pc, of lib] E pc by (simp add: daemon_wait_def)
  then have R': "gr_reach lib ?g" by (rule gr_reach.step [OF R(2)])
  have D: "daemon_step 0 (srv_disp ?sv) (with_plan [] (gr_world ?g)) (srv_daemon ?sv) (dm_pc (srv_daemon ?sv)) =
      ((srv_daemon sv)\<lparr>dm_pc := DmRead i []\<rparr>, ?w\<lparr>w_heap := w_heap ?w + 1\<rparr>)"
    by (simp add: sys_alloc_ok)
  let ?u = "with_plan [] (?w\<lparr>w_heap := w_heap ?w + 1\<rparr>)"
  have "gr_step lib ?g (g\<lparr>gr_world := ?u, gr_servers := (gr_servers g)[k := sv\<lparr>srv_daemon := (srv_daemon sv)\<lparr>dm_pc := DmRead i []\<rparr>\<rparr>]\<rparr>)"
    using gr_step.daemon [of k ?g ?sv "[]", OF _ _ _ D, of lib] k by (simp add: log_taken_def log_finished_def)
  moreover have "quiet (gr_world g) ?u" by (simp add: quiet_def with_plan_def)
  ultimately show thesis using that gr_reach.step [OF R'] by blast
qed

lemma gr_reads:
  assumes R: "lib_ok lib" "gr_reach lib g" and k: "k < length (gr_servers g)" "sv = gr_servers g ! k"
    and pc: "dm_pc (srv_daemon sv) = DmRead i evs" "x = srv_names sv ! i"
    and ne: "bytes_in (gr_world g) (pipe_name x ''_req'') \<noteq> []"
  obtains g' q bs where "gr_reach lib g'" "w_fifos (gr_world g) (pipe_name x ''_req'') = Some q"
    "quiet (pipe_set q bs (gr_world g)) (gr_world g')" "length (gr_servers g') = length (gr_servers g)"
    "\<And>j. j \<noteq> k \<Longrightarrow> gr_servers g' ! j = gr_servers g ! j" "gr_sent g' = gr_sent g" "gr_finished g' = gr_finished g"
    "length (gr_taken g' x) = Suc (length (gr_taken g x))"
proof -
  obtain es where I: "gr_inv lib g es" using gr_reach_inv [OF R] by blast
  then have F: "gr_files lib (gr_world g) (gr_servers g) (gr_callers g) es"
    and D: "gr_data lib (bytes_in (gr_world g)) (gr_servers g) (gr_sent g) (gr_taken g) (gr_finished g) (gr_got g)"
    by (simp_all add: gr_inv_def)
  obtain ctl rep where S: "sv_files lib ctl rep (es ! k) (gr_world g) (srv_disp sv) (srv_names sv) (gr_callers g)"
    using gr_filesD(3) [OF F k(1)] k(2) by (auto simp: server_files_def)
  let ?n = "hf_sz_arg (lib x)"
  have i: "i < length (srv_names sv)" using gr_dataD(3) [OF D k(1)] k(2) pc by simp
  from sv_filesD(3) [OF S i] obtain fd q where e: "entry (d_req_fd (srv_disp sv)) i = Some fd" "entry (d_sz_arg (srv_disp sv)) i = Some ?n"
      and q: "w_fifos (gr_world g) (pipe_name x ''_req'') = Some q" "Option.bind (file_of (gr_world g) 0 fd) read_end = Some q"
    unfolding pc(2) by (rule entry_okD)
  have b: "w_pipes (gr_world g) ! q = bytes_in (gr_world g) (pipe_name x ''_req'')" using q(1) by (simp add: bytes_in_def)
  have "?n \<le> length (w_pipes (gr_world g) ! q)" "0 < ?n"
    using gr_dataD(1) [OF D, of x] ne R(1) by (auto simp: b requests_ok_def lib_ok_def fun_ok_def dest: dvd_imp_le)
  then have st: "daemon_step 0 (srv_disp sv) (with_plan [] (gr_world g)) (srv_daemon sv) (dm_pc (srv_daemon sv)) =
      ((srv_daemon sv)\<lparr>dm_pc := DmCall i (take ?n (w_pipes (gr_world g) ! q)) evs\<rparr>,
       pipe_set q (drop ?n (w_pipes (gr_world g) ! q)) (with_plan [] (gr_world g)))"
    using sys_read_ok [of "with_plan [] (gr_world g)" 0 fd q ?n] e q(2) ne by (simp add: pc b)
  note step = gr_reach.step [OF R(2) gr_step.daemon [OF k _ st]]
  show thesis
    by (rule that [OF step q(1), of "drop ?n (w_pipes (gr_world g) ! q)"])
      (simp_all add: pc log_taken_def log_finished_def quiet_def pipe_set_def)
qed

text \<open>A dispatcher whose control pipes are empty.\<close>

definition idle :: "world \<Rightarrow> dispatcher \<Rightarrow> nat \<Rightarrow> nat \<Rightarrow> bool" where
  "idle w d ctl rep \<longleftrightarrow>
     file_of w 0 (snd (d_to_daemon d)) = Some (PipeWrite ctl) \<and> file_of w 0 (fst (d_from_daemon d)) = Some (PipeRead rep) \<and>
     w_pipes w ! ctl = [] \<and> w_pipes w ! rep = [] \<and> ctl < length (w_pipes w) \<and> rep < length (w_pipes w) \<and> w_cap w = 65536"

lemma idle_extends:
  assumes "idle w d ctl rep" "extends w w'" "w_cap w' = w_cap w" "d_to_daemon d' = d_to_daemon d" "d_from_daemon d' = d_from_daemon d"
  shows "idle w' d' ctl rep"
  using assms extends_file [OF assms(2)] unfolding idle_def by (auto simp: extends_def)

lemma idle_pipe:
  assumes "idle w d ctl rep" "quiet (pipe_set q bs w) w'" "q \<notin> {ctl, rep}"
  shows "idle w' d ctl rep"
  using assms pipe_set_files [OF assms(2)] by (auto simp: idle_def quiet_def pipe_set_def)

lemma idle_quiet: "idle w d ctl rep \<Longrightarrow> quiet w w' \<Longrightarrow> idle w' d ctl rep"
  by (auto simp: idle_def quiet_def file_of_def)

lemma idle_fifo:
  assumes "lib_ok lib" "gr_reach lib s" "k < length (gr_servers s)" "idle (gr_world s) (srv_disp (gr_servers s ! k)) ctl rep"
    and "w_fifos (gr_world s) path = Some q"
  shows "q \<notin> {ctl, rep}"
proof -
  obtain es where "gr_inv lib s es" using gr_reach_inv [OF assms(1,2)] by blast
  then have F: "gr_files lib (gr_world s) (gr_servers s) (gr_callers s) es" by (simp add: gr_inv_def)
  obtain ctl' rep' where S: "sv_files lib ctl' rep' (es ! k) (gr_world s) (srv_disp (gr_servers s ! k))
      (srv_names (gr_servers s ! k)) (gr_callers s)"
    using gr_filesD(3) [OF F assms(3)] by (auto simp: server_files_def)
  then have "ctl' = ctl" "rep' = rep" using sv_filesD(2) [OF S] assms(4) by (simp_all add: idle_def disp_ok_def)
  then show ?thesis using sv_filesD(8,9) [OF S, of path] assms(5) by auto
qed

text \<open>A second dispatcher joins the service while a call waits.\<close>

lemma demo_second:
  obtains g sv d ctl rep where "gr_reach demo_lib g" "gr_servers g = [sv, \<lparr>srv_disp = d, srv_daemon = \<lparr>dm_pc = DmWait, dm_exit = False\<rparr>, srv_names = [hf]\<rparr>]"
    "srv_names sv = [hf]" "dm_pc (srv_daemon sv) = DmWait" "gr_sent g hf = [[5, 0, 0, 0]]" "gr_finished g hf = []"
    "idle (gr_world g) d ctl rep"
proof -
  obtain s where s: "sv_reach demo_lib s" "sv_names s = [hf]" "sv_sent s hf = [[5, 0, 0, 0]]" "sv_served s = (\<lambda>_. [])"
      "dm_pc (sv_daemon s) = DmWait" "w_cap (sv_world s) = 65536"
    using demo_request by blast
  then obtain taken fin where R: "gr_reach demo_lib (group_of s taken fin)" "\<forall>x. map snd (fin x) = sv_served s x"
    using service_in_group by blast
  let ?g = "group_of s taken fin"
  obtain es where I: "gr_inv demo_lib ?g es" using gr_reach_inv [OF demo_lib_simps(1) R(1)] by blast
  then have F: "gr_files demo_lib (gr_world ?g) (gr_servers ?g) (gr_callers ?g) es" and plan: "w_plan (gr_world ?g) = []"
    by (simp_all add: gr_inv_def)
  obtain d w' where C: "create_host_function_dispatcher 0 1 (gr_world ?g) = Some (Some d, True, w')" "has_room d 0" "d_cnt_func d = 0"
      "w_cap w' = w_cap (gr_world ?g)" "w_pipes w' = w_pipes (gr_world ?g) @ [[], []]"
      "file_of w' 0 (d_epoll_fd d) = Some (Epoll (length (w_epolls (gr_world ?g))))"
      "file_of w' 0 (snd (d_to_daemon d)) = Some (PipeWrite (length (w_pipes (gr_world ?g))))"
      "file_of w' 0 (fst (d_from_daemon d)) = Some (PipeRead (Suc (length (w_pipes (gr_world ?g)))))"
    using create_ok [OF plan, of 0 1] by (auto simp: array_length_def)
  have idle: "idle w' d (length (w_pipes (gr_world ?g))) (Suc (length (w_pipes (gr_world ?g))))"
    using C(4-8) s(6) by (simp add: idle_def group_of_def nth_append)
  let ?h = "?g\<lparr>gr_world := w', gr_servers := gr_servers ?g @ [new_server d]\<rparr>"
  have Rh: "gr_reach demo_lib ?h" by (rule gr_reach.step [OF R(1) gr_step.create [OF C(1)]])
  have plan': "w_plan w' = []" "fifos_ok w'"
    using gr_files_create [OF F plan C(1)] gr_filesD(1) by blast+
  let ?f = "demo_lib hf"
  obtain d' v where A: "attach_host_function_ex 0 d hf (hf_foo ?f) (hf_data ?f) (hf_sz_arg ?f) (hf_sz_ret ?f) (with_plan [] w') = Some (0, d', v)"
    using attach_host_function_ex_ok [of "with_plan [] w'" hf 4 4 d 0 _ "hf_foo ?f" "hf_data ?f"] C(2,3,6) by (auto simp: PIPE_BUF_def)
  have T: "attach_done 0 hf (hf_foo ?f) (hf_data ?f) False 4 4 d (with_plan [] w') d' v"
    using attach_host_function_ex_spec [OF A] by simp
  have "extends (with_plan [] w') v" using attach_done_extends [OF T] plan'(2) C(6) by simp
  moreover have "w_cap v = w_cap w'" "same_upto 0 d d'" using T C(3) by (auto simp: attach_done_def grows_def)
  ultimately have "idle v d' (length (w_pipes (gr_world ?g))) (Suc (length (w_pipes (gr_world ?g))))"
    using idle_extends [OF idle_quiet [OF idle, of "with_plan [] w'"], of v d'] by (simp add: same_upto_def)
  then have idle': "idle (with_plan [] v) d' (length (w_pipes (gr_world ?g))) (Suc (length (w_pipes (gr_world ?g))))"
    by (rule idle_quiet) simp
  have A': "attach_host_function_ex 0 (srv_disp (new_server d)) hf (hf_foo ?f) (hf_data ?f) (hf_sz_arg ?f) (hf_sz_ret ?f)
      (with_plan [] (gr_world ?h)) = Some (0, d', v)"
    using A by (simp add: new_server_def)
  have "gr_step demo_lib ?h (?h\<lparr>gr_world := with_plan [] v, gr_servers := (gr_servers ?h)[1 := attached (new_server d) 0 d' hf]\<rparr>)"
    by (rule gr_step.attach [where lib = demo_lib, OF _ _ _ A']) (simp_all add: group_of_def new_server_def)
  note Rk = gr_reach.step [OF Rh this]
  show thesis
    by (rule that [OF Rk, of "\<lparr>srv_disp = sv_disp s, srv_daemon = sv_daemon s, srv_names = [hf]\<rparr>" d' "length (w_pipes (gr_world ?g))" "Suc (length (w_pipes (gr_world ?g)))"])
      (use s idle' R(2) in \<open>simp_all add: group_of_def attached_def new_server_def\<close>)
qed

text \<open>Both daemons learn of the call; the first one takes it.\<close>

lemma demo_stolen:
  obtains g sv' d ctl rep where "gr_reach demo_lib g" "gr_servers g = [sv', \<lparr>srv_disp = d, srv_daemon = \<lparr>dm_pc = DmRead 0 [], dm_exit = False\<rparr>, srv_names = [hf]\<rparr>]"
    "gr_sent g hf = [[5, 0, 0, 0]]" "gr_finished g hf = []" "bytes_in (gr_world g) (pipe_name hf ''_req'') = []" "idle (gr_world g) d ctl rep"
proof -
  obtain g sv d ctl rep where R: "gr_reach demo_lib g"
      and g: "gr_servers g = [sv, \<lparr>srv_disp = d, srv_daemon = \<lparr>dm_pc = DmWait, dm_exit = False\<rparr>, srv_names = [hf]\<rparr>]"
        "srv_names sv = [hf]" "dm_pc (srv_daemon sv) = DmWait" "gr_sent g hf = [[5, 0, 0, 0]]" "gr_finished g hf = []"
      and idle: "idle (gr_world g) d ctl rep"
    by (rule demo_second)
  note T = taken_or_waiting [OF demo_lib_simps(1) R, where x = hf]
  have none: "gr_taken g hf = []"
    using T(4) g by (simp add: working_def lessThan_Suc)
  then have ne: "bytes_in (gr_world g) (pipe_name hf ''_req'') \<noteq> []"
    using T(1) g(4) by auto
  obtain u where u: "quiet (gr_world g) u" "gr_reach demo_lib (g\<lparr>gr_world := u, gr_servers := (gr_servers g)[0 := sv\<lparr>srv_daemon := (srv_daemon sv)\<lparr>dm_pc := DmRead 0 []\<rparr>\<rparr>]\<rparr>)"
    by (rule gr_wakes [OF demo_lib_simps(1) R, of 0 sv 0]) (use g ne in simp_all)
  let ?h = "g\<lparr>gr_world := u, gr_servers := (gr_servers g)[0 := sv\<lparr>srv_daemon := (srv_daemon sv)\<lparr>dm_pc := DmRead 0 []\<rparr>\<rparr>]\<rparr>"
  obtain v where v: "quiet (gr_world ?h) v" "gr_reach demo_lib (?h\<lparr>gr_world := v, gr_servers := (gr_servers ?h)[1 := (gr_servers g ! 1)\<lparr>srv_daemon := \<lparr>dm_pc = DmRead 0 [], dm_exit = False\<rparr>\<rparr>]\<rparr>)"
    by (rule gr_wakes [OF demo_lib_simps(1) u(2), of 1 "gr_servers g ! 1" 0]) (use g ne u(1) quiet_files(2) in simp_all)
  let ?k = "?h\<lparr>gr_world := v, gr_servers := (gr_servers ?h)[1 := (gr_servers g ! 1)\<lparr>srv_daemon := \<lparr>dm_pc = DmRead 0 [], dm_exit = False\<rparr>\<rparr>]\<rparr>"
  have Q: "quiet (gr_world g) v" using quiet_trans [OF u(1)] v(1) by simp
  obtain z q bs where z: "gr_reach demo_lib z" "w_fifos (gr_world ?k) (pipe_name hf ''_req'') = Some q"
      "quiet (pipe_set q bs (gr_world ?k)) (gr_world z)" "length (gr_servers z) = length (gr_servers ?k)"
      "\<And>j. j \<noteq> 0 \<Longrightarrow> gr_servers z ! j = gr_servers ?k ! j" "gr_sent z = gr_sent ?k" "gr_finished z = gr_finished ?k"
      "length (gr_taken z hf) = Suc (length (gr_taken ?k hf))"
    by (rule gr_reads [OF demo_lib_simps(1) v(2), of 0 "sv\<lparr>srv_daemon := (srv_daemon sv)\<lparr>dm_pc := DmRead 0 []\<rparr>\<rparr>" 0 "[]" hf])
      (use g ne quiet_files(2) [OF Q] in simp_all)
  note T = taken_or_waiting [OF demo_lib_simps(1) z(1), where x = hf]
  have "length (gr_sent z hf) = 1" "length (gr_taken z hf) = 1" using z(6,8) g(4) none by simp_all
  then have "chunks 4 (bytes_in (gr_world z) (pipe_name hf ''_req'')) = []" using T(1) by simp
  then have "bytes_in (gr_world z) (pipe_name hf ''_req'') = []" using T(2) chunks_Nil_iff [of 4] by auto
  moreover have idle': "idle (gr_world ?k) d ctl rep" using idle_quiet [OF idle Q] by simp
  then have "q \<notin> {ctl, rep}"
    by (intro idle_fifo [OF demo_lib_simps(1) v(2), of 1, OF _ _ z(2)]) (use g(1) in simp_all)
  with idle' have "idle (gr_world z) d ctl rep" by (rule idle_pipe [OF _ z(3)])
  moreover have "gr_servers z = [gr_servers z ! 0, gr_servers z ! 1]" "gr_servers z ! 1 = gr_servers ?k ! 1"
    using z(4,5) g(1) by (auto intro!: nth_equalityI simp: less_Suc_eq)
  then have "gr_servers z = [gr_servers z ! 0, \<lparr>srv_disp = d, srv_daemon = \<lparr>dm_pc = DmRead 0 [], dm_exit = False\<rparr>, srv_names = [hf]\<rparr>]"
    using g(1) by simp
  ultimately show thesis using that [OF z(1)] z(6,7) g(4,5) by simp
qed

theorem dispatchers_share_requests_witness:
  "\<exists>s. gr_reach demo_lib s \<and> length (gr_servers s) = 2 \<and> gr_sent s hf = [[5, 0, 0, 0]] \<and> gr_finished s hf = [] \<and>
     working s hf 0 = [[5, 0, 0, 0]] \<and> working s hf 1 = []"
proof -
  obtain g sv' d ctl rep where R: "gr_reach demo_lib g"
      and g: "gr_servers g = [sv', \<lparr>srv_disp = d, srv_daemon = \<lparr>dm_pc = DmRead 0 [], dm_exit = False\<rparr>, srv_names = [hf]\<rparr>]"
        "gr_sent g hf = [[5, 0, 0, 0]]" "gr_finished g hf = []" "bytes_in (gr_world g) (pipe_name hf ''_req'') = []"
    by (rule demo_stolen)
  have "working g hf 1 = []" by (simp add: working_def g(1))
  moreover from this have "working g hf 0 = [[5, 0, 0, 0]]"
    using dispatchers_share_requests [OF demo_lib_simps(1) R, of hf] g by (simp add: lessThan_Suc)
  ultimately show ?thesis using R g by (intro exI [of _ g]) simp
qed

theorem stolen_request_blocks_delete_witness:
  "\<exists>s n w'. gr_reach demo_lib s \<and> length (gr_servers s) = 2 \<and>
     delete_request 0 (srv_disp (gr_servers s ! 1)) (gr_world s) = Done (n, w') \<and>
     delete_wait 0 (srv_disp (gr_servers s ! 1)) w' = Blocked"
proof -
  obtain g sv' d ctl rep where R: "gr_reach demo_lib g"
      and g: "gr_servers g = [sv', \<lparr>srv_disp = d, srv_daemon = \<lparr>dm_pc = DmRead 0 [], dm_exit = False\<rparr>, srv_names = [hf]\<rparr>]"
        "bytes_in (gr_world g) (pipe_name hf ''_req'') = []"
      and idle: "idle (gr_world g) d ctl rep"
    by (rule demo_stolen)
  obtain es where "gr_inv demo_lib g es" using gr_reach_inv [OF demo_lib_simps(1) R] by blast
  then have "w_plan (gr_world g) = []" by (simp add: gr_inv_def)
  then have D: "delete_request 0 d (gr_world g) = Done (4, pipe_set ctl (int_bytes DISPATCHER_EXIT) (gr_world g))"
    using sys_write_ok [of "gr_world g" 0 "snd (d_to_daemon d)" ctl "int_bytes DISPATCHER_EXIT"] idle
    by (simp add: delete_request_def idle_def int_bytes_def)
  have "delete_wait 0 d (pipe_set ctl (int_bytes DISPATCHER_EXIT) (gr_world g)) = Blocked"
    using stolen_request_blocks_delete [OF demo_lib_simps(1) R, of 1 _ 0 "[]" rep] g idle D by (simp add: idle_def)
  then show ?thesis using R g D by (intro exI [of _ g]) auto
qed

end
