(* ===== verification/Language_Wrappers.thy ===== *)
theory Language_Wrappers
  imports Function_Service_Demo Host_Variable_Time
begin

text \<open>
  The wrappers of the C functions for Python (src/python_bindings.cpp) and for C++
  (include/robot_ipc.hpp): what they check, what they pass on, and what they make of the
  result. A call of the C library that is a machine of its own (linking, reading and
  writing a host variable) is split in what the wrapper passes and what it does with the
  value that comes back. A Python exception is its message.
\<close>

section \<open>Python: host variables\<close>

type_synonym 'a py = "string + 'a"

text \<open>The handle of a linked variable is not looked at; \<open>pv_linked\<close> says that it is not null.\<close>

record py_host_variable =
  pv_name :: string
  pv_size :: nat
  pv_linked :: bool
  pv_buffer :: "u8 list"

definition py_host_variable_new :: "string \<Rightarrow> nat \<Rightarrow> bool \<Rightarrow> py_host_variable py" where
  "py_host_variable_new name sz linked =
     (if \<not> linked then Inl (''failed to link host variable: '' @ name)
      else Inr \<lparr>pv_name = name, pv_size = sz, pv_linked = True, pv_buffer = replicate sz 0\<rparr>)"

text \<open>The destructor: the arguments of its call of \<open>unlink_host_variable\<close>, if it makes one.\<close>

definition py_host_variable_del :: "py_host_variable \<Rightarrow> (string \<times> nat) option \<times> py_host_variable" where
  "py_host_variable_del v =
     (if pv_linked v then (Some (pv_name v, pv_size v), v\<lparr>pv_linked := False\<rparr>) else (None, v))"

text \<open>\<open>write\<close>: the data, the size and the \<open>op_size\<close> that \<open>write_host_variable\<close> gets.\<close>

definition py_write :: "py_host_variable \<Rightarrow> u8 list \<Rightarrow> nat \<Rightarrow> (u8 list \<times> nat \<times> nat) py" where
  "py_write v payload op_size =
     (let effective_size = if op_size = 0 then length payload else op_size in
      if effective_size > pv_size v then Inl ''payload exceeds host variable size''
      else if length payload < effective_size then Inl ''payload shorter than op_size''
      else Inr (payload, pv_size v, effective_size))"

definition py_write_done :: "int \<Rightarrow> unit py" where
  "py_write_done ret = (if ret \<noteq> 0 then Inl ''failed to write host variable'' else Inr ())"

text \<open>\<open>read\<close>: the buffer, the size and the \<open>op_size\<close>; then the bytes of the buffer.\<close>

definition py_read :: "py_host_variable \<Rightarrow> nat \<Rightarrow> (u8 list \<times> nat \<times> nat) py" where
  "py_read v op_size =
     (let effective_size = if op_size = 0 then pv_size v else op_size in
      if effective_size > pv_size v then Inl ''op_size exceeds host variable size''
      else Inr (pv_buffer v, pv_size v, effective_size))"

definition py_read_done :: "int \<Rightarrow> u8 list \<Rightarrow> nat \<Rightarrow> py_host_variable \<Rightarrow> u8 list py \<times> py_host_variable" where
  "py_read_done ret buf effective_size v =
     (let v = v\<lparr>pv_buffer := buf\<rparr> in
      if ret \<noteq> 0 then (Inl ''failed to read host variable'', v) else (Inr (take effective_size buf), v))"

section \<open>Python: calling host functions\<close>

record py_function_caller =
  pc_handle :: "caller option"
  pc_arg_size :: nat
  pc_ret_size :: nat
  pc_buffer :: "u8 list"

definition py_function_caller_new ::
    "nat \<Rightarrow> string \<Rightarrow> nat \<Rightarrow> nat \<Rightarrow> world \<Rightarrow> (py_function_caller py \<times> world) option" where
  "py_function_caller_new pid name arg_size ret_size w =
     (case link_host_function pid name arg_size ret_size w of
        None \<Rightarrow> None
      | Some (None, w) \<Rightarrow> Some (Inl (''failed to link host function: '' @ name), w)
      | Some (Some p, w) \<Rightarrow> Some (Inr \<lparr>pc_handle = Some p, pc_arg_size = arg_size, pc_ret_size = ret_size,
            pc_buffer = replicate (max arg_size ret_size) 0\<rparr>, w))"

definition py_function_caller_del :: "nat \<Rightarrow> py_function_caller \<Rightarrow> world \<Rightarrow> py_function_caller \<times> world" where
  "py_function_caller_del pid c w =
     (case pc_handle c of
        None \<Rightarrow> (c, w)
      | Some p \<Rightarrow> (c\<lparr>pc_handle := None\<rparr>, snd (unlink_host_function pid p w)))"

text \<open>\<open>std::fill\<close> and \<open>std::memcpy\<close>: the payload, zeros up to \<open>arg_size\<close>, and what the buffer had.\<close>

definition py_call ::
    "nat \<Rightarrow> py_function_caller \<Rightarrow> u8 list \<Rightarrow> world \<Rightarrow> (unit py \<times> py_function_caller \<times> world) io" where
  "py_call pid c payload w =
     (if length payload > pc_arg_size c then Done (Inl ''argument payload exceeds arg_size'', c, w)
      else
        let c = c\<lparr>pc_buffer := payload @ replicate (pc_arg_size c - length payload) 0 @
                    drop (pc_arg_size c) (pc_buffer c)\<rparr> in
        case call_host_function pid (the (pc_handle c)) (pc_buffer c) w of
          Blocked \<Rightarrow> Blocked
        | Done (ret, w) \<Rightarrow>
            Done (if ret \<noteq> 0 then Inl ''failed to call host function'' else Inr (), c, w))"

definition py_get_response ::
    "nat \<Rightarrow> py_function_caller \<Rightarrow> world \<Rightarrow> (u8 list py \<times> py_function_caller \<times> world) io" where
  "py_get_response pid c w =
     (case get_response_host_function pid (the (pc_handle c)) w of
        Blocked \<Rightarrow> Blocked
      | Done (ret, bytes, w) \<Rightarrow>
          let c = c\<lparr>pc_buffer := bytes @ drop (length bytes) (pc_buffer c)\<rparr> in
          Done (if ret \<noteq> 0 then Inl ''failed to get host function response''
                else Inr (take (pc_ret_size c) (pc_buffer c)), c, w))"

section \<open>Python: serving host functions\<close>

text \<open>What a Python callback does: it returns \<open>None\<close>, bytes, something else, or raises.\<close>

datatype py_object = PyNone | PyBytes "u8 list" | PyOther | PyRaise

record callback_binding =
  cb_callback :: "u8 list \<Rightarrow> py_object"
  cb_arg_size :: nat
  cb_ret_size :: nat

text \<open>
  \<open>dispatcher_callback\<close>, with the bindings by their address. The bytes that the returned
  pointer leads to are those of \<open>binding->response\<close>, which nothing changes before the
  daemon has written them.
\<close>

definition dispatcher_callback :: "(nat \<Rightarrow> callback_binding option) \<Rightarrow> host_function_ex" where
  "dispatcher_callback heap args user_data =
     (case user_data of
        UserData addr \<Rightarrow>
          (case heap addr of
             None \<Rightarrow> None
           | Some binding \<Rightarrow>
               let ret = cb_callback binding (take (cb_arg_size binding) args) in
               if ret = PyNone \<or> cb_ret_size binding = 0 then None
               else case ret of
                 PyBytes payload \<Rightarrow>
                   if length payload > cb_ret_size binding then None
                   else Some (payload @ replicate (cb_ret_size binding - length payload) 0)
               | _ \<Rightarrow> None)
      | _ \<Rightarrow> None)"

record py_dispatcher =
  pd_handle :: "dispatcher option"
  pd_bindings :: "nat list"

definition py_dispatcher_new :: "nat \<Rightarrow> u64 \<Rightarrow> world \<Rightarrow> (py_dispatcher py \<times> world) option" where
  "py_dispatcher_new pid max_func_count w =
     (case create_host_function_dispatcher pid max_func_count w of
        None \<Rightarrow> None
      | Some (None, _, w) \<Rightarrow> Some (Inl ''failed to create host function dispatcher'', w)
      | Some (Some d, _, w) \<Rightarrow> Some (Inr \<lparr>pd_handle = Some d, pd_bindings = []\<rparr>, w))"

text \<open>\<open>attach\<close>, given the address of the new binding.\<close>

definition py_attach ::
    "nat \<Rightarrow> (nat \<Rightarrow> callback_binding option) \<Rightarrow> nat \<Rightarrow> py_dispatcher \<Rightarrow> string \<Rightarrow> (u8 list \<Rightarrow> py_object) \<Rightarrow>
     nat \<Rightarrow> nat \<Rightarrow> world \<Rightarrow> (unit py \<times> py_dispatcher \<times> (nat \<Rightarrow> callback_binding option) \<times> world) option" where
  "py_attach pid heap addr pd name callback arg_size ret_size w =
     (let heap' = heap(addr \<mapsto> \<lparr>cb_callback = callback, cb_arg_size = arg_size, cb_ret_size = ret_size\<rparr>) in
      case attach_host_function_ex pid (the (pd_handle pd)) name (dispatcher_callback heap') (UserData addr)
             arg_size ret_size w of
        None \<Rightarrow> None
      | Some (ret, d, w) \<Rightarrow>
          if ret \<noteq> 0
          then Some (Inl (''failed to attach host function: '' @ name), pd\<lparr>pd_handle := Some d\<rparr>,
                     heap'(addr := None), w)
          else Some (Inr (), \<lparr>pd_handle = Some d, pd_bindings = pd_bindings pd @ [addr]\<rparr>, heap', w))"

definition py_start :: "py_dispatcher \<Rightarrow> unit py \<times> py_dispatcher" where
  "py_start pd =
     (let (ret, d) = start_host_function_dispatcher (the (pd_handle pd)); pd = pd\<lparr>pd_handle := Some d\<rparr> in
      if ret \<noteq> 0 then (Inl ''failed to start host function dispatcher'', pd) else (Inr (), pd))"

text \<open>The destructor, after it has asked the daemon to exit and read its \<open>reply\<close>.\<close>

definition py_dispatcher_del :: "nat \<Rightarrow> py_dispatcher \<Rightarrow> u8 list \<Rightarrow> world \<Rightarrow> py_dispatcher \<times> world" where
  "py_dispatcher_del pid pd reply w =
     (case pd_handle pd of
        None \<Rightarrow> (pd, w)
      | Some d \<Rightarrow> (pd\<lparr>pd_handle := None\<rparr>, snd (delete_finish pid d reply w)))"

section \<open>C++\<close>

text \<open>
  An object of a type that \<open>check_ipc_safety\<close> accepts is the bytes it is made of, so that
  \<open>sizeof(T)\<close> is their number and \<open>memcpy\<close> the identity. Each wrapper calls the C function
  with the sizes of its type parameters.
\<close>

definition cpp_host_variable_new :: "string \<Rightarrow> bool \<Rightarrow> string py" where
  "cpp_host_variable_new name linked =
     (if \<not> linked then Inl ''Can not link host variable.'' else Inr name)"

text \<open>The destructor: its call with the size of the type, given what the call returns, and what it prints.\<close>

definition cpp_host_variable_del :: "string \<Rightarrow> nat \<Rightarrow> int \<Rightarrow> (string \<times> nat) \<times> string" where
  "cpp_host_variable_del name sizeof_T ret =
     ((name, sizeof_T), if ret \<noteq> 0 then ''Can not unlink host variable'' @ [CHR 0x0A] else [])"

definition cpp_write :: "nat \<Rightarrow> u8 list \<Rightarrow> u8 list \<times> nat \<times> nat" where
  "cpp_write sizeof_T obj = (obj, sizeof_T, sizeof_T)"

definition cpp_read :: "nat \<Rightarrow> u8 list \<Rightarrow> u8 list \<times> nat \<times> nat" where
  "cpp_read sizeof_T obj = (obj, sizeof_T, sizeof_T)"

definition cpp_function_caller_new ::
    "nat \<Rightarrow> string \<Rightarrow> nat \<Rightarrow> nat \<Rightarrow> world \<Rightarrow> (caller py \<times> world) option" where
  "cpp_function_caller_new pid name sizeof_T sizeof_R w =
     (case link_host_function pid name sizeof_T sizeof_R w of
        None \<Rightarrow> None
      | Some (None, w) \<Rightarrow> Some (Inl ''Can not link host function.'', w)
      | Some (Some p, w) \<Rightarrow> Some (Inr p, w))"

text \<open>The destructor: what it prints.\<close>

definition cpp_function_caller_del :: "nat \<Rightarrow> caller \<Rightarrow> world \<Rightarrow> string \<times> world" where
  "cpp_function_caller_del pid p w =
     (let (ret, w) = unlink_host_function pid p w
      in (if ret \<noteq> 0 then ''Can not unlink host function'' @ [CHR 0x0A] else [], w))"

definition cpp_call :: "nat \<Rightarrow> caller \<Rightarrow> u8 list \<Rightarrow> world \<Rightarrow> (int \<times> world) io" where
  "cpp_call pid p arg w = call_host_function pid p arg w"

definition cpp_get_response :: "nat \<Rightarrow> caller \<Rightarrow> world \<Rightarrow> (int \<times> u8 list \<times> world) io" where
  "cpp_get_response pid p w = get_response_host_function pid p w"

definition cpp_dispatcher_new :: "nat \<Rightarrow> u64 \<Rightarrow> world \<Rightarrow> (dispatcher py \<times> world) option" where
  "cpp_dispatcher_new pid num_func w =
     (case create_host_function_dispatcher pid num_func w of
        None \<Rightarrow> None
      | Some (None, _, w) \<Rightarrow> Some (Inl ''Can not create host function dispatcher.'', w)
      | Some (Some d, _, w) \<Rightarrow> Some (Inr d, w))"

definition cpp_attach ::
    "nat \<Rightarrow> dispatcher \<Rightarrow> string \<Rightarrow> host_function \<Rightarrow> nat \<Rightarrow> nat \<Rightarrow> world \<Rightarrow> (int \<times> dispatcher \<times> world) option" where
  "cpp_attach pid d name f sizeof_T sizeof_R w = attach_host_function pid d name f sizeof_T sizeof_R w"


text \<open>The destructor of the dispatcher sends the exit signal and waits like \<open>delete_request\<close> and \<open>delete_wait\<close>; then:\<close>

definition cpp_dispatcher_del :: "nat \<Rightarrow> dispatcher \<Rightarrow> u8 list \<Rightarrow> world \<Rightarrow> string \<times> world" where
  "cpp_dispatcher_del pid d reply w =
     (let (ret, w) = delete_finish pid d reply w
      in (if ret \<noteq> 0 then ''Can not delete host function dispatcher'' @ [CHR 0x0A] else [], w))"

definition cpp_start :: "dispatcher \<Rightarrow> int \<times> dispatcher" where
  "cpp_start d = start_host_function_dispatcher d"

end
