(* ===== verification/Language_Props.thy ===== *)
theory Language_Props
  imports Language_Wrappers
begin

text \<open>
  The properties of the wrappers: what a Python program sends and serves is what a C
  program would, with payloads padded by zeros; and a Python process that waits inside the
  library keeps the interpreter lock, which its own callbacks need.
\<close>

section \<open>Host variables\<close>

text \<open>
  Every access the binding passes on keeps the contract of the C functions (\<open>may_begin\<close>),
  and a C++ program that uses a type of the variable's size makes the same calls.
\<close>

lemma py_write_contract: "py_write v payload op_size = Inr (d, sz, n) \<Longrightarrow> n \<le> sz \<and> n \<le> length d \<and> sz = pv_size v"
  by (auto simp: py_write_def Let_def split: if_splits)

lemma py_read_contract:
  "py_read v op_size = Inr (buf, sz, n) \<Longrightarrow> length (pv_buffer v) = pv_size v \<Longrightarrow> n \<le> sz \<and> n \<le> length buf"
  by (auto simp: py_read_def Let_def split: if_splits)

lemma py_write_cpp: "pv_size v = length obj \<Longrightarrow> py_write v obj 0 = Inr (cpp_write (length obj) obj)"
  by (simp add: py_write_def cpp_write_def Let_def)

lemma py_read_cpp: "py_read v 0 = Inr (cpp_read (pv_size v) (pv_buffer v))"
  by (simp add: py_read_def cpp_read_def Let_def)

section \<open>Host functions\<close>

definition padded :: "nat \<Rightarrow> u8 list \<Rightarrow> u8 list" where
  "padded n bs = bs @ replicate (n - length bs) 0"

definition py_host_fun :: "(nat \<Rightarrow> callback_binding option) \<Rightarrow> nat \<Rightarrow> callback_binding \<Rightarrow> host_fun" where
  "py_host_fun heap addr b = \<lparr>hf_foo = dispatcher_callback heap, hf_data = UserData addr,
     hf_sz_arg = cb_arg_size b, hf_sz_ret = cb_ret_size b\<rparr>"

lemma length_padded: "length bs \<le> n \<Longrightarrow> length (padded n bs) = n"
  by (simp add: padded_def)

lemma py_call_is_call:
  assumes "pc_handle c = Some p" "length payload \<le> pc_arg_size c" "c_sz_arg p = pc_arg_size c"
  shows "py_call pid c payload w =
    (case call_host_function pid p (padded (pc_arg_size c) payload) w of
       Blocked \<Rightarrow> Blocked
     | Done (ret, w') \<Rightarrow> Done (if ret \<noteq> 0 then Inl ''failed to call host function'' else Inr (),
         c\<lparr>pc_buffer := padded (pc_arg_size c) payload @ drop (pc_arg_size c) (pc_buffer c)\<rparr>, w'))"
proof -
  have "take (c_sz_arg p) (padded (pc_arg_size c) payload @ xs) = padded (pc_arg_size c) payload" for xs
    using assms(2,3) length_padded [OF assms(2)] by simp
  moreover from this [of "[]"] have "take (c_sz_arg p) (padded (pc_arg_size c) payload) = padded (pc_arg_size c) payload"
    by simp
  ultimately show ?thesis
    using assms by (simp add: py_call_def call_host_function_def Let_def padded_def split: io.splits)
qed

lemma py_fun_ok: "heap addr = Some b \<Longrightarrow> 0 < cb_arg_size b \<Longrightarrow> fun_ok (py_host_fun heap addr b)"
  by (auto simp: fun_ok_def py_host_fun_def dispatcher_callback_def Let_def split: if_splits py_object.splits)



section \<open>The interpreter lock\<close>

text \<open>
  A Python process with a dispatcher (process 0 of the service). None of the bindings
  releases the interpreter lock, so that the main thread has it while it waits in
  \<open>get_response\<close> or in the destructor of the dispatcher; \<open>dispatcher_callback\<close> acquires it
  before it calls the Python function. A main thread that runs Python code gives it up now
  and then.
\<close>

datatype py_main = PyRunning | PyInResponse caller | PyInDelete

record py_process =
  pp_service :: service
  pp_main :: py_main

datatype py_action = PyMain | PyDaemon

fun needs_gil :: "daemon_pc \<Rightarrow> bool" where
  "needs_gil (DmCall i args evs) = True"
| "needs_gil _ = False"

definition py_main_step :: "py_process \<Rightarrow> py_process" where
  "py_main_step p =
     (let s = pp_service p in
      case pp_main p of
        PyRunning \<Rightarrow> p
      | PyInResponse c \<Rightarrow>
          (case get_response_host_function 0 c (sv_world s) of
             Blocked \<Rightarrow> p
           | Done (_, _, w) \<Rightarrow> p\<lparr>pp_service := s\<lparr>sv_world := w\<rparr>, pp_main := PyRunning\<rparr>)
      | PyInDelete \<Rightarrow>
          (case delete_wait 0 (sv_disp s) (sv_world s) of
             Blocked \<Rightarrow> p
           | Done (_, reply, w) \<Rightarrow>
               p\<lparr>pp_service := s\<lparr>sv_world := snd (delete_finish 0 (sv_disp s) reply w)\<rparr>, pp_main := PyRunning\<rparr>))"

definition py_daemon_step :: "py_process \<Rightarrow> py_process" where
  "py_daemon_step p =
     (if needs_gil (dm_pc (sv_daemon (pp_service p))) \<and> pp_main p \<noteq> PyRunning then p
      else p\<lparr>pp_service := daemon_next (pp_service p)\<rparr>)"

fun py_act :: "py_process \<Rightarrow> py_action \<Rightarrow> py_process" where
  "py_act p PyMain = py_main_step p"
| "py_act p PyDaemon = py_daemon_step p"

text \<open>The daemon is about to serve a request, and the main thread waits for what comes after.\<close>

definition about_to_call :: "daemon_pc \<Rightarrow> bool" where
  "about_to_call pc \<longleftrightarrow>
     (\<exists>i args evs. pc \<in> {DmBatch (int i # evs), DmRead i evs, DmCall i args evs})"

definition waits_for :: "library \<Rightarrow> service \<Rightarrow> py_main \<Rightarrow> bool" where
  "waits_for lib s m \<longleftrightarrow>
     m = PyInDelete \<and> (\<forall>q. file_of (sv_world s) 0 (fst (d_from_daemon (sv_disp s))) = Some (PipeRead q) \<longrightarrow>
        w_pipes (sv_world s) ! q = []) \<or>
     (\<exists>x c. m = PyInResponse c \<and> (x, 0, c) \<in> set (sv_callers s) \<and> 0 < hf_sz_ret (lib x) \<and>
        bytes_in (sv_world s) (pipe_name x ''_res'') = [])"

definition py_stuck :: "library \<Rightarrow> py_main \<Rightarrow> py_process \<Rightarrow> bool" where
  "py_stuck lib m p \<longleftrightarrow> lib_ok lib \<and> (\<exists>ctl rep e. sv_inv lib ctl rep e (pp_service p)) \<and>
     pp_main p = m \<and> about_to_call (dm_pc (sv_daemon (pp_service p))) \<and> waits_for lib (pp_service p) m"

lemma py_main_blocked:
  assumes "py_stuck lib m p"
  shows "py_main_step p = p"
proof -
  let ?s = "pp_service p"
  obtain ctl rep e where I: "sv_inv lib ctl rep e ?s" using assms by (auto simp: py_stuck_def)
  note plan = sv_invD(1) [OF I] and F = sv_invD(2) [OF I]
  have m: "pp_main p = m" and W: "waits_for lib ?s m" using assms by (auto simp: py_stuck_def)
  from W show ?thesis
    unfolding waits_for_def
  proof (elim disjE exE conjE)
    assume del: "m = PyInDelete" and empty: "\<forall>q. file_of (sv_world ?s) 0 (fst (d_from_daemon (sv_disp ?s))) =
        Some (PipeRead q) \<longrightarrow> w_pipes (sv_world ?s) ! q = []"
    have q: "file_of (sv_world ?s) 0 (fst (d_from_daemon (sv_disp ?s))) = Some (PipeRead rep)"
      using sv_filesD(2) [OF F] by (simp add: disp_ok_def)
    then have "delete_wait 0 (sv_disp ?s) (sv_world ?s) = Blocked"
      using empty sys_read_ok [OF plan, of 0 "fst (d_from_daemon (sv_disp ?s))" rep 4] by (simp add: delete_wait_def)
    then show ?thesis using del m by (simp add: py_main_step_def)
  next
    fix x c assume resp: "m = PyInResponse c" and c: "(x, 0, c) \<in> set (sv_callers ?s)"
      and pos: "0 < hf_sz_ret (lib x)" and empty: "bytes_in (sv_world ?s) (pipe_name x ''_res'') = []"
    from sv_filesD(4) [OF F c] obtain q where sz: "c_sz_ret c = hf_sz_ret (lib x)"
        and q: "w_fifos (sv_world ?s) (pipe_name x ''_res'') = Some q"
          "Option.bind (file_of (sv_world ?s) 0 (c_res_fd c)) read_end = Some q"
      by (rule caller_ofD)
    have "w_pipes (sv_world ?s) ! q = []" using empty q(1) by (simp add: bytes_in_def)
    then have "get_response_host_function 0 c (sv_world ?s) = Blocked"
      using sys_read_ok [OF plan q(2)] sz pos by (simp add: get_response_host_function_def)
    then show ?thesis using resp m by (simp add: py_main_step_def)
  qed
qed

lemma waits_for_cong:
  assumes "waits_for lib s m" "sv_disp s' = sv_disp s" "sv_callers s' = sv_callers s"
    and "sv_inv lib ctl rep e s" "sv_inv lib ctl rep e s'"
    and "\<And>x. bytes_in (sv_world s') (pipe_name x ''_res'') = bytes_in (sv_world s) (pipe_name x ''_res'')"
    and "w_pipes (sv_world s') ! rep = w_pipes (sv_world s) ! rep"
  shows "waits_for lib s' m"
proof -
  have f: "file_of (sv_world t) 0 (fst (d_from_daemon (sv_disp t))) = Some (PipeRead rep)" if "sv_inv lib ctl rep e t" for t
    using sv_filesD(2) [OF sv_invD(2) [OF that]] by (simp add: disp_ok_def)
  show ?thesis
    using assms(1) f [OF assms(4)] f [OF assms(5)] unfolding waits_for_def assms(3,6) by (auto simp: assms(7))
qed

lemma py_stuck_keeps: "py_stuck lib m p \<Longrightarrow> py_stuck lib m (py_act p a)"
proof (cases a)
  case PyMain
  then show "py_stuck lib m p \<Longrightarrow> py_stuck lib m (py_act p a)" using py_main_blocked by simp
next
  case PyDaemon
  assume st: "py_stuck lib m p"
  let ?s = "pp_service p" let ?t = "daemon_next ?s"
  obtain ctl rep e where I: "sv_inv lib ctl rep e ?s" and lib: "lib_ok lib" using st by (auto simp: py_stuck_def)
  note It = sv_step_keeps [OF lib daemon_next_step I]
  have W: "waits_for lib ?s m" and m: "pp_main p = m" "m \<noteq> PyRunning"
    using st by (auto simp: py_stuck_def waits_for_def)
  obtain i args evs where "dm_pc (sv_daemon ?s) \<in> {DmBatch (int i # evs), DmRead i evs, DmCall i args evs}"
    using st by (auto simp: py_stuck_def about_to_call_def)
  then consider "dm_pc (sv_daemon ?s) = DmBatch (int i # evs)" | "dm_pc (sv_daemon ?s) = DmRead i evs"
    | "dm_pc (sv_daemon ?s) = DmCall i args evs" by blast
  then show "py_stuck lib m (py_act p a)"
  proof cases
    case 1
    note A = next_alloc [OF 1]
    have "waits_for lib ?t m"
      using quiet_files(2,3) [OF A(3)] by (intro waits_for_cong [OF W _ _ I It]) (simp_all add: daemon_next_frame)
    then show ?thesis
      using PyDaemon 1 A(1) It lib m by (auto simp: py_daemon_step_def py_stuck_def about_to_call_def)
  next
    case 2
    note R = next_read [OF lib I 2]
    have "waits_for lib ?t m"
      using R(3,5) by (intro waits_for_cong [OF W _ _ I It]) (simp_all add: daemon_next_frame)
    then show ?thesis
      using PyDaemon 2 R(1) It lib m by (auto simp: py_daemon_step_def py_stuck_def about_to_call_def)
  next
    case 3
    then show ?thesis using PyDaemon st m by (simp add: py_daemon_step_def)
  qed
qed

interpretation py: machine py_act "py_stuck lib m" "py_stuck lib m" for lib m
  by unfold_locales (auto intro: py_stuck_keeps)



end
