(* ===== verification/Python_Package.thy ===== *)
theory Python_Package
  imports Language_Props
begin

text \<open>
  The Python package (src/robot_ipc/robot_ipc.py) over the bindings of Language_Wrappers: values
  are sent as pickled bytes, or as the bytes of a ctypes structure. What \<open>pickle\<close> makes of
  an object is not code of this repository: \<open>dumps\<close> and \<open>loads\<close> are arguments. Constructors and
  methods that end in a call of the C library are split at it, as the bindings are.
\<close>

section \<open>Python objects and errors\<close>

text \<open>The exceptions of the package, those of the bindings, and any other.\<close>

datatype py_error =
    TypeError string
  | ValueError string
  | OverflowError string
  | RuntimeError string
  | OtherError string

text \<open>A subclass of \<open>ctypes.Structure\<close>, with the names of the structures it derives from.\<close>

record data_format =
  df_name :: string
  df_size :: nat
  df_bases :: "string list"

text \<open>
  An object is \<open>None\<close>, an instance of a structure with the bytes at its address, a tuple, a dict
  with strings as keys, or another object.
\<close>

datatype 'a py_value =
    NoneValue
  | StructValue data_format "u8 list"
  | TupleValue "'a py_value list"
  | DictValue "(string \<times> 'a py_value) list"
  | OtherValue 'a

type_synonym 'a dumps = "'a py_value \<Rightarrow> py_error + u8 list"
type_synonym 'a loads = "u8 list \<Rightarrow> py_error + 'a py_value"

text \<open>What can be given as \<open>data_format\<close>.\<close>

datatype py_format = FormatNone | FormatStructure data_format | FormatOther

section \<open>Encoding\<close>

definition SIZE_FIELD_BYTES :: nat where "SIZE_FIELD_BYTES = 8"

definition validate_data_format :: "py_format \<Rightarrow> py_error + data_format option" where
  "validate_data_format f =
     (case f of
        FormatNone \<Rightarrow> Inr None
      | FormatStructure fmt \<Rightarrow> Inr (Some fmt)
      | FormatOther \<Rightarrow> Inl (TypeError ''data_format must be a ctypes.Structure subclass''))"

definition struct_size :: "data_format \<Rightarrow> nat" where
  "struct_size fmt = df_size fmt"

text \<open>\<open>isinstance(data, data_format)\<close>.\<close>

fun is_instance :: "'a py_value \<Rightarrow> data_format \<Rightarrow> bool" where
  "is_instance (StructValue cls mem) fmt = (cls = fmt \<or> df_name fmt \<in> set (df_bases cls))"
| "is_instance _ fmt = False"

fun address_of :: "'a py_value \<Rightarrow> u8 list" where
  "address_of (StructValue cls mem) = mem"
| "address_of _ = []"

definition encode_data_format :: "'a py_value \<Rightarrow> data_format \<Rightarrow> nat \<Rightarrow> py_error + u8 list" where
  "encode_data_format x fmt target_sz =
     (if \<not> is_instance x fmt then Inl (TypeError (''data must be an instance of '' @ df_name fmt))
      else
        let raw = take (df_size fmt) (address_of x) in
        if length raw > target_sz then Inl (ValueError ''data size exceeds target buffer size'') else Inr raw)"

definition decode_data_format :: "u8 list \<Rightarrow> data_format \<Rightarrow> py_error + 'a py_value" where
  "decode_data_format raw fmt =
     (let buf = take (df_size fmt) raw in
      if length buf < df_size fmt
      then Inl (ValueError (''Buffer size too small ('' @ digits (length buf) @ '' instead of at least '' @
                 digits (df_size fmt) @ '' bytes)''))
      else Inr (StructValue fmt buf))"

text \<open>\<open>int.to_bytes\<close> and \<open>int.from_bytes\<close> on a little-endian machine.\<close>

definition size_field :: "nat \<Rightarrow> py_error + u8 list" where
  "size_field n =
     (if n < 2 ^ (8 * SIZE_FIELD_BYTES) then Inr (bytes_of SIZE_FIELD_BYTES (of_nat n))
      else Inl (OverflowError ''int too big to convert''))"

definition encode_pickle_call ::
    "'a dumps \<Rightarrow> 'a py_value list \<Rightarrow> (string \<times> 'a py_value) list \<Rightarrow> nat \<Rightarrow> py_error + u8 list" where
  "encode_pickle_call dumps args kwargs target_sz =
     (case dumps (TupleValue args) of
        Inl e \<Rightarrow> Inl e
      | Inr args_data \<Rightarrow>
     (case dumps (DictValue kwargs) of
        Inl e \<Rightarrow> Inl e
      | Inr kwargs_data \<Rightarrow>
     (case size_field (length args_data) of
        Inl e \<Rightarrow> Inl e
      | Inr field \<Rightarrow>
          let payload = field @ args_data @ kwargs_data in
          if length payload > target_sz
          then Inl (ValueError (''encoded arguments exceed max size ('' @ digits target_sz @ '')''))
          else Inr payload)))"

definition decode_pickle_call :: "'a loads \<Rightarrow> u8 list \<Rightarrow> py_error + 'a py_value \<times> 'a py_value" where
  "decode_pickle_call loads raw =
     (let args_size = unat (word_of (take SIZE_FIELD_BYTES raw));
          args_start = SIZE_FIELD_BYTES;
          args_end = args_start + args_size in
      case loads (drop args_start (take args_end raw)) of
        Inl e \<Rightarrow> Inl e
      | Inr args \<Rightarrow>
     (case loads (drop args_end raw) of
        Inl e \<Rightarrow> Inl e
      | Inr kwargs \<Rightarrow> Inr (args, kwargs)))"

section \<open>HostVariable\<close>

record pkg_variable =
  hv_format :: "data_format option"
  hv_name :: string
  hv_max_size :: nat
  hv_core :: py_host_variable

definition pkg_variable_new :: "string \<Rightarrow> nat \<Rightarrow> py_format \<Rightarrow> bool \<Rightarrow> py_error + pkg_variable" where
  "pkg_variable_new name max_size f linked =
     (case validate_data_format f of
        Inl e \<Rightarrow> Inl e
      | Inr fmt \<Rightarrow>
          let max_size = (case fmt of None \<Rightarrow> max_size | Some fmt \<Rightarrow> struct_size fmt) in
          case py_host_variable_new name max_size linked of
            Inl m \<Rightarrow> Inl (RuntimeError m)
          | Inr core \<Rightarrow> Inr \<lparr>hv_format = fmt, hv_name = name, hv_max_size = max_size, hv_core = core\<rparr>)"

text \<open>A Python integer that a binding takes as \<open>size_t\<close>.\<close>

definition as_size_t :: "int \<Rightarrow> py_error + nat" where
  "as_size_t n =
     (if 0 \<le> n \<and> n < 2 ^ 64 then Inr (nat n) else Inl (TypeError ''incompatible function arguments''))"

definition lift_core :: "'b py \<Rightarrow> py_error + 'b" where
  "lift_core r = (case r of Inl m \<Rightarrow> Inl (RuntimeError m) | Inr x \<Rightarrow> Inr x)"

text \<open>\<open>write\<close>: the arguments of \<open>write_host_variable\<close>; what comes back is \<open>pkg_write_done\<close>.\<close>

definition pkg_write ::
    "'a dumps \<Rightarrow> pkg_variable \<Rightarrow> 'a py_value \<Rightarrow> int option \<Rightarrow> py_error + u8 list \<times> nat \<times> nat" where
  "pkg_write dumps v x data_len =
     (case (case hv_format v of
              None \<Rightarrow>
                (case dumps x of
                   Inl e \<Rightarrow> Inl e
                 | Inr payload \<Rightarrow> Inr (payload, case data_len of None \<Rightarrow> int (length payload) | Some n \<Rightarrow> n))
            | Some fmt \<Rightarrow>
                (case encode_data_format x fmt (hv_max_size v) of
                   Inl e \<Rightarrow> Inl e
                 | Inr payload \<Rightarrow> Inr (payload, case data_len of None \<Rightarrow> int (struct_size fmt) | Some n \<Rightarrow> n)))
      of
        Inl e \<Rightarrow> Inl e
      | Inr (payload, op_size) \<Rightarrow>
          if op_size > int (hv_max_size v)
          then Inl (ValueError (''data length '' @ fmt_d op_size @ '' exceeds max size '' @ digits (hv_max_size v)))
          else
            case as_size_t op_size of
              Inl e \<Rightarrow> Inl e
            | Inr n \<Rightarrow> lift_core (py_write (hv_core v) payload n))"

definition pkg_write_done :: "int \<Rightarrow> py_error + unit" where
  "pkg_write_done ret = lift_core (py_write_done ret)"

text \<open>\<open>read\<close>: the arguments of \<open>read_host_variable\<close>; then what it makes of the bytes.\<close>

definition pkg_read :: "pkg_variable \<Rightarrow> int option \<Rightarrow> py_error + u8 list \<times> nat \<times> nat" where
  "pkg_read v data_len =
     (let op_size = (case data_len of None \<Rightarrow> int (hv_max_size v) | Some n \<Rightarrow> n) in
      case as_size_t op_size of
        Inl e \<Rightarrow> Inl e
      | Inr n \<Rightarrow> lift_core (py_read (hv_core v) n))"

definition pkg_read_done ::
    "'a loads \<Rightarrow> pkg_variable \<Rightarrow> int \<Rightarrow> u8 list \<Rightarrow> nat \<Rightarrow> (py_error + 'a py_value) \<times> pkg_variable" where
  "pkg_read_done loads v ret buf effective_size =
     (let (r, core) = py_read_done ret buf effective_size (hv_core v); v = v\<lparr>hv_core := core\<rparr> in
      case lift_core r of
        Inl e \<Rightarrow> (Inl e, v)
      | Inr raw \<Rightarrow>
          (case hv_format v of Some fmt \<Rightarrow> decode_data_format raw fmt | None \<Rightarrow> loads raw, v))"

text \<open>The property \<open>data\<close>: assigning to it is \<open>obj.write(value)\<close>, using it is \<open>obj.read()\<close>.\<close>

definition pkg_set_data :: "'a dumps \<Rightarrow> pkg_variable \<Rightarrow> 'a py_value \<Rightarrow> py_error + u8 list \<times> nat \<times> nat" where
  "pkg_set_data dumps v x = pkg_write dumps v x None"

definition pkg_get_data :: "pkg_variable \<Rightarrow> py_error + u8 list \<times> nat \<times> nat" where
  "pkg_get_data v = pkg_read v None"

section \<open>HostFunctionCaller\<close>

record pkg_caller =
  hfc_arg_format :: "data_format option"
  hfc_ret_format :: "data_format option"
  hfc_max_arg_size :: nat
  hfc_max_ret_size :: nat
  hfc_core :: py_function_caller

definition format_size :: "data_format option \<Rightarrow> nat \<Rightarrow> nat" where
  "format_size f n = (case f of None \<Rightarrow> n | Some fmt \<Rightarrow> struct_size fmt)"

definition pkg_caller_new ::
    "nat \<Rightarrow> string \<Rightarrow> nat \<Rightarrow> nat \<Rightarrow> py_format \<Rightarrow> py_format \<Rightarrow> world \<Rightarrow> ((py_error + pkg_caller) \<times> world) option" where
  "pkg_caller_new pid name max_arg_size max_ret_size af rf w =
     (case validate_data_format af of
        Inl e \<Rightarrow> Some (Inl e, w)
      | Inr arg_format \<Rightarrow>
     (case validate_data_format rf of
        Inl e \<Rightarrow> Some (Inl e, w)
      | Inr ret_format \<Rightarrow>
          let max_arg_size = format_size arg_format max_arg_size;
              max_ret_size = format_size ret_format max_ret_size in
          case py_function_caller_new pid name max_arg_size max_ret_size w of
            None \<Rightarrow> None
          | Some (Inl m, w) \<Rightarrow> Some (Inl (RuntimeError m), w)
          | Some (Inr core, w) \<Rightarrow>
              Some (Inr \<lparr>hfc_arg_format = arg_format, hfc_ret_format = ret_format, hfc_max_arg_size = max_arg_size,
                      hfc_max_ret_size = max_ret_size, hfc_core = core\<rparr>, w)))"

text \<open>The payload of a call, and the call.\<close>

definition pkg_call_payload ::
    "'a dumps \<Rightarrow> pkg_caller \<Rightarrow> 'a py_value list \<Rightarrow> (string \<times> 'a py_value) list \<Rightarrow> py_error + u8 list" where
  "pkg_call_payload dumps c args kwargs =
     (case hfc_arg_format c of
        None \<Rightarrow> encode_pickle_call dumps args kwargs (hfc_max_arg_size c)
      | Some fmt \<Rightarrow>
          if kwargs \<noteq> [] \<or> length args \<noteq> 1
          then Inl (ValueError ''typed host function caller expects exactly one positional argument'')
          else encode_data_format (args ! 0) fmt (hfc_max_arg_size c))"

definition pkg_call ::
    "'a dumps \<Rightarrow> nat \<Rightarrow> pkg_caller \<Rightarrow> 'a py_value list \<Rightarrow> (string \<times> 'a py_value) list \<Rightarrow> world \<Rightarrow>
     ((py_error + unit) \<times> pkg_caller \<times> world) io" where
  "pkg_call dumps pid c args kwargs w =
     (case pkg_call_payload dumps c args kwargs of
        Inl e \<Rightarrow> Done (Inl e, c, w)
      | Inr payload \<Rightarrow>
          (case py_call pid (hfc_core c) payload w of
             Blocked \<Rightarrow> Blocked
           | Done (r, core, w) \<Rightarrow> Done (lift_core r, c\<lparr>hfc_core := core\<rparr>, w)))"

definition pkg_decode_response :: "'a loads \<Rightarrow> pkg_caller \<Rightarrow> u8 list \<Rightarrow> py_error + 'a py_value" where
  "pkg_decode_response loads c raw =
     (case hfc_ret_format c of Some fmt \<Rightarrow> decode_data_format raw fmt | None \<Rightarrow> loads raw)"

definition pkg_get_response ::
    "'a loads \<Rightarrow> nat \<Rightarrow> pkg_caller \<Rightarrow> world \<Rightarrow> ((py_error + 'a py_value) \<times> pkg_caller \<times> world) io" where
  "pkg_get_response loads pid c w =
     (case py_get_response pid (hfc_core c) w of
        Blocked \<Rightarrow> Blocked
      | Done (r, core, w) \<Rightarrow>
          Done (case lift_core r of Inl e \<Rightarrow> Inl e | Inr raw \<Rightarrow> pkg_decode_response loads c raw,
                c\<lparr>hfc_core := core\<rparr>, w))"

section \<open>HostFunctionDispatcher\<close>

text \<open>
  The function that is attached: what it does with its arguments is not looked at; it returns a
  value or raises. \<open>foo(*args, **kwargs)\<close> needs a tuple and a dict.
\<close>

type_synonym 'a py_function = "'a py_value list \<Rightarrow> (string \<times> 'a py_value) list \<Rightarrow> py_error + 'a py_value"

definition apply_unpacked :: "'a py_function \<Rightarrow> 'a py_value \<Rightarrow> 'a py_value \<Rightarrow> py_error + 'a py_value" where
  "apply_unpacked foo args kwargs =
     (case (args, kwargs) of
        (TupleValue xs, DictValue kws) \<Rightarrow> foo xs kws
      | _ \<Rightarrow> Inl (TypeError ''argument after * or ** of the wrong kind''))"

definition pkg_callback ::
    "'a dumps \<Rightarrow> 'a loads \<Rightarrow> 'a py_function \<Rightarrow> data_format option \<Rightarrow> data_format option \<Rightarrow> nat \<Rightarrow> u8 list \<Rightarrow>
     py_error + u8 list option" where
  "pkg_callback dumps loads foo arg_format ret_format max_sz_ret raw =
     (case (case arg_format of
              None \<Rightarrow>
                (case decode_pickle_call loads raw of
                   Inl e \<Rightarrow> Inl e
                 | Inr (args, kwargs) \<Rightarrow> apply_unpacked foo args kwargs)
            | Some fmt \<Rightarrow>
                (case decode_data_format raw fmt of Inl e \<Rightarrow> Inl e | Inr x \<Rightarrow> foo [x] []))
      of
        Inl e \<Rightarrow> Inl e
      | Inr ret \<Rightarrow>
          (case ret of
             NoneValue \<Rightarrow> Inr None
           | _ \<Rightarrow>
               (case ret_format of
                  None \<Rightarrow>
                    (case dumps ret of
                       Inl e \<Rightarrow> Inl e
                     | Inr payload \<Rightarrow>
                         if length payload > max_sz_ret
                         then Inl (ValueError (''return data exceeds max_sz_ret ('' @ digits max_sz_ret @ '')''))
                         else Inr (Some payload))
                | Some fmt \<Rightarrow> map_sum id Some (encode_data_format ret fmt max_sz_ret))))"

text \<open>What the binding sees of the callback.\<close>

definition callback_object :: "py_error + u8 list option \<Rightarrow> py_object" where
  "callback_object r =
     (case r of Inl e \<Rightarrow> PyRaise | Inr None \<Rightarrow> PyNone | Inr (Some payload) \<Rightarrow> PyBytes payload)"

text \<open>A dispatcher keeps the callbacks it was given.\<close>

record pkg_dispatcher =
  hfd_core :: py_dispatcher
  hfd_callbacks :: "(u8 list \<Rightarrow> py_object) list"

definition pkg_dispatcher_new :: "nat \<Rightarrow> u64 \<Rightarrow> world \<Rightarrow> ((py_error + pkg_dispatcher) \<times> world) option" where
  "pkg_dispatcher_new pid max_func_count w =
     (case py_dispatcher_new pid max_func_count w of
        None \<Rightarrow> None
      | Some (Inl m, w) \<Rightarrow> Some (Inl (RuntimeError m), w)
      | Some (Inr core, w) \<Rightarrow> Some (Inr \<lparr>hfd_core = core, hfd_callbacks = []\<rparr>, w))"

definition pkg_attach ::
    "'a dumps \<Rightarrow> 'a loads \<Rightarrow> nat \<Rightarrow> (nat \<Rightarrow> callback_binding option) \<Rightarrow> nat \<Rightarrow> pkg_dispatcher \<Rightarrow> string \<Rightarrow>
     'a py_function \<Rightarrow> nat \<Rightarrow> nat \<Rightarrow> py_format \<Rightarrow> py_format \<Rightarrow> world \<Rightarrow>
     ((py_error + unit) \<times> pkg_dispatcher \<times> (nat \<Rightarrow> callback_binding option) \<times> world) option" where
  "pkg_attach dumps loads pid heap addr pd name foo max_sz_args max_sz_ret af rf w =
     (case validate_data_format af of
        Inl e \<Rightarrow> Some (Inl e, pd, heap, w)
      | Inr arg_format \<Rightarrow>
     (case validate_data_format rf of
        Inl e \<Rightarrow> Some (Inl e, pd, heap, w)
      | Inr ret_format \<Rightarrow>
          let max_sz_args = format_size arg_format max_sz_args;
              max_sz_ret = format_size ret_format max_sz_ret;
              callback = (\<lambda>raw. callback_object (pkg_callback dumps loads foo arg_format ret_format max_sz_ret raw));
              pd = pd\<lparr>hfd_callbacks := hfd_callbacks pd @ [callback]\<rparr> in
          map_option (\<lambda>(r, core, heap, w). (lift_core r, pd\<lparr>hfd_core := core\<rparr>, heap, w))
            (py_attach pid heap addr (hfd_core pd) name callback max_sz_args max_sz_ret w)))"

definition pkg_start :: "pkg_dispatcher \<Rightarrow> (py_error + unit) \<times> pkg_dispatcher" where
  "pkg_start pd =
     (let (r, core) = py_start (hfd_core pd) in (lift_core r, pd\<lparr>hfd_core := core\<rparr>))"

end
