(* ===== verification/Python_Props.thy ===== *)
theory Python_Props
  imports Python_Package
begin

text \<open>
  What a Python program relies on: a value that is assigned to a variable is the value that any
  process reads, a function is called with the arguments of the call, and its result is the
  response, for pickled objects and for ctypes structures. Of \<open>pickle\<close> it is used that \<open>loads\<close>
  gives back what \<open>dumps\<close> has written and ignores the bytes behind it, as its documentation says.
\<close>

section \<open>Objects that can be sent\<close>

definition restores :: "'a dumps \<Rightarrow> 'a loads \<Rightarrow> 'a py_value \<Rightarrow> bool" where
  "restores dumps loads x \<longleftrightarrow> (\<exists>bs. dumps x = Inr bs \<and> (\<forall>rest. loads (bs @ rest) = Inr x))"

definition sendable :: "'a dumps \<Rightarrow> 'a loads \<Rightarrow> data_format option \<Rightarrow> 'a py_value \<Rightarrow> bool" where
  "sendable dumps loads f x \<longleftrightarrow>
     (case f of None \<Rightarrow> restores dumps loads x
      | Some fmt \<Rightarrow> \<exists>mem. x = StructValue fmt mem \<and> length mem = df_size fmt)"

definition decode :: "'a loads \<Rightarrow> data_format option \<Rightarrow> u8 list \<Rightarrow> py_error + 'a py_value" where
  "decode loads f raw = (case f of None \<Rightarrow> loads raw | Some fmt \<Rightarrow> decode_data_format raw fmt)"

definition encode :: "'a dumps \<Rightarrow> data_format option \<Rightarrow> nat \<Rightarrow> 'a py_value \<Rightarrow> py_error + u8 list" where
  "encode dumps f sz x = (case f of None \<Rightarrow> dumps x | Some fmt \<Rightarrow> encode_data_format x fmt sz)"

text \<open>Whatever lies behind the encoding, the value is decoded.\<close>

lemma decode_encode:
  assumes "sendable dumps loads f x" "encode dumps f sz x = Inr bs"
  shows "decode loads f (bs @ rest) = Inr x"
  using assms
  by (auto simp: sendable_def encode_def decode_def restores_def encode_data_format_def decode_data_format_def
      Let_def split: option.splits if_splits)

lemma decode_take:
  assumes "sendable dumps loads f x" "encode dumps f sz x = Inr bs" "take (length bs) raw = bs"
  shows "decode loads f raw = Inr x"
  using decode_encode [OF assms(1,2), of "drop (length bs) raw"] assms(3) by (metis append_take_drop_id)

section \<open>Variables\<close>

text \<open>What holds of every object the constructor makes, and stays after its reads.\<close>

definition pkg_variable_ok :: "pkg_variable \<Rightarrow> bool" where
  "pkg_variable_ok v \<longleftrightarrow> pv_size (hv_core v) = hv_max_size v \<and> length (pv_buffer (hv_core v)) = hv_max_size v \<and>
     (case hv_format v of None \<Rightarrow> True | Some fmt \<Rightarrow> df_size fmt = hv_max_size v)"

lemma pkg_variable_new_ok: "pkg_variable_new name max_size f linked = Inr v \<Longrightarrow> pkg_variable_ok v"
  by (auto simp: pkg_variable_new_def py_host_variable_new_def pkg_variable_ok_def struct_size_def Let_def
      split: sum.splits if_splits option.splits)

lemma pkg_read_done_ok:
  "pkg_variable_ok v \<Longrightarrow> length buf = hv_max_size v \<Longrightarrow> pkg_variable_ok (snd (pkg_read_done loads v ret buf n))"
  by (auto simp: pkg_read_done_def py_read_done_def pkg_variable_ok_def lift_core_def Let_def split: option.splits)

lemma pkg_set_data_call:
  assumes "pkg_variable_ok v" "pkg_set_data dumps v x = Inr (bytes, sz, n)"
  shows "encode dumps (hv_format v) (hv_max_size v) x = Inr bytes" "sz = hv_max_size v" "n \<le> sz" "n = length bytes"
  using assms
  by (auto simp: pkg_set_data_def pkg_write_def encode_def pkg_variable_ok_def py_write_def lift_core_def
      as_size_t_def encode_data_format_def struct_size_def Let_def split: sum.splits option.splits if_splits)

lemma pkg_get_data_call:
  assumes "pkg_variable_ok v" "pkg_get_data v = Inr (buf, sz, m)"
  shows "buf = pv_buffer (hv_core v)" "sz = hv_max_size v" "m = hv_max_size v"
  using assms
  by (auto simp: pkg_get_data_def pkg_read_def py_read_def lift_core_def as_size_t_def pkg_variable_ok_def Let_def
      split: if_splits)

lemma pkg_read_done_decode: "fst (pkg_read_done loads v 0 buf m) = decode loads (hv_format v) (take m buf)"
  by (simp add: pkg_read_done_def py_read_done_def lift_core_def decode_def Let_def split: option.split)

text \<open>
  C37: what a Python program assigns to a variable is what any Python program then gets from it.
  From every reachable state with no call in progress and a clock that is newer than the latest
  stamp, if \<open>v.data = x\<close> gets as far as its call of the library, then the call returns 0 and the
  assignment does not raise; and a use of \<open>v'.data\<close> after it gives an object equal to \<open>x\<close>, where
  \<open>v\<close> and \<open>v'\<close> are variables of the same size and format (in any processes), and \<open>x\<close> is an object
  that pickle restores, or a structure of the format. The bytes behind a pickled object that is
  shorter than the variable are those of an earlier value; they do no harm.
\<close>

theorem python_value_roundtrip:
  assumes s: "s = hv_run (hv_init no_debug sz procs) as"
    and rest: "\<forall>th \<in> set (threads s). at_rest (th_pc th)"
    and ij: "i < length procs" "j < length procs"
    and newer: "timestamps s ! target_of (flags s) < get_compressed_timestamp (boot_clock s)"
    and v: "pkg_variable_ok v" "hv_max_size v = sz"
    and v': "pkg_variable_ok v'" "hv_max_size v' = sz" "hv_format v' = hv_format v"
    and x: "sendable dumps loads (hv_format v) x"
    and w: "pkg_set_data dumps v x = Inr (bytes, wsz, n)"
    and s1: "s1 = hv_run s (BeginWrite i n bytes # replicate (n + 12) (Step i))"
    and r: "pkg_get_data v' = Inr (buf, rsz, m)"
    and s2: "s2 = hv_run s1 (BeginRead j m buf # replicate (m + 12) (Step j))"
  shows "wsz = sz \<and> rsz = sz \<and> th_pc (threads s1 ! i) = Ret 0 \<and> pkg_write_done 0 = Inr () \<and>
    th_pc (threads s2 ! j) = Ret 0 \<and> fst (pkg_read_done loads v' 0 (th_buf (threads s2 ! j)) m) = Inr x"
proof -
  note c = pkg_set_data_call [OF v(1) w] and g = pkg_get_data_call [OF v'(1) r]
  have m: "m = sz" "m \<le> length buf" using g v' by (simp_all add: pkg_variable_ok_def)
  have n: "n \<le> sz" "n \<le> length bytes" using c v by simp_all
  note rb = write_read_back [OF s rest ij n eq_refl [OF m(1)] m(2) newer s1 s2]
  have "take n (take m (th_buf (threads s2 ! j))) = take n (reg_val (reg_of s1))"
    using rb(4) n(1) m(1) by (simp add: min_def)
  then have "take (length bytes) (take m (th_buf (threads s2 ! j))) = bytes"
    using rb(3) c(4) by simp
  then have "decode loads (hv_format v') (take m (th_buf (threads s2 ! j))) = Inr x"
    unfolding v'(3) by (rule decode_take [OF x c(1)])
  then show ?thesis
    using rb(1,2) c(2) g(2) v(2) v'(2)
    by (simp add: pkg_read_done_decode pkg_write_done_def py_write_done_def lift_core_def)
qed

text \<open>
  A small pickle for the witnesses: it knows a byte, the tuple of one byte and the empty dict.
\<close>

fun demo_dumps :: "u8 dumps" where
  "demo_dumps (TupleValue [OtherValue a]) = Inr [1, a]"
| "demo_dumps (DictValue []) = Inr [2]"
| "demo_dumps (OtherValue a) = Inr [3, a]"
| "demo_dumps _ = Inl (TypeError ''cannot pickle'')"

definition demo_loads :: "u8 loads" where
  "demo_loads bs =
     (if take 1 bs = [1] \<and> 1 < length bs then Inr (TupleValue [OtherValue (bs ! 1)])
      else if take 1 bs = [2] then Inr (DictValue [])
      else if take 1 bs = [3] \<and> 1 < length bs then Inr (OtherValue (bs ! 1))
      else Inl (OtherError ''UnpicklingError''))"

lemma demo_restores [simp]:
  "restores demo_dumps demo_loads (TupleValue [OtherValue a])" "restores demo_dumps demo_loads (DictValue [])"
  "restores demo_dumps demo_loads (OtherValue a)"
  by (auto simp: restores_def demo_loads_def)

definition demo_variable :: pkg_variable where
  "demo_variable = \<lparr>hv_format = None, hv_name = ''v'', hv_max_size = 4,
     hv_core = \<lparr>pv_name = ''v'', pv_size = 4, pv_linked = True, pv_buffer = [0, 0, 0, 0]\<rparr>\<rparr>"

lemma demo_variable:
  "pkg_variable_new ''v'' 4 FormatNone True = Inr demo_variable"
  "hv_max_size demo_variable = 4" "hv_format demo_variable = None"
  "pkg_set_data demo_dumps demo_variable (OtherValue 7) = Inr ([3, 7], 4, 2)"
  "pkg_get_data demo_variable = Inr ([0, 0, 0, 0], 4, 4)"
  by (simp_all add: demo_variable_def pkg_variable_new_def validate_data_format_def py_host_variable_new_def
      pkg_set_data_def pkg_write_def pkg_get_data_def pkg_read_def as_size_t_def py_write_def py_read_def
      lift_core_def numeral_eq_Suc)

theorem python_value_roundtrip_witness:
  "let s = hv_run (hv_init True 4 [0, 1]) [clock_at 5];
       s1 = hv_run s (BeginWrite 0 2 [3, 7] # replicate 14 (Step 0));
       s2 = hv_run s1 (BeginRead 1 4 [0, 0, 0, 0] # replicate 16 (Step 1))
   in th_pc (threads s1 ! 0) = Ret 0 \<and> th_pc (threads s2 ! 1) = Ret 0 \<and>
      fst (pkg_read_done demo_loads demo_variable 0 (th_buf (threads s2 ! 1)) 4) = Inr (OtherValue 7)"
proof -
  let ?s = "hv_run (hv_init True 4 [0, 1]) [clock_at 5]"
  have 1: "\<forall>th \<in> set (threads ?s). at_rest (th_pc th)" by code_simp
  have 2: "timestamps ?s ! target_of (flags ?s) < get_compressed_timestamp (boot_clock ?s)" by code_simp
  have 3: "sendable demo_dumps demo_loads (hv_format demo_variable) (OtherValue 7)"
    by (simp add: sendable_def demo_variable(3))
  note ok = pkg_variable_new_ok [OF demo_variable(1)]
  show ?thesis
    unfolding Let_def
    using python_value_roundtrip [OF refl 1 _ _ 2 ok demo_variable(2) ok demo_variable(2) refl 3 demo_variable(4) refl
        demo_variable(5) refl, of 0 1]
    by simp
qed

section \<open>Functions\<close>

text \<open>What the arguments of a call must be.\<close>

definition call_sendable :: "'a dumps \<Rightarrow> 'a loads \<Rightarrow> data_format option \<Rightarrow> 'a py_value list \<Rightarrow>
    (string \<times> 'a py_value) list \<Rightarrow> bool" where
  "call_sendable dumps loads f args kwargs \<longleftrightarrow>
     (case f of
        None \<Rightarrow> restores dumps loads (TupleValue args) \<and> restores dumps loads (DictValue kwargs)
      | Some fmt \<Rightarrow> kwargs = [] \<and> (\<exists>x. args = [x] \<and> sendable dumps loads f x))"

definition decode_call :: "'a loads \<Rightarrow> data_format option \<Rightarrow> 'a py_function \<Rightarrow> u8 list \<Rightarrow> py_error + 'a py_value" where
  "decode_call loads f foo raw =
     (case f of
        None \<Rightarrow> (case decode_pickle_call loads raw of Inl e \<Rightarrow> Inl e | Inr (args, kwargs) \<Rightarrow> apply_unpacked foo args kwargs)
      | Some fmt \<Rightarrow> (case decode_data_format raw fmt of Inl e \<Rightarrow> Inl e | Inr x \<Rightarrow> foo [x] []))"

lemma size_field_back:
  assumes "size_field n = Inr field"
  shows "length field = 8" "unat (word_of field) = n"
proof -
  have n: "n < 2 ^ 64" and f: "field = bytes_of 8 (of_nat n)"
    using assms by (auto simp: size_field_def SIZE_FIELD_BYTES_def split: if_splits)
  show "length field = 8" by (simp add: f)
  have "word_of field = (of_nat n :: u64)" by (simp add: f word_of_bytes_of take_bit_word_eq_self)
  then show "unat (word_of field) = n" using n by (simp add: unat_of_nat take_bit_nat_eq_self)
qed

lemma decode_encode_pickle_call:
  assumes "restores dumps loads (TupleValue args)" "restores dumps loads (DictValue kwargs)"
    and "encode_pickle_call dumps args kwargs sz = Inr payload"
  shows "decode_pickle_call loads (payload @ rest) = Inr (TupleValue args, DictValue kwargs)"
proof -
  obtain a k field where a: "dumps (TupleValue args) = Inr a" "\<And>r. loads (a @ r) = Inr (TupleValue args)"
      and k: "dumps (DictValue kwargs) = Inr k" "\<And>r. loads (k @ r) = Inr (DictValue kwargs)"
      and f: "size_field (length a) = Inr field" "payload = field @ a @ k"
    using assms by (auto simp: restores_def encode_pickle_call_def Let_def split: sum.splits if_splits)
  show ?thesis
    using size_field_back [OF f(1)] a(2) [of "[]"] k(2) [of rest]
    by (simp add: decode_pickle_call_def SIZE_FIELD_BYTES_def f(2))
qed

lemma decode_call_payload:
  assumes "call_sendable dumps loads (hfc_arg_format c) args kwargs" "pkg_call_payload dumps c args kwargs = Inr payload"
  shows "decode_call loads (hfc_arg_format c) foo (payload @ rest) = foo args kwargs"
proof (cases "hfc_arg_format c")
  case None
  then show ?thesis
    using assms decode_encode_pickle_call [of dumps loads args kwargs "hfc_max_arg_size c" payload rest]
    by (simp add: call_sendable_def pkg_call_payload_def decode_call_def apply_unpacked_def)
next
  case (Some fmt)
  then obtain x where x: "args = [x]" "kwargs = []" "sendable dumps loads (Some fmt) x"
    using assms(1) by (auto simp: call_sendable_def)
  then have "encode dumps (Some fmt) (hfc_max_arg_size c) x = Inr payload"
    using assms(2) Some by (simp add: pkg_call_payload_def encode_def)
  from decode_encode [OF x(3) this, of rest] show ?thesis
    by (simp add: Some x(1,2) decode_call_def decode_def)
qed

lemma payload_fits: "pkg_call_payload dumps c args kwargs = Inr payload \<Longrightarrow> length payload \<le> hfc_max_arg_size c"
  by (auto simp: pkg_call_payload_def encode_pickle_call_def encode_data_format_def Let_def
      split: option.splits sum.splits if_splits)

text \<open>The result of a callback, in terms of what the function returns.\<close>

lemma pkg_callback_decoded:
  "pkg_callback dumps loads foo af rf sz raw =
     (case decode_call loads af foo raw of
        Inl e \<Rightarrow> Inl e
      | Inr ret \<Rightarrow>
          if ret = NoneValue then Inr None
          else case encode dumps rf sz ret of
            Inl e \<Rightarrow> Inl e
          | Inr bs \<Rightarrow> if length bs > sz then Inl (ValueError (''return data exceeds max_sz_ret ('' @ digits sz @ '')''))
                       else Inr (Some bs))"
  by (simp add: pkg_callback_def decode_call_def encode_def encode_data_format_def Let_def
      split: sum.split option.split py_value.split) (auto split: sum.splits)

text \<open>
  C38: a call in Python is a call of the Python function. If \<open>c(*args, **kwargs)\<close> gets as far as
  its call of the library, it writes the payload, padded with zeros, as the C call does; the daemon that
  serves this request calls the attached function with exactly \<open>args\<close> and \<open>kwargs\<close>; the response
  is empty exactly if the function raises or returns \<open>None\<close>, or a result that cannot be encoded or is too long; and else
  \<open>get_response\<close> makes of its bytes an object equal to what the function returned.
\<close>

theorem python_call_roundtrip:
  assumes handle: "pc_handle (hfc_core c) = Some p" "c_sz_arg p = hfc_max_arg_size c" "pc_arg_size (hfc_core c) = hfc_max_arg_size c"
    and b: "heap addr = Some b" "cb_arg_size b = hfc_max_arg_size c"
      "cb_callback b = (\<lambda>raw. callback_object
         (pkg_callback dumps loads foo (hfc_arg_format c) (hfc_ret_format c) (cb_ret_size b) raw))"
    and args: "call_sendable dumps loads (hfc_arg_format c) args kwargs"
    and payload: "pkg_call_payload dumps c args kwargs = Inr payload"
    and ret: "\<And>ret. foo args kwargs = Inr ret \<Longrightarrow> ret \<noteq> NoneValue \<Longrightarrow> sendable dumps loads (hfc_ret_format c) ret"
  shows "let request = padded (hfc_max_arg_size c) payload; resp = response (py_host_fun heap addr b) request in
    (case call_host_function pid p request w of
       Blocked \<Rightarrow> pkg_call dumps pid c args kwargs w = Blocked
     | Done (n, w') \<Rightarrow> \<exists>r c'. pkg_call dumps pid c args kwargs w = Done (r, c', w') \<and> (n = 0 \<longleftrightarrow> r = Inr ())) \<and>
    (case foo args kwargs of
       Inl e \<Rightarrow> resp = []
     | Inr ret \<Rightarrow>
         (case encode dumps (hfc_ret_format c) (cb_ret_size b) ret of
            Inl e \<Rightarrow> resp = []
          | Inr bs \<Rightarrow>
              if ret = NoneValue \<or> cb_ret_size b < length bs then resp = []
              else resp = padded (cb_ret_size b) bs \<and> pkg_decode_response loads c resp = Inr ret))"
  unfolding Let_def
proof
  let ?request = "padded (hfc_max_arg_size c) payload"
  have le: "length payload \<le> hfc_max_arg_size c" by (rule payload_fits [OF payload])
  show "case call_host_function pid p ?request w of
       Blocked \<Rightarrow> pkg_call dumps pid c args kwargs w = Blocked
     | Done (n, w') \<Rightarrow> \<exists>r c'. pkg_call dumps pid c args kwargs w = Done (r, c', w') \<and> (n = 0 \<longleftrightarrow> r = Inr ())"
    using py_call_is_call [OF handle(1), of payload pid w] le handle(2,3)
    by (auto simp: pkg_call_def payload lift_core_def split: io.split)
  have "length ?request = cb_arg_size b" unfolding b(2) by (rule length_padded [OF le])
  then have resp: "response (py_host_fun heap addr b) ?request =
      (case callback_object (pkg_callback dumps loads foo (hfc_arg_format c) (hfc_ret_format c) (cb_ret_size b) ?request) of
         PyBytes bs \<Rightarrow> if length bs \<le> cb_ret_size b then padded (cb_ret_size b) bs else [] | _ \<Rightarrow> [])"
    using b by (simp add: response_def py_host_fun_def dispatcher_callback_def Let_def padded_def split: py_object.split)
  have dec: "decode_call loads (hfc_arg_format c) foo ?request = foo args kwargs"
    unfolding padded_def by (rule decode_call_payload [OF args payload])
  have got: "pkg_decode_response loads c (padded (cb_ret_size b) bs) = Inr ret"
    if "foo args kwargs = Inr ret" "ret \<noteq> NoneValue" "encode dumps (hfc_ret_format c) (cb_ret_size b) ret = Inr bs" for ret bs
    using decode_encode [OF ret [OF that(1,2)] that(3)]
    by (simp add: pkg_decode_response_def decode_def padded_def split: option.splits)
  show "case foo args kwargs of
       Inl e \<Rightarrow> response (py_host_fun heap addr b) ?request = []
     | Inr ret \<Rightarrow>
         (case encode dumps (hfc_ret_format c) (cb_ret_size b) ret of
            Inl e \<Rightarrow> response (py_host_fun heap addr b) ?request = []
          | Inr bs \<Rightarrow>
              if ret = NoneValue \<or> cb_ret_size b < length bs then response (py_host_fun heap addr b) ?request = []
              else response (py_host_fun heap addr b) ?request = padded (cb_ret_size b) bs \<and>
                pkg_decode_response loads c (response (py_host_fun heap addr b) ?request) = Inr ret)"
    unfolding resp pkg_callback_decoded dec
    by (auto simp: callback_object_def got split: sum.split)
qed

text \<open>The constructors establish what the round trip of a call asks of the objects.\<close>

lemma pkg_caller_new_ok:
  assumes "pkg_caller_new pid name n m af rf w = Some (Inr c, w')"
  shows "\<exists>p. pc_handle (hfc_core c) = Some p \<and> c_sz_arg p = hfc_max_arg_size c \<and>
    pc_arg_size (hfc_core c) = hfc_max_arg_size c"
proof -
  obtain A R core where "py_function_caller_new pid name A R w = Some (Inr core, w')"
      "hfc_core c = core" "hfc_max_arg_size c = A"
    using assms by (auto simp: pkg_caller_new_def Let_def split: sum.splits option.splits)
  moreover from this(1) obtain p where "link_host_function pid name A R w = Some (Some p, w')"
      "pc_handle core = Some p" "pc_arg_size core = A"
    by (auto simp: py_function_caller_new_def split: option.splits)
  moreover from this(1) have "c_sz_arg p = A"
    by (auto simp: link_host_function_def link_failed_def Let_def split: if_splits prod.splits option.splits)
  ultimately show ?thesis by simp
qed

lemma pkg_attach_binding:
  assumes "pkg_attach dumps loads pid heap addr pd name foo n m FormatNone FormatNone w = Some (Inr (), pd', heap', w')"
  shows "heap' addr = Some \<lparr>cb_callback = (\<lambda>raw. callback_object (pkg_callback dumps loads foo None None m raw)),
     cb_arg_size = n, cb_ret_size = m\<rparr>"
  using assms
  by (auto simp: pkg_attach_def validate_data_format_def format_size_def py_attach_def lift_core_def Let_def
      split: option.splits if_splits)

text \<open>A caller and a function that adds one to a byte.\<close>

definition demo_caller :: pkg_caller where
  "demo_caller = \<lparr>hfc_arg_format = None, hfc_ret_format = None, hfc_max_arg_size = 12, hfc_max_ret_size = 4,
     hfc_core = \<lparr>pc_handle = Some \<lparr>c_req_fd = 0, c_res_fd = 1, c_sz_arg = 12, c_sz_ret = 4\<rparr>, pc_arg_size = 12,
       pc_ret_size = 4, pc_buffer = replicate 12 0\<rparr>\<rparr>"

fun demo_foo :: "u8 py_function" where
  "demo_foo [OtherValue a] [] = Inr (OtherValue (a + 1))"
| "demo_foo _ _ = Inl (TypeError ''arguments'')"

definition demo_binding :: callback_binding where
  "demo_binding = \<lparr>cb_callback = (\<lambda>raw. callback_object (pkg_callback demo_dumps demo_loads demo_foo None None 4 raw)),
     cb_arg_size = 12, cb_ret_size = 4\<rparr>"

lemma demo_objects:
  "hfc_arg_format demo_caller = None" "hfc_ret_format demo_caller = None" "hfc_max_arg_size demo_caller = 12"
  "pc_handle (hfc_core demo_caller) = Some \<lparr>c_req_fd = 0, c_res_fd = 1, c_sz_arg = 12, c_sz_ret = 4\<rparr>"
  "pc_arg_size (hfc_core demo_caller) = 12" "cb_arg_size demo_binding = 12" "cb_ret_size demo_binding = 4"
  "cb_callback demo_binding = (\<lambda>raw. callback_object (pkg_callback demo_dumps demo_loads demo_foo None None 4 raw))"
  by (simp_all add: demo_caller_def demo_binding_def)

theorem python_call_roundtrip_witness:
  "let resp = response (py_host_fun [7 \<mapsto> demo_binding] 7 demo_binding) [2, 0, 0, 0, 0, 0, 0, 0, 1, 5, 2, 0]
   in pkg_call_payload demo_dumps demo_caller [OtherValue 5] [] = Inr [2, 0, 0, 0, 0, 0, 0, 0, 1, 5, 2] \<and>
      resp = [3, 6, 0, 0] \<and> pkg_decode_response demo_loads demo_caller resp = Inr (OtherValue 6)"
proof -
  have "bytes_of 8 2 = [2, 0, 0, 0, 0, 0, 0, 0]" by code_simp
  then have "size_field (Suc (Suc 0)) = Inr [2, 0, 0, 0, 0, 0, 0, 0]"
    by (simp add: size_field_def SIZE_FIELD_BYTES_def)
  then have p: "pkg_call_payload demo_dumps demo_caller [OtherValue 5] [] = Inr [2, 0, 0, 0, 0, 0, 0, 0, 1, 5, 2]"
    by (simp add: pkg_call_payload_def demo_caller_def encode_pickle_call_def)
  have "pkg_decode_response demo_loads demo_caller (response (py_host_fun [7 \<mapsto> demo_binding] 7 demo_binding)
      (padded 12 [2, 0, 0, 0, 0, 0, 0, 0, 1, 5, 2])) = Inr (OtherValue 6) \<and>
    response (py_host_fun [7 \<mapsto> demo_binding] 7 demo_binding) (padded 12 [2, 0, 0, 0, 0, 0, 0, 0, 1, 5, 2]) = padded 4 [3, 6]"
    using python_call_roundtrip [of demo_caller _ "[7 \<mapsto> demo_binding]" 7 demo_binding demo_dumps demo_loads demo_foo
        "[OtherValue 5]" "[]" _ 0 "empty_world []", OF _ _ _ _ _ _ _ p]
    by (auto simp: demo_objects call_sendable_def sendable_def encode_def Let_def)
  moreover have "padded 12 [2, 0, 0, 0, 0, 0, 0, 0, 1, 5, 2] = [2, 0, 0, 0, 0, 0, 0, 0, 1, 5, 2, 0]"
      "padded 4 [3, 6] = [3, 6, 0, 0]"
    by code_simp+
  ultimately show ?thesis using p by (auto simp: Let_def)
qed

end
