(* ===== verification/Cpp_Wrapper.thy ===== *)
theory Cpp_Wrapper
  imports Cpp_Layout Example_Functions Language_Wrappers
begin

text \<open>
  The compile-time part of the C++ wrapper (include/robot_ipc.hpp): the checks of the types that
  are sent, the layout information, and the conversions of objects to bytes; then the two example
  programs that print the layout of their structs (examples/cross_language_structs.cpp and
  examples/cpp20_demo.cpp) and those with host functions (examples/host_function). An object is
  the bytes it is made of; a program that does not compile is the message of the assertion
  that fails.
\<close>

section \<open>Checks of types\<close>

definition is_memory_layout_compatible :: "cpp_type \<Rightarrow> bool" where
  "is_memory_layout_compatible T =
     (is_standard_layout T \<and> is_trivially_copyable T \<and> \<not> is_pointer T \<and> \<not> is_reference T)"

definition is_ipc_safe_type :: "cpp_type \<Rightarrow> bool" where
  "is_ipc_safe_type T = (is_memory_layout_compatible T \<and> is_trivially_destructible T)"

text \<open>The concepts of C++20 and the variable template.\<close>

definition MemoryLayoutCompatible :: "cpp_type \<Rightarrow> bool" where
  "MemoryLayoutCompatible T = is_memory_layout_compatible T"

definition IPCSafeType :: "cpp_type \<Rightarrow> bool" where
  "IPCSafeType T = is_ipc_safe_type T"

definition is_ipc_safe_v :: "cpp_type \<Rightarrow> bool" where
  "is_ipc_safe_v T = is_ipc_safe_type T"

definition check_ipc_safety :: "cpp_type \<Rightarrow> string + bool" where
  "check_ipc_safety T =
     (if \<not> is_standard_layout T
      then Inl ''Type must have standard layout (all members have same access control, no virtual functions/inheritance)''
      else if \<not> is_trivially_copyable T
      then Inl ''Type must be trivially copyable (no complex copy operations)''
      else if is_pointer T
      then Inl ''Type cannot contain pointers (not safe for IPC)''
      else if \<not> is_trivially_destructible T
      then Inl ''Type must be trivially destructible''
      else Inr True)"

definition validate_memory_layout :: "cpp_type \<Rightarrow> bool" where
  "validate_memory_layout T =
     (is_standard_layout T \<and> is_trivially_copyable T \<and> has_unique_object_representations T)"

record MemoryLayoutInfo =
  is_safe :: bool
  info_size :: nat
  alignment :: nat
  has_unique_repr :: bool

definition memory_layout_info :: "cpp_type \<Rightarrow> MemoryLayoutInfo" where
  "memory_layout_info T = \<lparr>is_safe = is_ipc_safe_type T, info_size = sizeof T, alignment = alignof T,
     has_unique_repr = has_unique_object_representations T\<rparr>"

section \<open>Objects as bytes\<close>

text \<open>\<open>std::memcpy\<close> of \<open>sizeof(T)\<close> bytes to the array that is returned, and back.\<close>

definition to_bytes :: "cpp_type \<Rightarrow> u8 list \<Rightarrow> u8 list" where
  "to_bytes T obj = take (sizeof T) obj"

definition from_bytes :: "cpp_type \<Rightarrow> u8 list \<Rightarrow> u8 list" where
  "from_bytes T bytes = take (sizeof T) bytes"

definition bit_representation :: "cpp_type \<Rightarrow> u8 list \<Rightarrow> string + u8 list" where
  "bit_representation T obj =
     (if \<not> has_unique_object_representations T
      then Inl ''Type must have unique object representation for bit casting''
      else Inr (take (sizeof T) obj))"

section \<open>Structs of the examples\<close>

text \<open>\<open>SensorData\<close> is the same in both programs.\<close>

definition SensorData :: cpp_type where
  "SensorData = packed_class ''SensorData'' [Integer 8, Floating 8, Floating 8, Integer 4]"

definition RobotStatus :: cpp_type where
  "RobotStatus = packed_class ''RobotStatus'' [Integer 4, Integer 4, Floating 4, Integer 1]"

definition BadSensorData :: cpp_type where
  "BadSensorData = plain_class ''BadSensorData'' [Integer 8, Floating 8, Floating 8, Integer 4]"

text \<open>\<open>is_packed\<close> answers yes for every type, as its comment on a heuristic admits.\<close>

definition is_packed :: "cpp_type \<Rightarrow> bool" where
  "is_packed T = True"

text \<open>\<open>print_struct_info\<close>: what it prints, with the newline as the character 10.\<close>

definition show_bool :: "bool \<Rightarrow> string" where
  "show_bool b = (if b then ''1'' else ''0'')"

definition print_struct_info :: "cpp_type \<Rightarrow> string \<Rightarrow> string" where
  "print_struct_info T name =
     (let nl = [CHR 10] in
      name @ '':'' @ nl @
      ''  Size: '' @ digits (sizeof T) @ '' bytes'' @ nl @
      ''  Alignment: '' @ digits (alignof T) @ '' bytes'' @ nl @
      ''  Standard layout: '' @ show_bool (is_standard_layout T) @ nl @
      ''  Trivially copyable: '' @ show_bool (is_trivially_copyable T) @ nl @
      ''  Has unique representations: '' @ show_bool (has_unique_object_representations T) @ nl @
      (if T = SensorData then
         let expected_size = sizeof (Integer 8) + sizeof (Floating 8) + sizeof (Floating 8) + sizeof (Integer 4) in
         ''  Expected size (no padding): '' @ digits expected_size @ '' bytes'' @ nl @
         ''  Is packed: '' @ (if sizeof T = expected_size then ''Yes'' else ''No'') @ nl
       else if T = RobotStatus then
         let expected_size = sizeof (Integer 4) + sizeof (Integer 4) + sizeof (Floating 4) + sizeof (Integer 1) in
         ''  Expected size (no padding): '' @ digits expected_size @ '' bytes'' @ nl @
         ''  Is packed: '' @ (if sizeof T = expected_size then ''Yes'' else ''No'') @ nl
       else []) @ nl)"

text \<open>
  \<open>main\<close> of cpp20_demo.cpp, given whether the variable is linked, the results of its write and its
  read, the memory of the bytes that are not set, and the clock: its exit code, and whether it
  finds that the temperature survives the way to bytes and back. The temperature 23.5, the humidity
  45.2 and the number 1 are bit patterns of IEEE doubles and an int.
\<close>

definition demo_write_data :: "u64 \<Rightarrow> cpp_value" where
  "demo_write_data now = Values [Bits now, Bits 0x4037800000000000, Bits 0x404699999999999A, Bits 1]"

definition temperature :: "cpp_value \<Rightarrow> cpp_value" where
  "temperature v = (case v of Values vs \<Rightarrow> vs ! 1 | Bits b \<Rightarrow> v)"

definition cpp20_demo_main :: "bool \<Rightarrow> int \<Rightarrow> int \<Rightarrow> u8 list \<Rightarrow> u64 \<Rightarrow> int \<times> bool option" where
  "cpp20_demo_main linked write_ret read_ret mem now =
     (if \<not> linked then (1, None)
      else
        let write_data = store SensorData (demo_write_data now) mem in
        if write_ret \<noteq> 0 then (1, None)
        else if read_ret \<noteq> 0 then (1, None)
        else
          let bytes = to_bytes SensorData write_data; reconstructed = from_bytes SensorData bytes in
          (0, Some (temperature (load SensorData write_data) = temperature (load SensorData reconstructed))))"

section \<open>What the checks accept\<close>

lemma check_ipc_safety_iff: "check_ipc_safety T = Inr True \<longleftrightarrow> is_ipc_safe_type T"
  by (cases T) (auto simp: check_ipc_safety_def is_ipc_safe_type_def is_memory_layout_compatible_def)

text \<open>
  The four assertions of the wrapper classes accept exactly the types that
  \<open>is_ipc_safe_type\<close> and the concept \<open>IPCSafeType\<close> accept; a pointer or a reference is not among them, but a
  struct, packed or not, may have any accepted types and any pointers as its members,
  although the third assertion says that a type cannot contain pointers.
\<close>

lemma cpp_checks_members:
  assumes "\<forall>t \<in> set ts. t = Pointer \<or> check_ipc_safety t = Inr True"
  shows "(check_ipc_safety T = Inr True \<longleftrightarrow> IPCSafeType T) \<and>
    check_ipc_safety Pointer \<noteq> Inr True \<and> check_ipc_safety Reference \<noteq> Inr True \<and>
    check_ipc_safety (plain_class name ts) = Inr True \<and> check_ipc_safety (packed_class name ts) = Inr True"
  using assms
  by (auto simp: check_ipc_safety_iff IPCSafeType_def is_ipc_safe_type_def is_memory_layout_compatible_def
      plain_class_def packed_class_def)

lemma cpp_checks_members_example:
  "check_ipc_safety (packed_class ''Node'' [Integer 4, Pointer]) = Inr True \<and> check_ipc_safety Pointer \<noteq> Inr True"
proof -
  have "\<forall>t \<in> set [Integer 4, Pointer]. t = Pointer \<or> check_ipc_safety t = Inr True"
    by (simp add: check_ipc_safety_def)
  from cpp_checks_members [OF this, of "Integer 4" "''Node''"] show ?thesis by simp
qed

text \<open>A type whose layout is validated is safe, apart from pointers.\<close>

lemma validate_memory_layout_safe:
  "validate_memory_layout T \<Longrightarrow> is_trivially_destructible T \<Longrightarrow> T \<noteq> Pointer \<Longrightarrow> IPCSafeType T"
  by (cases T) (auto simp: validate_memory_layout_def IPCSafeType_def is_ipc_safe_type_def is_memory_layout_compatible_def)

section \<open>Bytes\<close>

text \<open>
  C39: the bytes of an object. Whatever the memory of an object held before, \<open>from_bytes\<close> after
  \<open>to_bytes\<close> gives an object of the same value, of \<open>sizeof(T)\<close> bytes; where \<open>bit_representation\<close>
  compiles it gives the bytes of \<open>to_bytes\<close>, and these depend on the value only. The
  object of a packed struct whose members have no padding is the bytes of its members, one
  after the other, as in a ctypes structure with \<open>_pack_ = 1\<close>.
\<close>

theorem cpp_bytes_roundtrip:
  assumes "fits T v" "sizeof T \<le> length mem"
  shows "load T (from_bytes T (to_bytes T (store T v mem))) = v \<and> length (to_bytes T (store T v mem)) = sizeof T \<and>
    (case bit_representation T (store T v mem) of
       Inl e \<Rightarrow> \<not> has_unique_object_representations T
     | Inr bs \<Rightarrow> to_bytes T (store T v mem) = bs \<and>
         (\<forall>mem'. sizeof T \<le> length mem' \<longrightarrow> to_bytes T (store T v mem') = bs)) \<and>
    (\<forall>name ts vs. T = packed_class name ts \<and> v = Values vs \<and> (\<forall>t \<in> set ts. padding_free t) \<and>
       0 < sum_list (map sizeof ts) \<longrightarrow> to_bytes T (store T v mem) = concat (map2 repr ts vs))"
proof (intro conjI allI impI)
  note w = stores_wellD [OF stores_well assms]
  show len: "length (to_bytes T (store T v mem)) = sizeof T" using w(1) assms(2) by (simp add: to_bytes_def)
  show "load T (from_bytes T (to_bytes T (store T v mem))) = v"
    using w(4) [of "[]"] by (simp add: from_bytes_def to_bytes_def)
  show "case bit_representation T (store T v mem) of
       Inl e \<Rightarrow> \<not> has_unique_object_representations T
     | Inr bs \<Rightarrow> to_bytes T (store T v mem) = bs \<and>
         (\<forall>mem'. sizeof T \<le> length mem' \<longrightarrow> to_bytes T (store T v mem') = bs)"
    using store_repr [OF unique_padding_free assms(1)] assms(2)
    by (auto simp: bit_representation_def to_bytes_def split: sum.split)
  fix name ts vs
  assume T: "T = packed_class name ts \<and> v = Values vs \<and> (\<forall>t \<in> set ts. padding_free t) \<and> 0 < sum_list (map sizeof ts)"
  have sz: "sizeof T = sum_list (map sizeof ts)"
    using T by (simp add: packed_class_def packed_end first_offset_def max_def)
  have "take (sum_list (map sizeof ts)) (store_fields True 0 ts vs mem) = concat (map2 repr ts vs)"
    using T assms store_repr packed_end [of 0 ts] sz
    by (intro store_fields_bytes) (auto simp: packed_class_def)
  then show "to_bytes T (store T v mem) = concat (map2 repr ts vs)"
    using T unfolding to_bytes_def sz by (simp add: packed_class_def first_offset_def)
qed

text \<open>The sizes and what the programs print of the structs of the examples.\<close>

lemma struct_sizes:
  "sizeof SensorData = 28" "sizeof RobotStatus = 13" "sizeof BadSensorData = 32"
  "alignof SensorData = 1" "alignof RobotStatus = 1" "alignof BadSensorData = 8"
  by (simp_all add: SensorData_def RobotStatus_def BadSensorData_def packed_class_def plain_class_def
      first_offset_def place_def round_up_def)

lemma demo_fits: "fits SensorData (demo_write_data now)"
  by (simp add: SensorData_def packed_class_def demo_write_data_def take_bit_word_eq_self)

text \<open>\<open>SensorData\<close> has doubles, so that \<open>bit_representation\<close> does not compile for it.\<close>

theorem cpp_bytes_roundtrip_witness:
  "load SensorData (from_bytes SensorData (to_bytes SensorData (store SensorData (demo_write_data 5) (replicate 28 7)))) =
     demo_write_data 5 \<and>
   to_bytes SensorData (store SensorData (demo_write_data 5) (replicate 28 7)) =
     repr (Integer 8) (Bits 5) @ repr (Floating 8) (Bits 0x4037800000000000) @
     repr (Floating 8) (Bits 0x404699999999999A) @ repr (Integer 4) (Bits 1)"
proof -
  have "sizeof SensorData \<le> length (replicate 28 (7 :: u8))" by (simp add: struct_sizes)
  note r = cpp_bytes_roundtrip [OF demo_fits this, of 5]
  let ?ts = "[Integer 8, Floating 8, Floating 8, Integer 4]"
  have "SensorData = packed_class ''SensorData'' ?ts \<and> demo_write_data 5 =
      Values [Bits 5, Bits 0x4037800000000000, Bits 0x404699999999999A, Bits 1] \<and>
      (\<forall>t \<in> set ?ts. padding_free t) \<and> 0 < sum_list (map sizeof ?ts)"
    by (simp add: SensorData_def demo_write_data_def)
  then have "to_bytes SensorData (store SensorData (demo_write_data 5) (replicate 28 7)) =
      concat (map2 repr ?ts [Bits 5, Bits 0x4037800000000000, Bits 0x404699999999999A, Bits 1])"
    using r by blast
  then show ?thesis using r by simp
qed

text \<open>The object of the unpacked struct sends four bytes of the memory of the writer.\<close>

lemma bad_padding:
  assumes "fits BadSensorData v" "length mem = 32"
  shows "drop 28 (to_bytes BadSensorData (store BadSensorData v mem)) = drop 28 mem"
proof -
  obtain a b c d where v: "v = Values [Bits a, Bits b, Bits c, Bits d]"
    using assms(1) by (auto simp: BadSensorData_def plain_class_def elim!: fits.elims split: list.splits)
  show ?thesis
    using assms(2) unfolding to_bytes_def struct_sizes v
    by (simp add: BadSensorData_def plain_class_def first_offset_def place_def round_up_def Let_def add.commute)
qed

lemma print_struct_sizes:
  "print_struct_info SensorData name = name @ '':'' @ [CHR 10] @ ''  Size: 28 bytes'' @ [CHR 10] @
     ''  Alignment: 1 bytes'' @ [CHR 10] @ ''  Standard layout: 1'' @ [CHR 10] @ ''  Trivially copyable: 1'' @ [CHR 10] @
     ''  Has unique representations: 0'' @ [CHR 10] @ ''  Expected size (no padding): 28 bytes'' @ [CHR 10] @
     ''  Is packed: Yes'' @ [CHR 10, CHR 10]"
proof -
  have "digits 28 = ''28''" "digits 1 = ''1''" by code_simp+
  then show ?thesis
    by (simp add: print_struct_info_def struct_sizes Let_def show_bool_def) (simp add: SensorData_def packed_class_def)
qed

lemma demo_main_succeeds:
  assumes "28 \<le> length mem"
  shows "cpp20_demo_main True 0 0 mem now = (0, Some True)"
proof -
  have len: "sizeof SensorData \<le> length mem" using assms by (simp add: struct_sizes)
  note w = stores_wellD [OF stores_well demo_fits len]
  show ?thesis
    using w(3) w(4) [of now "[]"] by (simp add: cpp20_demo_main_def from_bytes_def to_bytes_def Let_def)
qed

section \<open>The examples with host functions\<close>

text \<open>
  \<open>main\<close> of \<open>receiver.cpp\<close>: an exception that nothing catches, or the dispatcher, whatever \<open>attach\<close>
  and \<open>start\<close> return; \<open>f\<close> is its \<open>foo\<close>.
\<close>

definition cpp_receiver_main :: "nat \<Rightarrow> host_function \<Rightarrow> world \<Rightarrow> (dispatcher py \<times> world) option" where
  "cpp_receiver_main pid f w =
     (case cpp_dispatcher_new pid 16 w of
        None \<Rightarrow> None
      | Some (Inl e, w) \<Rightarrow> Some (Inl e, w)
      | Some (Inr d, w) \<Rightarrow>
     (case cpp_attach pid d ''host_function'' f 4 4 w of
        None \<Rightarrow> None
      | Some (_, d, w) \<Rightarrow> Some (Inr (snd (cpp_start d)), w)))"

text \<open>\<open>main\<close> of \<open>caller.cpp\<close>: a link that fails is an exception that nothing catches.\<close>

fun cpp_caller_main_step :: "nat \<Rightarrow> u32 \<Rightarrow> u32 \<Rightarrow> world \<Rightarrow> string + caller_pc \<Rightarrow> (string + caller_pc) \<times> world" where
  "cpp_caller_main_step pid rnd uninit w (Inr CmLink) =
     (case cpp_function_caller_new pid ''host_function'' 4 4 w of
        None \<Rightarrow> (Inr CmFault, w)
      | Some (Inl e, w) \<Rightarrow> (Inl e, w)
      | Some (Inr p, w) \<Rightarrow> (Inr (CmCall p), w))"
| "cpp_caller_main_step pid rnd uninit w (Inr (CmCall p)) =
     (case cpp_call pid p (int_bytes rnd) w of
        Blocked \<Rightarrow> (Inr (CmCall p), w)
      | Done (_, w) \<Rightarrow> (Inr (CmWait p), w))"
| "cpp_caller_main_step pid rnd uninit w (Inr (CmWait p)) =
     (case cpp_get_response pid p w of
        Blocked \<Rightarrow> (Inr (CmWait p), w)
      | Done (r, bytes, w) \<Rightarrow> (Inr (CmReturn p (if r = 0 then int_of_bytes bytes else uninit)), w))"
| "cpp_caller_main_step pid rnd uninit w (Inr (CmReturn p ret)) =
     (Inr (CmExit 0), snd (cpp_function_caller_del pid p w))"
| "cpp_caller_main_step pid rnd uninit w pc = (pc, w)"

end
