(* ===== verification/Host_Variable_Whole.thy ===== *)
theory Host_Variable_Whole
  imports Host_Variable_Progress
begin

text \<open>
  Programs that only read and write whole variables. The first \<open>R\<close> threads only read, the others
  only write, always \<open>size\<close> bytes, and everything that is written has a property \<open>P\<close> that the
  initial zeros have too: then everything that is read has it. With at most fourteen
  readers, no read is ever refused.
\<close>

section \<open>The invariant\<close>

text \<open>A reader between its call and its return, or a reader that has read.\<close>

definition reader_ok :: "(u8 list \<Rightarrow> bool) \<Rightarrow> hv_sys \<Rightarrow> hv_thread \<Rightarrow> bool" where
  "reader_ok P s th \<longleftrightarrow>
     \<not> writing (th_pc th) \<and> th_pc th \<noteq> Ret (-1) \<and> th_pc th \<noteq> Ret 1 \<and>
     (\<forall>f. th_pc th = AcqTry f \<longrightarrow> acquire_tmp f \<noteq> 0xF) \<and>
     (th_pc th \<noteq> Idle \<longrightarrow> th_op th = var_size s \<and> length (th_buf th) = var_size s) \<and>
     (th_pc th = Ret 0 \<longrightarrow> P (th_buf th))"

definition writer_ok :: "(u8 list \<Rightarrow> bool) \<Rightarrow> hv_sys \<Rightarrow> hv_thread \<Rightarrow> bool" where
  "writer_ok P s th \<longleftrightarrow>
     (at_rest (th_pc th) \<or> writing (th_pc th) \<and> th_op th = var_size s \<and> P (take (var_size s) (th_data th)))"

definition whole_inv :: "(u8 list \<Rightarrow> bool) \<Rightarrow> nat \<Rightarrow> hv_sys \<Rightarrow> bool" where
  "whole_inv P R s \<longleftrightarrow>
     hv_inv s \<and> R \<le> length (threads s) \<and> R \<le> 14 \<and> P (reg_val (reg_of s)) \<and>
     (\<forall>i v. snap_of s i = Some v \<longrightarrow> P v) \<and>
     (\<forall>i < length (threads s). if i < R then reader_ok P s (threads s ! i) else writer_ok P s (threads s ! i))"

lemma whole_invD:
  assumes "whole_inv P R s"
  shows "hv_inv s" "R \<le> length (threads s)" "R \<le> 14" "P (reg_val (reg_of s))"
    "snap_of s i = Some v \<Longrightarrow> P v" "i < R \<Longrightarrow> reader_ok P s (threads s ! i)"
    "i < length (threads s) \<Longrightarrow> R \<le> i \<Longrightarrow> writer_ok P s (threads s ! i)"
proof -
  show all: "hv_inv s" "R \<le> length (threads s)" "R \<le> 14" "P (reg_val (reg_of s))" "snap_of s i = Some v \<Longrightarrow> P v"
    using assms by (simp_all add: whole_inv_def)
  show "i < R \<Longrightarrow> reader_ok P s (threads s ! i)"
    using assms all(2) unfolding whole_inv_def by (metis order_less_le_trans)
  show "i < length (threads s) \<Longrightarrow> R \<le> i \<Longrightarrow> writer_ok P s (threads s ! i)"
    using assms unfolding whole_inv_def by (meson linorder_not_less)
qed

text \<open>Only the first \<open>R\<close> threads hold read locks, so that one of them that does not is served.\<close>

lemma whole_served:
  assumes inv: "whole_inv P R s" and i: "i < R" "read_slot (th_pc (threads s ! i)) = None"
  shows "acquire_tmp (flags s) \<noteq> 0xF"
proof -
  note I = whole_invD [OF inv]
  have "read_slot (th_pc th) = None" if "th \<in> set (drop R (threads s))" for th
  proof -
    obtain j where "j < length (threads s) - R" "th = threads s ! (R + j)"
      using \<open>th \<in> set (drop R (threads s))\<close> by (auto simp: in_set_conv_nth)
    then have "writer_ok P s th" using I(7) [of "R + j"] by auto
    then show ?thesis by (cases "th_pc th") (auto simp: writer_ok_def)
  qed
  then have "holders read_slot (drop R (threads s)) t = 0" for t
    by (auto simp: holders_def count_if_zero_iff)
  moreover have "holders read_slot (threads s) t =
      holders read_slot (take R (threads s)) t + holders read_slot (drop R (threads s)) t" for t
    unfolding holders_def count_if_append [symmetric] by simp
  moreover have "holders read_slot (take R (threads s)) t < R" for t
    using readers_less [of i "take R (threads s)" t] i I(2) by simp
  ultimately have "readers s (target_of (flags s)) < 14" using I(3) by (metis add.right_neutral order_less_le_trans)
  moreover have "cnt (flags s) (target_of (flags s)) = readers s (target_of (flags s))"
    using hv_inv_locks [OF I(1)] by (auto simp: locks_ok_def intro: word_okD(3))
  ultimately show ?thesis unfolding acquire_tmp_full by simp
qed

lemma slot_whole:
  assumes "hv_inv s" "t < 4"
  shows "take (var_size s) (slot s t) = slot s t" "length (slot s t) = var_size s"
  using length_slot [OF hv_inv_shape [OF assms(1)] assms(2)] by simp_all

lemma reader_step:
  assumes inv: "whole_inv P R s" and i: "i < R"
  shows "reader_ok P (hv_step s i) (threads (hv_step s i) ! i)"
proof -
  let ?th = "threads s ! i"
  note I = whole_invD [OF inv]
  have len: "i < length (threads s)" using i I(2) by simp
  have ok: "reader_ok P s ?th" by (rule I(6) [OF i])
  note know = hv_inv_thread [OF I(1) len, unfolded thread_ok_def]
  have load: "acquire_tmp (flags s) \<noteq> 0xF" if "read_slot (th_pc ?th) = None"
    by (rule whole_served [OF inv i that])
  have finished: "P (th_buf ?th)" if "th_pc ?th = RelTry t (flags s)" for t
  proof -
    have "P (slot s t)" using I(5) [of i "slot s t"] len that by (simp add: snap_of_def)
    moreover have "th_buf ?th = slot s t"
      using know slot_whole [OF I(1), of t] ok that by (simp add: reader_ok_def)
    ultimately show ?thesis by simp
  qed
  show ?thesis
  proof (cases "th_pc ?th")
    case (RdCopy t k)
    then show ?thesis
      using ok len copy_out_ok(1,2) [OF I(1) len RdCopy] by (auto simp: reader_ok_def hv_step_unfold)
  qed (use ok len load finished know in \<open>auto simp: reader_ok_def hv_step_unfold hv_step_threads split: if_splits\<close>)
qed

lemma writer_step:
  assumes inv: "whole_inv P R s" and i: "i < length (threads s)" "R \<le> i"
  shows "writer_ok P (hv_step s i) (threads (hv_step s i) ! i)"
proof -
  let ?th = "threads s ! i"
  note I = whole_invD [OF inv]
  have ok: "writer_ok P s ?th" by (rule I(7) [OF i])
  have "thread_ok (hv_step s i) (threads (hv_step s i) ! i)"
    using i by (intro hv_inv_thread hv_step_inv I(1)) (simp add: hv_step_threads)
  then have "th_pc (threads (hv_step s i) ! i) \<noteq> Fault" by (auto simp: thread_ok_def)
  then show ?thesis
    using ok i by (cases "th_pc ?th") (auto simp: writer_ok_def hv_step_unfold hv_step_threads split: if_splits)
qed

lemma whole_step:
  assumes inv: "whole_inv P R s" shows "whole_inv P R (hv_step s i)"
proof (cases "i < length (threads s)")
  case i: True
  note I = whole_invD [OF inv]
  let ?th = "threads s ! i"
  note sim = step_sim [OF I(1), of i]
  have published: "P v" if ev: "hv_event s (Step i) = EvPublish j v" for j v
  proof -
    obtain ts t4 where pc: "th_pc ?th = PubTry ts t4 (flags s)" and v: "v = new_value s ?th (t4 div 4)"
      using ev i by (cases "th_pc ?th") (auto split: if_splits)
    have t: "t4 div 4 < 4" using hv_inv_thread [OF I(1) i] pc by (simp add: thread_ok_def)
    have "\<not> i < R" using I(6) [of i] pc by (auto simp: reader_ok_def)
    then have "writer_ok P s ?th" using I(7) [OF i] by simp
    then show ?thesis
      using pc slot_whole(2) [OF I(1) t] by (simp add: writer_ok_def v new_value_def)
  qed
  have "P (reg_val (reg_of (hv_step s i)))"
    unfolding sim using I(4) published by (cases "hv_event s (Step i)") auto
  moreover have "P v" if "snap_of (hv_step s i) j = Some v" for j v
  proof -
    have "reg_snap (reg_of (hv_step s i)) j = Some v" using that by (simp add: reg_of_def)
    then show ?thesis
      unfolding sim using I(4,5) by (cases "hv_event s (Step i)") (auto simp: reg_of_def split: if_splits)
  qed
  moreover have "if j < R then reader_ok P (hv_step s i) (threads (hv_step s i) ! j)
      else writer_ok P (hv_step s i) (threads (hv_step s i) ! j)" if "j < length (threads s)" for j
  proof (cases "j = i")
    case True
    then show ?thesis using reader_step [OF inv] writer_step [OF inv] that by simp
  next
    case False
    then show ?thesis
      using I(6,7) [of j] that by (auto simp: reader_ok_def writer_ok_def hv_step_threads)
  qed
  ultimately show ?thesis
    using I by (simp add: whole_inv_def hv_step_inv hv_step_threads)
qed (use inv in \<open>simp add: hv_step_def\<close>)

section \<open>Calls\<close>

text \<open>The calls such a program may begin.\<close>

fun whole_call :: "(u8 list \<Rightarrow> bool) \<Rightarrow> nat \<Rightarrow> nat \<Rightarrow> hv_action \<Rightarrow> bool" where
  "whole_call P R sz (BeginRead i n buf) = (i < R \<and> n = sz \<and> length buf = sz)"
| "whole_call P R sz (BeginWrite i n bytes) = (R \<le> i \<and> n = sz \<and> P (take sz bytes))"
| "whole_call P R sz _ = True"

text \<open>An action that is not a step leaves the register and the other threads as they are.\<close>

lemma whole_quiet:
  assumes inv: "whole_inv P R s" and ev: "hv_event s a = EvNone"
    and ths: "\<And>j. j < length (threads s) \<Longrightarrow>
      threads (hv_act s a) ! j = threads s ! j \<or>
      (if j < R then reader_ok P (hv_act s a) (threads (hv_act s a) ! j)
       else writer_ok P (hv_act s a) (threads (hv_act s a) ! j))"
  shows "whole_inv P R (hv_act s a)"
proof -
  note I = whole_invD [OF inv]
  have reg: "reg_of (hv_act s a) = reg_of s" using act_sim [OF I(1), of a] ev by simp
  then have snap: "snap_of (hv_act s a) = snap_of s" by (metis reg_of_def register.select_convs(2))
  have same: "reader_ok P (hv_act s a) th = reader_ok P s th" "writer_ok P (hv_act s a) th = writer_ok P s th" for th
    by (simp_all add: reader_ok_def writer_ok_def hv_act_shape)
  have all: "\<forall>j < length (threads (hv_act s a)). if j < R then reader_ok P (hv_act s a) (threads (hv_act s a) ! j)
      else writer_ok P (hv_act s a) (threads (hv_act s a) ! j)"
    using ths I(6,7) unfolding hv_act_shape same by (metis linorder_not_less)
  show ?thesis
    unfolding whole_inv_def
    by (intro conjI all) (use I(2-5) reg snap hv_act_inv [OF I(1), of a] in \<open>simp_all add: hv_act_shape\<close>)
qed

lemma whole_act:
  assumes inv: "whole_inv P R s" and a: "whole_call P R (var_size s) a"
  shows "whole_inv P R (hv_act s a)"
proof (cases a)
  case (Step i)
  then show ?thesis using whole_step [OF inv] by simp
qed (use a in \<open>intro whole_quiet [OF inv];
      auto simp: may_begin_def nth_list_update reader_ok_def writer_ok_def\<close>)+

lemma whole_init:
  assumes "P (replicate sz 0)" "R \<le> 14" "R \<le> length procs"
  shows "whole_inv P R (hv_init no_debug sz procs)"
proof -
  let ?s = "hv_init no_debug sz procs"
  have "target_of (flags ?s) = 0" by (simp add: hv_init_def target_initial)
  then have "reg_val (reg_of ?s) = replicate sz 0"
    by (simp add: reg_of_def slot_def) (simp add: hv_init_def SHM_BUFFER_CNT_def)
  moreover have "snap_of ?s i = None" for i by (simp add: snap_of_def hv_init_def)
  ultimately show ?thesis
    using assms hv_init_inv by (auto simp: whole_inv_def hv_init_def reader_ok_def writer_ok_def)
qed

text \<open>What holds of all values that were published still holds when more could have been.\<close>

lemma whole_mono:
  assumes "whole_inv P R s" "\<And>bs. P bs \<Longrightarrow> Q bs" shows "whole_inv Q R s"
proof -
  have "reader_ok P s th \<Longrightarrow> reader_ok Q s th" "writer_ok P s th \<Longrightarrow> writer_ok Q s th" for th
    using assms(2) unfolding reader_ok_def writer_ok_def by blast+
  then show ?thesis using assms unfolding whole_inv_def by (simp split: if_splits)
qed

text \<open>A reader that has returned has read a value that was written.\<close>

lemma reader_returned:
  assumes "whole_inv P R s" "i < R" "th_pc (threads s ! i) = Ret r"
  shows "r = 0" "P (th_buf (threads s ! i))" "length (th_buf (threads s ! i)) = var_size s"
proof -
  have ok: "reader_ok P s (threads s ! i)" by (rule whole_invD(6) [OF assms(1,2)])
  show r: "r = 0"
    using hv_inv_thread [OF whole_invD(1) [OF assms(1)], of i] whole_invD(2) [OF assms(1)] assms(2,3) ok
    by (auto simp: thread_ok_def reader_ok_def)
  show "P (th_buf (threads s ! i))" "length (th_buf (threads s ! i)) = var_size s"
    using ok assms(3) r by (auto simp: reader_ok_def)
qed

end
