(* ===== verification/Integrity_Check.thy ===== *)
theory Integrity_Check
  imports Host_Variable_Whole Ipc_Logger
begin

text \<open>
  The integrity test (examples/host_variable_integrity_check): writer threads publish packs of
  random words with their exclusive or, reader processes recompute it and stop with an exit code
  as soon as a read fails or the checksum is wrong. Readers and writers run on the machine of
  Host_Variable; the theorem is that no reader ever stops.
\<close>

section \<open>Packs\<close>

definition DATA_SIZE :: nat where "DATA_SIZE = 1024"

record data_pack =
  pk_data :: "u32 list"
  pk_chksum :: u32

definition u32_bytes :: "u32 \<Rightarrow> u8 list" where
  "u32_bytes w = bytes_of 4 (ucast w)"

definition u32_of :: "u8 list \<Rightarrow> u32" where
  "u32_of bs = ucast (word_of bs)"

text \<open>The bytes of a pack, and the words of the bytes of a pack: \<open>data\<close>, then \<open>chksum\<close>.\<close>

definition pack_bytes :: "data_pack \<Rightarrow> u8 list" where
  "pack_bytes p = concat (map u32_bytes (pk_data p @ [pk_chksum p]))"

definition sizeof_pack :: nat where "sizeof_pack = 4 * (DATA_SIZE + 1)"

definition word_at :: "u8 list \<Rightarrow> nat \<Rightarrow> u32" where
  "word_at bs i = u32_of (take 4 (drop (4 * i) bs))"

text \<open>\<open>writer.c\<close>: the loop that fills a pack, with the numbers \<open>rand\<close> returns.\<close>

definition construct_pack :: "u32 list \<Rightarrow> data_pack" where
  "construct_pack rs =
     foldl (\<lambda>p r. p\<lparr>pk_data := pk_data p @ [r], pk_chksum := pk_chksum p XOR r\<rparr>)
       \<lparr>pk_data = [], pk_chksum = 0\<rparr> rs"

text \<open>\<open>reader.c\<close>: the loop over the words; the checksum field holds its result.\<close>

definition check_pack :: "u8 list \<Rightarrow> u32" where
  "check_pack bs = foldl (\<lambda>c i. c XOR word_at bs i) (word_at bs DATA_SIZE) [0..<DATA_SIZE]"

definition checked_bytes :: "u8 list \<Rightarrow> u8 list" where
  "checked_bytes bs = take (4 * DATA_SIZE) bs @ u32_bytes (check_pack bs)"

section \<open>The programs\<close>

text \<open>
  \<open>R\<close> reader processes and any number of writer threads. \<open>ic_exit\<close>: the exit codes of the
  readers that have returned from \<open>main\<close>; \<open>ic_log\<close>: what was printed about failures.
\<close>

record integrity =
  ic_sys :: hv_sys
  ic_readers :: nat
  ic_exit :: "nat \<Rightarrow> int option"
  ic_log :: "string list"

text \<open>
  One turn of a program's loop up to its next call; the calls themselves make the steps of the
  machine. The first buffer of a reader is not initialised: its bytes are an argument.
\<close>

datatype ic_action = WriterLoop nat "u32 list" | ReaderLoop nat "u8 list" | CallStep nat | ClockTick timespec

definition writer_loop :: "integrity \<Rightarrow> nat \<Rightarrow> u32 list \<Rightarrow> integrity" where
  "writer_loop s i rands =
     (let pc = th_pc (threads (ic_sys s) ! i);
          s = (case pc of Ret r \<Rightarrow> if r < 0 then s\<lparr>ic_log := ic_log s @ [''write failed !'']\<rparr> else s | _ \<Rightarrow> s)
      in s\<lparr>ic_sys := hv_act (ic_sys s) (BeginWrite i sizeof_pack (pack_bytes (construct_pack rands)))\<rparr>)"

definition reader_loop :: "integrity \<Rightarrow> nat \<Rightarrow> u8 list \<Rightarrow> integrity" where
  "reader_loop s i buf =
     (let th = threads (ic_sys s) ! i in
      case th_pc th of
        Idle \<Rightarrow> s\<lparr>ic_sys := hv_act (ic_sys s) (BeginRead i sizeof_pack buf)\<rparr>
      | Ret r \<Rightarrow>
          if r \<noteq> 0
          then s\<lparr>ic_exit := (ic_exit s)(i \<mapsto> -1), ic_log := ic_log s @ [''read failed !'']\<rparr>
          else if check_pack (th_buf th) \<noteq> 0
          then s\<lparr>ic_exit := (ic_exit s)(i \<mapsto> -2), ic_log := ic_log s @ [''chksum failed: '' @ fmt_d (sint (check_pack (th_buf th)))]\<rparr>
          else s\<lparr>ic_sys := hv_act (ic_sys s) (BeginRead i sizeof_pack (checked_bytes (th_buf th)))\<rparr>
      | _ \<Rightarrow> s)"

fun ic_act :: "integrity \<Rightarrow> ic_action \<Rightarrow> integrity" where
  "ic_act s (WriterLoop i rands) =
     (if ic_readers s \<le> i \<and> i < length (threads (ic_sys s)) \<and> at_rest (th_pc (threads (ic_sys s) ! i)) \<and>
         length rands = DATA_SIZE
      then writer_loop s i rands else s)"
| "ic_act s (ReaderLoop i buf) =
     (if i < ic_readers s \<and> ic_exit s i = None \<and> length buf = sizeof_pack then reader_loop s i buf else s)"
| "ic_act s (CallStep i) = s\<lparr>ic_sys := hv_step (ic_sys s) i\<rparr>"
| "ic_act s (ClockTick now) = s\<lparr>ic_sys := hv_act (ic_sys s) (Tick now)\<rparr>"

definition ic_init :: "bool \<Rightarrow> nat \<Rightarrow> nat list \<Rightarrow> integrity" where
  "ic_init no_debug R procs =
     \<lparr>ic_sys = hv_init no_debug sizeof_pack procs, ic_readers = R, ic_exit = Map.empty, ic_log = []\<rparr>"

section \<open>Packs keep their checksum\<close>

lemma length_u32_bytes [simp]: "length (u32_bytes w) = 4"
  by (simp add: u32_bytes_def)

lemma u32_of_bytes [simp]: "u32_of (u32_bytes w) = w"
  by (rule bit_word_eqI) (simp add: u32_of_def u32_bytes_def word_of_bytes_of bit_simps)

lemma length_concat_u32: "length (concat (map u32_bytes ws)) = 4 * length ws"
  by (induction ws) simp_all

lemma word_at_concat: "i < length ws \<Longrightarrow> word_at (concat (map u32_bytes ws)) i = ws ! i"
proof (induction ws arbitrary: i)
  case (Cons w ws)
  show ?case
  proof (cases i)
    case (Suc j)
    then show ?thesis using Cons by (simp add: word_at_def add.commute)
  qed (simp add: word_at_def)
qed simp

lemma construct_pack_alt: "construct_pack rs = \<lparr>pk_data = rs, pk_chksum = foldl (XOR) 0 rs\<rparr>"
proof -
  have "foldl (\<lambda>p r. p\<lparr>pk_data := pk_data p @ [r], pk_chksum := pk_chksum p XOR r\<rparr>)
      \<lparr>pk_data = ds, pk_chksum = c\<rparr> rs = \<lparr>pk_data = ds @ rs, pk_chksum = foldl (XOR) c rs\<rparr>" for ds c
    by (induction rs arbitrary: ds c) simp_all
  from this [of "[]" 0] show ?thesis by (simp add: construct_pack_def)
qed

lemma foldl_xor: "foldl (XOR) (a XOR c) rs = a XOR foldl (XOR) c rs" for a :: u32
  by (induction rs arbitrary: c) (simp_all add: xor.assoc)

lemma check_constructed:
  assumes "length rs = DATA_SIZE"
  shows "check_pack (pack_bytes (construct_pack rs)) = 0"
proof -
  let ?c = "foldl (XOR) 0 rs" and ?bs = "pack_bytes (construct_pack rs)"
  have bs: "?bs = concat (map u32_bytes (rs @ [?c]))" by (simp add: pack_bytes_def construct_pack_alt)
  have "word_at ?bs i = (rs @ [?c]) ! i" if "i \<le> DATA_SIZE" for i
    unfolding bs using that assms by (intro word_at_concat) simp
  then have "check_pack ?bs = foldl (\<lambda>c i. c XOR rs ! i) ?c [0..<length rs]"
    unfolding check_pack_def assms [symmetric] by (intro foldl_cong) (auto simp: nth_append)
  also have "\<dots> = foldl (XOR) ?c (map ((!) rs) [0..<length rs])" by (simp add: foldl_map)
  also have "\<dots> = ?c XOR ?c" using foldl_xor [of ?c 0 rs] by (simp add: map_nth)
  finally show ?thesis by simp
qed

definition pack_ok :: "u8 list \<Rightarrow> bool" where
  "pack_ok bs \<longleftrightarrow> check_pack bs = 0"

lemma pack_ok_zero: "pack_ok (replicate sizeof_pack 0)"
proof -
  have "word_of (replicate n 0) = 0" for n by (induction n) simp_all
  then have "word_at (replicate sizeof_pack 0) i = 0" for i
    by (simp add: word_at_def u32_of_def)
  moreover have "foldl (\<lambda>c i. c XOR 0) 0 xs = (0 :: u32)" for xs :: "nat list" by (induction xs) simp_all
  ultimately show ?thesis by (simp add: pack_ok_def check_pack_def)
qed

lemma length_pack: "length rs = DATA_SIZE \<Longrightarrow> length (pack_bytes (construct_pack rs)) = sizeof_pack"
  by (simp add: pack_bytes_def construct_pack_alt length_concat_u32 sizeof_pack_def)

lemma length_checked: "length bs = sizeof_pack \<Longrightarrow> length (checked_bytes bs) = sizeof_pack"
  by (simp add: checked_bytes_def sizeof_pack_def)

section \<open>No reader stops\<close>

definition ic_inv :: "integrity \<Rightarrow> bool" where
  "ic_inv s \<longleftrightarrow> whole_inv pack_ok (ic_readers s) (ic_sys s) \<and> var_size (ic_sys s) = sizeof_pack \<and>
     ic_exit s = Map.empty"

lemma ic_act_inv: "ic_inv s \<Longrightarrow> ic_inv (ic_act s a)"
proof -
  assume inv: "ic_inv s"
  then have W: "whole_inv pack_ok (ic_readers s) (ic_sys s)" and sz: "var_size (ic_sys s) = sizeof_pack"
    and ex: "ic_exit s = Map.empty" by (simp_all add: ic_inv_def)
  have act: "ic_inv (s'\<lparr>ic_sys := hv_act (ic_sys s) b\<rparr>)"
    if "whole_call pack_ok (ic_readers s) sizeof_pack b" "ic_readers s' = ic_readers s" "ic_exit s' = ic_exit s" for b s'
    using whole_act [OF W, of b] that sz ex by (simp add: ic_inv_def hv_act_shape)
  show ?thesis
  proof (cases a)
    case (WriterLoop i rands)
    then show ?thesis
      using inv check_constructed [of rands] length_pack [of rands]
      by (auto simp: writer_loop_def Let_def pack_ok_def simp del: hv_act.simps intro!: act split: hv_pc.split)
  next
    case (ReaderLoop i buf)
    show ?thesis
    proof (cases "i < ic_readers s")
      case True
      have ok: "reader_ok pack_ok (ic_sys s) (threads (ic_sys s) ! i)" by (rule whole_invD(6) [OF W True])
      note ret = reader_returned(1) [OF W True]
      show ?thesis
        using inv ok ret True ReaderLoop sz
        by (auto simp: reader_loop_def Let_def reader_ok_def pack_ok_def length_checked simp del: hv_act.simps
            intro!: act split: hv_pc.split)
    qed (use inv ReaderLoop in simp)
  next
    case (CallStep i)
    then show ?thesis using act [of "Step i" s] by simp
  next
    case (ClockTick now)
    then show ?thesis using act [of "Tick now" s] by simp
  qed
qed

definition ic_start :: "integrity \<Rightarrow> bool" where
  "ic_start s \<longleftrightarrow> (\<exists>no_debug R procs. R \<le> 14 \<and> R \<le> length procs \<and> s = ic_init no_debug R procs)"

interpretation ic: machine ic_act ic_start ic_inv
proof
  fix s assume "ic_start s"
  then show "ic_inv s"
    using whole_init [where P = pack_ok and sz = sizeof_pack, OF pack_ok_zero] by (auto simp: ic_start_def ic_init_def ic_inv_def hv_init_shape)
qed (rule ic_act_inv)

text \<open>
  C3: the integrity test passes. With at most fourteen readers and any number of writers, in
  every interleaving of their loops and of the steps of their calls, whatever numbers the
  writers draw, no reader ever stops: no read fails, and no checksum is wrong, not even that of
  the variable nobody has written.
\<close>

theorem integrity_check_passes:
  assumes "R \<le> 14" "R \<le> length procs"
  shows "ic_exit (run ic_act (ic_init no_debug R procs) as) = Map.empty"
proof -
  have "ic_inv (run ic_act (ic_init no_debug R procs) as)"
    using assms by (intro ic.inv_reach) (auto simp: ic_start_def)
  then show ?thesis by (simp add: ic_inv_def)
qed

theorem integrity_check_passes_witness:
  "ic_exit (run ic_act (ic_init True 1 [0, 1])
     (ClockTick \<lparr>tv_sec = 1, tv_nsec = 0\<rparr> # WriterLoop 1 (replicate DATA_SIZE 5) # replicate 4112 (CallStep 1) @
      ReaderLoop 0 (replicate sizeof_pack 7) # replicate 4112 (CallStep 0) @
      [ReaderLoop 0 (replicate sizeof_pack 7)])) = Map.empty"
  by (rule integrity_check_passes) simp_all

end
