(* ===== verification/Example_Runs.thy ===== *)
theory Example_Runs
  imports Integrity_Check Example_Variables
begin

text \<open>
  The example programs with host variables at work: their main loops on the machine of
  Host_Variable, in any number of processes and any interleaving. A program makes a turn
  between two calls of the library; the calls make the steps of the machine. Sleeping has no model.
\<close>

section \<open>The programs with an int\<close>

text \<open>
  Processes with numbers below \<open>ie_readers\<close> run a reader, the others a writer; \<open>ie_cpp\<close> says
  which of them are the C++ programs. \<open>ie_out\<close> is what a process has printed, \<open>ie_exit\<close> the exit
  code of those that have returned from \<open>main\<close>.
\<close>

record int_example =
  ie_sys :: hv_sys
  ie_readers :: nat
  ie_cpp :: "nat \<Rightarrow> bool"
  ie_out :: "nat \<Rightarrow> string list"
  ie_exit :: "nat \<Rightarrow> int option"

definition ie_print :: "nat \<Rightarrow> string list \<Rightarrow> int_example \<Rightarrow> int_example" where
  "ie_print i lines s = s\<lparr>ie_out := (ie_out s)(i := ie_out s i @ lines)\<rparr>"

definition ie_begin :: "hv_action \<Rightarrow> int_example \<Rightarrow> int_example" where
  "ie_begin a s = s\<lparr>ie_sys := hv_act (ie_sys s) a\<rparr>"

text \<open>
  One turn of a program: from the start, or from the return of a call, to the next call.
  \<open>linked\<close>: whether \<open>link_host_variable\<close> gave a variable. The C++ programs are
  those whose constructor has not thrown.
\<close>

definition int_reader_main :: "int_example \<Rightarrow> nat \<Rightarrow> bool \<Rightarrow> int_example" where
  "int_reader_main s i linked =
     (let th = threads (ie_sys s) ! i in
      case th_pc th of
        Idle \<Rightarrow>
          if \<not> linked then (ie_print i [''can not link to test: ''] s)\<lparr>ie_exit := (ie_exit s)(i \<mapsto> -1)\<rparr>
          else ie_begin (BeginRead i 4 (int_bytes_of 0)) (ie_print i [''Reader started. ''] s)
      | Ret r \<Rightarrow> ie_begin (BeginRead i 4 (int_bytes_of 0)) (ie_print i [int_reader_turn r (th_buf th)] s)
      | _ \<Rightarrow> s)"

definition cpp_int_reader_main :: "int_example \<Rightarrow> nat \<Rightarrow> int_example" where
  "cpp_int_reader_main s i =
     (let th = threads (ie_sys s) ! i in
      case th_pc th of
        Idle \<Rightarrow> ie_begin (BeginRead i 4 (int_bytes_of 0)) (ie_print i [''Reader started''] s)
      | Ret r \<Rightarrow> ie_begin (BeginRead i 4 (int_bytes_of 0)) (ie_print i [cpp_int_reader_turn r (th_buf th)] s)
      | _ \<Rightarrow> s)"

definition int_writer_turn :: "int_example \<Rightarrow> nat \<Rightarrow> bool \<Rightarrow> int_example" where
  "int_writer_turn s i linked =
     (let leave = (\<lambda>(code, lines). (ie_print i lines s)\<lparr>ie_exit := (ie_exit s)(i \<mapsto> code)\<rparr>) in
      case th_pc (threads (ie_sys s) ! i) of
        Idle \<Rightarrow> if \<not> linked then leave (int_writer_main False 0) else ie_begin (BeginWrite i 4 (int_bytes_of 100)) s
      | Ret r \<Rightarrow> leave (int_writer_main True r)
      | _ \<Rightarrow> s)"

definition cpp_int_writer_turn :: "int_example \<Rightarrow> nat \<Rightarrow> int_example" where
  "cpp_int_writer_turn s i =
     (case th_pc (threads (ie_sys s) ! i) of
        Idle \<Rightarrow> ie_begin (BeginWrite i 4 (int_bytes_of 100)) s
      | Ret r \<Rightarrow> (ie_print i [cpp_int_writer_output r] s)\<lparr>ie_exit := (ie_exit s)(i \<mapsto> 0)\<rparr>
      | _ \<Rightarrow> s)"

datatype ie_action = IntTurn nat bool | IntStep nat | IntClock timespec

fun ie_act :: "int_example \<Rightarrow> ie_action \<Rightarrow> int_example" where
  "ie_act s (IntTurn i linked) =
     (if i < length (threads (ie_sys s)) \<and> ie_exit s i = None
      then if i < ie_readers s
        then (if ie_cpp s i then cpp_int_reader_main s i else int_reader_main s i linked)
        else (if ie_cpp s i then cpp_int_writer_turn s i else int_writer_turn s i linked)
      else s)"
| "ie_act s (IntStep i) = ie_begin (Step i) s"
| "ie_act s (IntClock now) = ie_begin (Tick now) s"

definition ie_init :: "bool \<Rightarrow> nat \<Rightarrow> (nat \<Rightarrow> bool) \<Rightarrow> nat list \<Rightarrow> int_example" where
  "ie_init no_debug R cpp procs =
     \<lparr>ie_sys = hv_init no_debug 4 procs, ie_readers = R, ie_cpp = cpp, ie_out = (\<lambda>_. []), ie_exit = Map.empty\<rparr>"

text \<open>What the programs print.\<close>

definition reader_lines :: "string set" where
  "reader_lines = {''can not link to test: '', ''Reader started. '', ''Reader started'', ''data = 0'', ''data = 100''}"

definition writer_lines :: "string set" where
  "writer_lines = {''can not link to test: '', ''Write data = 100'', ''can not write: ''}"

definition int_ok :: "u8 list \<Rightarrow> bool" where
  "int_ok bs \<longleftrightarrow> bs = int_bytes_of 0 \<or> bs = int_bytes_of 100"

definition ie_inv :: "int_example \<Rightarrow> bool" where
  "ie_inv s \<longleftrightarrow> whole_inv int_ok (ie_readers s) (ie_sys s) \<and> var_size (ie_sys s) = 4 \<and>
     (\<forall>i. set (ie_out s i) \<subseteq> (if i < ie_readers s then reader_lines else writer_lines))"

lemma int_bytes_values: "int_bytes_of 0 = [0, 0, 0, 0]" "int_bytes_of 100 = [100, 0, 0, 0]"
  by code_simp+

lemma int_ok_line: "int_ok bs \<Longrightarrow> ''data = '' @ fmt_d (int_at bs) \<in> reader_lines"
proof -
  have "int_at [0, 0, 0, 0] = 0" "int_at [100, 0, 0, 0] = 100" "fmt_d 0 = ''0''" "fmt_d 100 = ''100''" by code_simp+
  then show "int_ok bs \<Longrightarrow> ?thesis" by (auto simp: int_ok_def int_bytes_values reader_lines_def)
qed

lemma writer_lines_main: "set (snd (int_writer_main linked r)) \<subseteq> writer_lines"
proof -
  have "''Write data = '' @ fmt_d 100 = ''Write data = 100''" by code_simp
  then show ?thesis by (simp add: int_writer_main_def writer_lines_def)
qed

lemma ie_print_inv:
  assumes "ie_inv s" "set lines \<subseteq> (if i < ie_readers s then reader_lines else writer_lines)"
  shows "ie_inv (ie_print i lines s)" "ie_inv ((ie_print i lines s)\<lparr>ie_exit := e\<rparr>)"
  using assms by (auto simp: ie_inv_def ie_print_def split: if_splits)

lemma ie_begin_inv:
  assumes "ie_inv s" "whole_call int_ok (ie_readers s) 4 a"
  shows "ie_inv (ie_begin a s)"
  using assms whole_act [of int_ok "ie_readers s" "ie_sys s" a] by (auto simp: ie_inv_def ie_begin_def hv_act_shape)

lemma ie_act_inv:
  assumes inv: "ie_inv s" shows "ie_inv (ie_act s a)"
proof (cases a)
  case (IntTurn i linked)
  have W: "whole_inv int_ok (ie_readers s) (ie_sys s)" using inv by (simp add: ie_inv_def)
  have keep: "ie_readers (ie_print i lines s) = ie_readers s" for lines by (simp add: ie_print_def)
  have lines: "''Reader started'' \<in> reader_lines" "''Reader started. '' \<in> reader_lines"
      "''can not link to test: '' \<in> reader_lines" "cpp_int_writer_output r \<in> writer_lines" for r
    by (simp_all add: reader_lines_def writer_lines_def cpp_int_writer_output_def)
  have reads: "ie_inv (ie_begin (BeginRead i 4 (int_bytes_of 0)) (ie_print i [l] s))" if "l \<in> reader_lines" "i < ie_readers s" for l
    using that by (intro ie_begin_inv ie_print_inv(1) [OF inv]) (simp_all add: keep int_bytes_values)
  have writes: "ie_inv (ie_begin (BeginWrite i 4 (int_bytes_of 100)) s)" if "\<not> i < ie_readers s"
    using that by (intro ie_begin_inv [OF inv]) (simp_all add: int_ok_def int_bytes_values)
  show ?thesis
  proof (cases "i < length (threads (ie_sys s)) \<and> ie_exit s i = None")
    case True
    show ?thesis
    proof (cases "i < ie_readers s")
      case R: True
      have line: "int_reader_turn r (th_buf (threads (ie_sys s) ! i)) \<in> reader_lines"
          "cpp_int_reader_turn r (th_buf (threads (ie_sys s) ! i)) \<in> reader_lines"
        if "th_pc (threads (ie_sys s) ! i) = Ret r" for r
        using reader_returned(1,2) [OF W R that] int_ok_line by (simp_all add: int_reader_turn_def cpp_int_reader_turn_def)
      show ?thesis
        using True R IntTurn inv line lines reads
        by (auto simp: int_reader_main_def cpp_int_reader_main_def Let_def intro!: ie_print_inv(2) split: hv_pc.split)
    next
      case R: False
      show ?thesis
        using True R IntTurn inv lines writes writer_lines_main
        by (auto simp: int_writer_turn_def cpp_int_writer_turn_def Let_def case_prod_beta intro!: ie_print_inv(2)
            dest: subsetD [OF writer_lines_main] split: hv_pc.split)
    qed
  qed (use inv IntTurn in auto)
qed (use inv in \<open>auto intro!: ie_begin_inv\<close>)

definition ie_start :: "int_example \<Rightarrow> bool" where
  "ie_start s \<longleftrightarrow> (\<exists>no_debug R cpp procs. R \<le> 14 \<and> R \<le> length procs \<and> s = ie_init no_debug R cpp procs)"

interpretation ie: machine ie_act ie_start ie_inv
proof
  fix s assume "ie_start s"
  moreover have "int_ok (replicate 4 0)" by (simp add: int_ok_def int_bytes_values eval_nat_numeral)
  ultimately show "ie_inv s"
    using whole_init [where P = int_ok and sz = 4] by (auto simp: ie_start_def ie_init_def ie_inv_def hv_init_shape)
qed (rule ie_act_inv)

text \<open>
  The programs with an int print what they should. With at most fourteen readers, in C or in C++, and any
  number of writers, in every interleaving, a reader prints nothing but its start, the 0 of a variable that
  was not written yet and the 100 of the writers: no read fails, and no other number appears.
\<close>

lemma int_examples_print:
  assumes "R \<le> 14" "R \<le> length procs"
  shows "set (ie_out (run ie_act (ie_init no_debug R cpp procs) as) i) \<subseteq> (if i < R then reader_lines else writer_lines)"
proof -
  have "ie_inv (run ie_act (ie_init no_debug R cpp procs) as)"
    using assms by (intro ie.inv_reach) (auto simp: ie_start_def)
  moreover have "ie_readers (run ie_act s as) = ie_readers s" for s
  proof (induction as arbitrary: s)
    case (Cons a as)
    have "ie_readers (ie_act s a) = ie_readers s"
      by (cases a) (auto simp: ie_begin_def ie_print_def int_reader_main_def cpp_int_reader_main_def int_writer_turn_def
          cpp_int_writer_turn_def Let_def split: hv_pc.split prod.split)
    then show ?case using Cons.IH by simp
  qed simp
  ultimately show ?thesis by (simp add: ie_inv_def ie_init_def)
qed

definition demo_ints :: "ie_action list" where
  "demo_ints =
     IntTurn 0 True # replicate 20 (IntStep 0) @ IntTurn 0 True # replicate 20 (IntStep 0) @
     IntClock \<lparr>tv_sec = 1, tv_nsec = 0\<rparr> # IntTurn 1 True # replicate 20 (IntStep 1) @
     [IntTurn 1 True, IntTurn 0 True] @ replicate 20 (IntStep 0) @ [IntTurn 0 True]"

lemma int_examples_print_witness:
  "ie_out (run ie_act (ie_init True 1 (\<lambda>_. False) [0, 1]) demo_ints) 0 =
     [''Reader started. '', ''data = 0'', ''data = 0'', ''data = 100''] \<and>
   set (ie_out (run ie_act (ie_init True 1 (\<lambda>_. False) [0, 1]) demo_ints) 0) \<subseteq> reader_lines"
proof
  show "ie_out (run ie_act (ie_init True 1 (\<lambda>_. False) [0, 1]) demo_ints) 0 =
     [''Reader started. '', ''data = 0'', ''data = 0'', ''data = 100'']" by code_simp
  have "set (ie_out (run ie_act (ie_init True 1 (\<lambda>_. False) [0, 1]) demo_ints) 0) \<subseteq> (if 0 < (1::nat) then reader_lines else writer_lines)"
    by (rule int_examples_print) simp_all
  then show "set (ie_out (run ie_act (ie_init True 1 (\<lambda>_. False) [0, 1]) demo_ints) 0) \<subseteq> reader_lines" by simp
qed

section \<open>The latency test\<close>

text \<open>
  \<open>writer.c\<close> publishes the time of its clock with a payload of zeros, \<open>reader.c\<close> prints the delay to its own
  clock. Processes with numbers below \<open>lt_readers\<close> are readers. \<open>lt_delays\<close>: the two delays a reader prints in
  every turn, in nanoseconds; \<open>lt_sent\<close> and \<open>lt_seen\<close>: what the clocks of writers and readers gave.
\<close>

definition PAYLOAD_SIZE :: nat where "PAYLOAD_SIZE = 1024"

definition latency_pack :: "timespec \<Rightarrow> u8 list" where
  "latency_pack ts = bytes_of 8 (tv_sec ts) @ bytes_of 8 (tv_nsec ts) @ replicate PAYLOAD_SIZE 0"

definition sizeof_latency_pack :: nat where "sizeof_latency_pack = 16 + PAYLOAD_SIZE"

definition sent_time :: "u8 list \<Rightarrow> timespec" where
  "sent_time bs = \<lparr>tv_sec = word_of (take 8 bs), tv_nsec = word_of (take 8 (drop 8 bs))\<rparr>"

record latency_test =
  lt_sys :: hv_sys
  lt_readers :: nat
  lt_delays :: "nat \<Rightarrow> (int \<times> int) list"
  lt_exit :: "nat \<Rightarrow> int option"
  lt_sent :: "timespec list"
  lt_seen :: "timespec list"

definition lt_begin :: "hv_action \<Rightarrow> latency_test \<Rightarrow> latency_test" where
  "lt_begin a s = s\<lparr>lt_sys := hv_act (lt_sys s) a\<rparr>"

text \<open>No program looks at the result of a call. The buffer of the reader is a global variable, that is zeros at first.\<close>

definition latency_writer_turn :: "latency_test \<Rightarrow> nat \<Rightarrow> timespec \<Rightarrow> latency_test" where
  "latency_writer_turn s i now =
     (case th_pc (threads (lt_sys s) ! i) of
        Idle \<Rightarrow> lt_begin (BeginWrite i sizeof_latency_pack (latency_pack now)) (s\<lparr>lt_sent := now # lt_sent s\<rparr>)
      | Ret r \<Rightarrow> lt_begin (BeginWrite i sizeof_latency_pack (latency_pack now)) (s\<lparr>lt_sent := now # lt_sent s\<rparr>)
      | _ \<Rightarrow> s)"

definition latency_reader_turn :: "latency_test \<Rightarrow> nat \<Rightarrow> bool \<Rightarrow> timespec \<times> timespec \<times> timespec \<Rightarrow> latency_test" where
  "latency_reader_turn s i malloc_ok clocks =
     (let th = threads (lt_sys s) ! i; (ts, ts1, ns1) = clocks in
      case th_pc th of
        Idle \<Rightarrow>
          if \<not> malloc_ok then s\<lparr>lt_exit := (lt_exit s)(i \<mapsto> -1)\<rparr>
          else lt_begin (BeginRead i sizeof_latency_pack (replicate sizeof_latency_pack 0)) s
      | Ret r \<Rightarrow>
          lt_begin (BeginRead i sizeof_latency_pack (th_buf th))
            (s\<lparr>lt_seen := ts # lt_seen s,
               lt_delays := (lt_delays s)(i := lt_delays s i @
                 [(ipc_delay (sent_time (th_buf th)) ts, sint (tv_nsec ns1) - sint (tv_nsec ts1))])\<rparr>)
      | _ \<Rightarrow> s)"

datatype lt_action =
  LtWriter nat timespec | LtReader nat bool "timespec \<times> timespec \<times> timespec" | LtStep nat | LtClock timespec

fun lt_act :: "latency_test \<Rightarrow> lt_action \<Rightarrow> latency_test" where
  "lt_act s (LtWriter i now) =
     (if lt_readers s \<le> i \<and> i < length (threads (lt_sys s)) then latency_writer_turn s i now else s)"
| "lt_act s (LtReader i malloc_ok clocks) =
     (if i < lt_readers s \<and> lt_exit s i = None then latency_reader_turn s i malloc_ok clocks else s)"
| "lt_act s (LtStep i) = lt_begin (Step i) s"
| "lt_act s (LtClock now) = lt_begin (Tick now) s"

definition lt_init :: "bool \<Rightarrow> nat \<Rightarrow> nat list \<Rightarrow> latency_test" where
  "lt_init no_debug R procs =
     \<lparr>lt_sys = hv_init no_debug sizeof_latency_pack procs, lt_readers = R, lt_delays = (\<lambda>_. []), lt_exit = Map.empty,
      lt_sent = [], lt_seen = []\<rparr>"

text \<open>A pack that was sent, or the zeros of a variable that was not written yet.\<close>

definition never :: timespec where "never = \<lparr>tv_sec = 0, tv_nsec = 0\<rparr>"

definition pack_sent :: "timespec list \<Rightarrow> u8 list \<Rightarrow> bool" where
  "pack_sent sent bs \<longleftrightarrow> (\<exists>ts \<in> insert never (set sent). bs = latency_pack ts)"

definition lt_inv :: "latency_test \<Rightarrow> bool" where
  "lt_inv s \<longleftrightarrow> whole_inv (pack_sent (lt_sent s)) (lt_readers s) (lt_sys s) \<and>
     var_size (lt_sys s) = sizeof_latency_pack \<and>
     (\<forall>i. \<forall>(d, d') \<in> set (lt_delays s i).
        \<exists>ts \<in> insert never (set (lt_sent s)). \<exists>now \<in> set (lt_seen s). d = ipc_delay ts now)"

lemma sent_time_pack: "sent_time (latency_pack ts) = ts"
  by (simp add: sent_time_def latency_pack_def word_of_bytes_of take_bit_word_eq_self)

lemma zero_pack: "latency_pack never = replicate sizeof_latency_pack 0"
  by (simp add: latency_pack_def never_def sizeof_latency_pack_def flip: replicate_add)

lemma length_latency_pack: "length (latency_pack ts) = sizeof_latency_pack"
  by (simp add: latency_pack_def sizeof_latency_pack_def)

lemma lt_begin_inv:
  assumes "lt_inv s" "whole_call (pack_sent (lt_sent s)) (lt_readers s) sizeof_latency_pack a"
  shows "lt_inv (lt_begin a s)"
  using assms whole_act [of "pack_sent (lt_sent s)" "lt_readers s" "lt_sys s" a] by (auto simp: lt_inv_def lt_begin_def hv_act_shape)

lemma lt_sent_inv: "lt_inv s \<Longrightarrow> lt_inv (s\<lparr>lt_sent := now # lt_sent s\<rparr>)"
  by (auto simp: lt_inv_def pack_sent_def elim: whole_mono)

lemma lt_log_inv:
  assumes inv: "lt_inv s" and t: "t \<in> insert never (set (lt_sent s))"
  shows "lt_inv (s\<lparr>lt_seen := now # lt_seen s, lt_delays := (lt_delays s)(i := lt_delays s i @ [(ipc_delay t now, d)])\<rparr>)"
proof -
  let ?ok = "\<lambda>seen (d, _). \<exists>ts \<in> insert never (set (lt_sent s)). \<exists>now \<in> set seen. d = ipc_delay ts now"
  have "\<forall>e \<in> set (lt_delays s j). ?ok (lt_seen s) e" for j using inv by (auto simp: lt_inv_def)
  then have old: "\<forall>e \<in> set (lt_delays s j). ?ok (now # lt_seen s) e" for j by fastforce
  have new: "?ok (now # lt_seen s) (ipc_delay t now, d)" using t unfolding prod.case by (intro bexI [of _ t] bexI [of _ now]) simp_all
  have "\<forall>e \<in> set (((lt_delays s)(i := lt_delays s i @ [(ipc_delay t now, d)])) j). ?ok (now # lt_seen s) e" for j
    using old [of j] new by simp
  then show ?thesis using inv unfolding lt_inv_def by simp
qed

lemma lt_act_inv:
  assumes inv: "lt_inv s" shows "lt_inv (lt_act s a)"
proof (cases a)
  case (LtWriter i now)
  have "pack_sent (lt_sent (s\<lparr>lt_sent := now # lt_sent s\<rparr>)) (take sizeof_latency_pack (latency_pack now))"
    by (auto simp: pack_sent_def length_latency_pack)
  then have "lt_inv (lt_begin (BeginWrite i sizeof_latency_pack (latency_pack now)) (s\<lparr>lt_sent := now # lt_sent s\<rparr>))"
    if "lt_readers s \<le> i" using that by (intro lt_begin_inv lt_sent_inv [OF inv]) simp
  then show ?thesis using inv LtWriter by (auto simp: latency_writer_turn_def split: hv_pc.split)
next
  case (LtReader i malloc_ok clocks)
  obtain ts ts1 ns1 where c: "clocks = (ts, ts1, ns1)" by (cases clocks)
  have W: "whole_inv (pack_sent (lt_sent s)) (lt_readers s) (lt_sys s)" using inv by (simp add: lt_inv_def)
  show ?thesis
  proof (cases "i < lt_readers s \<and> lt_exit s i = None")
    case True
    let ?buf = "th_buf (threads (lt_sys s) ! i)"
    have "lt_inv (lt_begin (BeginRead i sizeof_latency_pack ?buf)
        (s\<lparr>lt_seen := ts # lt_seen s, lt_delays := (lt_delays s)(i := lt_delays s i @ [(ipc_delay (sent_time ?buf) ts, d)])\<rparr>))"
      if "th_pc (threads (lt_sys s) ! i) = Ret r" for r d
    proof -
      note B = reader_returned(2,3) [OF W conjunct1 [OF True] that]
      have "sent_time ?buf \<in> insert never (set (lt_sent s))"
        using B(1) by (auto simp: pack_sent_def sent_time_pack)
      then show ?thesis
        using B(2) True inv by (intro lt_begin_inv lt_log_inv [OF inv]) (simp_all add: lt_inv_def)
    qed
    moreover have "lt_inv (s\<lparr>lt_exit := e\<rparr>)" for e using inv by (simp add: lt_inv_def)
    moreover have "lt_inv (lt_begin (BeginRead i sizeof_latency_pack (replicate sizeof_latency_pack 0)) s)"
      using inv True by (intro lt_begin_inv) simp_all
    ultimately show ?thesis
      using inv True LtReader c by (auto simp: latency_reader_turn_def Let_def split: hv_pc.split)
  qed (use inv LtReader in auto)
qed (use inv in \<open>auto intro!: lt_begin_inv\<close>)

definition lt_start :: "latency_test \<Rightarrow> bool" where
  "lt_start s \<longleftrightarrow> (\<exists>no_debug R procs. R \<le> 14 \<and> R \<le> length procs \<and> s = lt_init no_debug R procs)"

interpretation lt: machine lt_act lt_start lt_inv
proof
  fix s assume "lt_start s"
  moreover have "pack_sent [] (replicate sizeof_latency_pack 0)" by (simp add: pack_sent_def zero_pack)
  ultimately show "lt_inv s"
    using whole_init [where P = "pack_sent []" and sz = sizeof_latency_pack]
    by (auto simp: lt_start_def lt_init_def lt_inv_def hv_init_shape)
qed (rule lt_act_inv)

text \<open>
  The latency test measures what it says, modulo one second: with at most fourteen readers, in every
  interleaving, every delay that is printed is the one between the clock of the reader and a time that some
  writer has sent (or zero, as long as nobody has written): no time is a mixture of two.
\<close>

lemma latency_test_delays:
  assumes "R \<le> 14" "R \<le> length procs" and s: "s = run lt_act (lt_init no_debug R procs) as"
    and "(d, d') \<in> set (lt_delays s i)"
  shows "\<exists>ts \<in> insert never (set (lt_sent s)). \<exists>now \<in> set (lt_seen s). d = ipc_delay ts now"
proof -
  have "lt_inv s" unfolding s using assms(1,2) by (intro lt.inv_reach) (auto simp: lt_start_def)
  then show ?thesis using assms(4) by (auto simp: lt_inv_def)
qed

section \<open>The programs with a struct\<close>

text \<open>
  Their calls leave the end of the variable alone (\<open>operate_size\<close> of \<open>total_size\<close> bytes). The text of a
  line shows the fields as \<open>%d\<close> and \<open>%s\<close> do; \<open>mem\<close> is what \<open>malloc\<close> gave to the process.
\<close>

definition show_chars :: "u8 list \<Rightarrow> string" where
  "show_chars bs = map (\<lambda>b. char_of (unat b)) bs"

definition struct_line :: "string \<Rightarrow> u8 list \<Rightarrow> string" where
  "struct_line what buf =
     (case struct_reader_prints buf of (x, y, appendix, fixed) \<Rightarrow>
        what @ '' data = {'' @ fmt_d x @ '', '' @ show_chars y @ '', '' @ show_chars appendix @ '', '' @ show_chars fixed @ ''}'')"

record struct_example =
  se_sys :: hv_sys
  se_out :: "nat \<Rightarrow> string list"
  se_exit :: "nat \<Rightarrow> int option"

definition se_print :: "nat \<Rightarrow> string list \<Rightarrow> struct_example \<Rightarrow> struct_example" where
  "se_print i lines s = s\<lparr>se_out := (se_out s)(i := se_out s i @ lines)\<rparr>"

definition se_begin :: "hv_action \<Rightarrow> struct_example \<Rightarrow> struct_example" where
  "se_begin a s = s\<lparr>se_sys := hv_act (se_sys s) a\<rparr>"

definition struct_writer_turn :: "struct_example \<Rightarrow> nat \<Rightarrow> u8 list \<Rightarrow> bool \<Rightarrow> struct_example" where
  "struct_writer_turn s i mem linked =
     (let th = threads (se_sys s) ! i;
          leave = (\<lambda>code line. (se_print i [line] s)\<lparr>se_exit := (se_exit s)(i \<mapsto> code)\<rparr>) in
      case th_pc th of
        Idle \<Rightarrow>
          if \<not> linked then leave (-1) ''can not link to test: ''
          else (case struct_writer_call mem of (bytes, sz, op) \<Rightarrow> se_begin (BeginWrite i op bytes) s)
      | Ret r \<Rightarrow> leave 0 (if r = 0 then struct_line ''Write'' (th_data th) else ''can not write: '')
      | _ \<Rightarrow> s)"

definition struct_reader_turn :: "struct_example \<Rightarrow> nat \<Rightarrow> u8 list \<Rightarrow> bool \<Rightarrow> struct_example" where
  "struct_reader_turn s i mem linked =
     (let th = threads (se_sys s) ! i in
      case th_pc th of
        Idle \<Rightarrow>
          if \<not> linked then (se_print i [''can not link to test: ''] s)\<lparr>se_exit := (se_exit s)(i \<mapsto> -1)\<rparr>
          else (case struct_reader_call (struct_reader_data mem) of (buf, sz, op) \<Rightarrow>
            se_begin (BeginRead i op buf)
              (se_print i [''Reader started. '', ''at '' @ fmt_d (int (OFF_appendix + 16)), struct_line ''Prepared'' buf] s))
      | Ret r \<Rightarrow>
          (case struct_reader_call (th_buf th) of (buf, sz, op) \<Rightarrow>
            se_begin (BeginRead i op buf)
              (se_print i [if r = 0 then struct_line ''Read'' (th_buf th) else ''Can not read data''] s))
      | _ \<Rightarrow> s)"

lemma struct_line_read:
  assumes "struct_reader_prints buf = (100, chars ''struct'', chars ''change'', chars ''fixed'')"
  shows "struct_line what buf = what @ '' data = {100, struct, change, fixed}''"
proof -
  have "show_chars (chars ''struct'') = ''struct''" "show_chars (chars ''change'') = ''change''"
      "show_chars (chars ''fixed'') = ''fixed''" "fmt_d 100 = ''100''"
    by code_simp+
  then show ?thesis by (simp add: struct_line_def assms)
qed

text \<open>
  A reader whose first call follows a call of the writer prints what the writer has sent and, from
  the part that is not sent, its own text.
\<close>

lemma struct_example_line:
  assumes s: "se_sys s = hv_run (hv_init no_debug total_size procs) as"
    and rest: "\<forall>th \<in> set (threads (se_sys s)). at_rest (th_pc th)"
    and ij: "i < length procs" "j < length procs" "i \<noteq> j"
    and start: "th_pc (threads (se_sys s) ! i) = Idle" "th_pc (threads (se_sys s) ! j) = Idle"
    and newer: "timestamps (se_sys s) ! target_of (flags (se_sys s)) < get_compressed_timestamp (boot_clock (se_sys s))"
    and mem: "length mem = total_size" "length mem' = total_size"
    and s1: "s1 = (\<lambda>s. s\<lparr>se_sys := hv_run (se_sys s) (replicate (operate_size + 12) (Step i))\<rparr>) (struct_writer_turn s i mem True)"
    and s2: "s2 = (\<lambda>s. s\<lparr>se_sys := hv_run (se_sys s) (replicate (operate_size + 12) (Step j))\<rparr>) (struct_reader_turn s1 j mem' True)"
    and s3: "s3 = struct_reader_turn s2 j mem' True"
  shows "last (se_out s3 j) = ''Read data = {100, struct, change, fixed}''"
proof -
  note C = struct_writer_call_def struct_reader_call_def
  have 1: "se_sys s1 = hv_run (se_sys s) (BeginWrite i operate_size (struct_writer_data mem) # replicate (operate_size + 12) (Step i))"
    using start(1) by (simp add: s1 struct_writer_turn_def se_begin_def C Let_def)
  have other: "threads (hv_run t (replicate k (Step i))) ! j = threads t ! j" for t k
    by (induction k arbitrary: t) (use ij(3) in \<open>simp_all add: hv_step_threads\<close>)
  have "threads (se_sys s1) ! j = threads (se_sys s) ! j"
    using ij(3) by (simp add: 1 other)
  then have 2: "se_sys s2 = hv_run (se_sys s1) (BeginRead j operate_size (struct_reader_data mem') # replicate (operate_size + 12) (Step j))"
    using start(2) by (simp add: s2 struct_reader_turn_def se_begin_def se_print_def C Let_def)
  note P = struct_example_prints [OF s rest ij(1,2) newer mem _ _ 1 2, of total_size total_size]
  have "th_pc (threads (se_sys s2) ! j) = Ret 0"
      "struct_reader_prints (th_buf (threads (se_sys s2) ! j)) = (100, chars ''struct'', chars ''change'', chars ''fixed'')"
    using P by (simp_all add: C)
  then show ?thesis
    using struct_line_read by (simp add: s3 struct_reader_turn_def se_begin_def se_print_def C Let_def)
qed

end
