(* ===== verification/Spec2Isabelle.thy ===== *)
theory Spec2Isabelle
  imports Host_Variable_Props Host_Variable_Progress Host_Variable_Time Host_Variable_Link_Share
    Signal_Guard Dispatcher_Group_Props Language_Props Python_Props Cpp_Wrapper Example_Runs
begin

text \<open>
  A verification development for the robot-ipc library: host variables in shared memory,
  host functions over FIFOs, and their wrappers for C++ and Python.

  \<^bold>\<open>The program.\<close> A host variable (src/host_variable.c) is a shared memory object with four
  buffers and one 64-bit word that holds the number of the current buffer and the lock
  counts of all of them; readers and writers in any process use it without waiting for each
  other. A host function (src/host_function_caller.c, src/host_function_receiver.c) has a
  request and a response FIFO in /tmp/robot_ipc; a dispatcher serves the functions that are
  attached to it in a thread of its own (the daemon). The bindings for Python
  (src/python_bindings.cpp) and C++ (include/robot_ipc.hpp) call these functions, and the Python
  package (src/robot_ipc/robot_ipc.py) sends Python objects through its bindings. The logger
  (src/robot_ipc_logger.c) stands alone. The programs under examples/ use all of them.

  \<^bold>\<open>The theories.\<close>
  \<^item> Ipc_Prelude: machine words, lists updated at one index, words as bytes, runs of
    machines; the locales \<open>machine\<close> (an invariant of all runs) and \<open>simulation\<close> (a machine that
    implements an abstract one).
  \<^item> Flag_Word: the expressions on the lock word, and what they do to the four lock counts
    and the target.
  \<^item> Host_Variable: \<open>read_host_variable\<close> and \<open>write_host_variable\<close> as a machine with one step
    for every atomic action, for any number of threads. Host_Variable_Inv: its invariant.
    Host_Variable_Spec: the abstract register, and the refinement. Host_Variable_Props,
    Host_Variable_Progress, Host_Variable_Time: consistency of reads, exclusion of writers,
    refused calls, termination of calls that run alone, timestamps. Host_Variable_Whole: an
    invariant for programs that read and write whole variables.
  \<^item> Shm_Layout: the offsets of \<open>struct _s_host_variable\<close> and the stores of its
    initialisation. Host_Variable_Link: \<open>link_host_variable\<close> and \<open>unlink_host_variable\<close> as a
    machine with one step for every system call, for any number of processes, with failing
    calls; Host_Variable_Link_Inv, _Props, _Share: its invariant and properties.
  \<^item> Signal_Guard: the SIGINT handlers of debug builds (\<open>__handler_wrap\<close>).
  \<^item> Ipc_Logger: levels, lines and the error codes of robot_ipc_constant.h.
  \<^item> Ipc_Posix: what the host functions use of the system: descriptor tables (the locale
    \<open>fd_table\<close>), directories, FIFOs, pipes, epoll, errno, allocation; frame lemmas.
  \<^item> Function_Caller and Function_Receiver: one definition for every function of the two C
    files; the daemon has one step for every system call. Function_Receiver_Props: what
    attaching and creating do.
  \<^item> Message_Queue: a pipe as a queue of messages of one size (the locale \<open>message_queue\<close>).
  \<^item> Function_Service: callers, FIFOs, dispatcher and daemon as one step relation, with
    the histories of all calls; _Inv, _Steps, _Daemon: its invariant, _Props: its properties, _Heap: its
    account of the heap, _Demo: a concrete run for the witnesses.
  \<^item> Dispatcher_Group, _Props: several dispatchers of one process that serve the same names (as in
    examples/host_function_latency_test), with the steps of Function_Service; the service is
    the group of one dispatcher.
  \<^item> Language_Wrappers, Language_Props: the classes of the bindings, and the interpreter lock
    of a Python process that has a dispatcher.
  \<^item> Python_Package, Python_Props: the classes of robot_ipc.py over these bindings; values
    and calls that reach the other side.
  \<^item> Cpp_Layout: C++ types with their sizes, alignments and traits, and how a value is
    stored in memory. Cpp_Wrapper: the compile-time checks of robot_ipc.hpp, objects as bytes, and
    the example programs in C++.
  \<^item> Integrity_Check, Example_Variables, Example_Functions: the programs of
    examples/host_variable_integrity_check as a machine over Host_Variable, what the other examples with
    host variables send and show, and the examples with host functions. Example_Runs: the main
    loops of the examples with host variables, in any number of processes.

  \<^bold>\<open>What the lemmas show.\<close> A host variable refines an atomic register; reads are consistent,
  writers exclusive, calls never touch memory outside the object; calls that run alone end;
  the exact conditions of refused calls; with at most three threads none is refused. Linking
  refines a table of published objects, and leaks nothing; the cases in which it goes wrong
  (a failure that removes the name others use, a smaller size, an orphan object) are proved
  as such. The service of host functions is exactly-once and in order whatever fails, its
  states are well-formed, and a pending request is served in five steps of the daemon;
  linking and attaching are all or nothing, deleting closes exactly the descriptors of
  the dispatcher, and every block of the heap is accounted for. Several dispatchers share the calls of
  a name, each call served once by one of them; but a daemon that comes too late for a request blocks, and
  with it the deletion of its dispatcher. In Python, assigning to a variable and reading it
  gives an equal object, and a call reaches the attached function with its arguments; in
  C++, the checks accept what they say but for pointers in structs, and bytes give the value
  back. The integrity test of the repository passes in every interleaving, and the examples print
  what they should. Theorems on concrete inputs show where the code
  does not do what it means to: timestamps that go back, the guard of SIGINT, names that
  overrun the buffer, a descriptor that is an error code, a dispatcher that is freed under
  its daemon, and a Python process that waits for itself.

  \<^bold>\<open>Bounds and fuel.\<close> No definition uses fuel. Loops of the code are steps of a machine, so
  that not ending is a run of any length; that a call ends is a theorem that bounds its
  steps (\<open>12 + op_size\<close> for reads and writes that run alone, 12 for a link, five for the
  daemon). The chain of SIGINT handlers, which may call itself for ever, is a
  \<open>partial_function\<close>, where not returning is \<open>None\<close>. Words of 64 bits are \<open>64 word\<close>, and
  sizes wrap around where the code computes with them.

  \<^bold>\<open>Not modelled.\<close> Memory is sequentially consistent, as the atomics of the code ask for.
  Names of shared memory objects are as given. A pipe is never half written, since the
  library writes at most \<open>PIPE_BUF\<close> bytes at once; signals do not interrupt system calls. In
  the service, no link gives a descriptor that is an error code (that case is a theorem of
  its own), callers are unlinked while their function is attached, a FIFO keeps its bytes
  when its last descriptor is closed, and the read of the control pipe does not fail (the code
  would use a variable it never wrote); its dispatchers are those of one process. What \<open>pickle\<close> makes of an object is a parameter. C++
  classes with base classes are not among the types. Of the examples, banners
  and pauses have no model, and the links whose result the latency and integrity tests do not look at
  succeed; the examples in Python, the CI scripts and the build have no
  model.
\<close>

end
